(* ===== verification/Prelude.thy ===== *)
theory Prelude
  imports Main "HOL-Library.Monad_Syntax" "HOL-Library.Multiset"
begin

text \<open>
  Shared vocabulary of the development: the fragment of Go that the packages of src/src use,
  and the generic facts about lists, options and maps that the component theories rest on.

  \<^item> Go's \<open>int\<close> and \<open>int64\<close> are HOL \<open>int\<close>: terms, log indices and request numbers only grow
    by one per event, so the 64-bit bound is never reached and is not modelled.
  \<^item> A slice is a list. An index or slice expression that Go checks at run time is a value of
    type \<open>option\<close>; \<open>None\<close> is the run-time panic that ends the process. A handler that can panic
    returns an \<open>option\<close>, written in the \<open>do\<close> notation of the option monad.
  \<^item> A Go map is a partial function. Reading an absent key gives the zero value of the element
    type (\<open>mget\<close>). The order in which \<open>range\<close> visits a map is not specified by Go: \<open>go_range\<close>
    takes it as an argument, and \<open>range_order\<close> says which argument is admissible.
\<close>

section \<open>Collections\<close>

named_theorems go_simps \<open>unfolding of the checked slice and map operations\<close>

named_theorems record_splits \<open>case distinctions on the flow of a handler\<close>

declare option.splits [record_splits] if_splits [record_splits] prod.splits [record_splits]

section \<open>Slices\<close>

definition len :: "'a list \<Rightarrow> int" where
  "len xs = int (length xs)"

definition in_range :: "'a list \<Rightarrow> int \<Rightarrow> bool" where
  "in_range xs i \<longleftrightarrow> 0 \<le> i \<and> i < len xs"

definition go_nth :: "'a list \<Rightarrow> int \<Rightarrow> 'a option" where
  "go_nth xs i = (if in_range xs i then Some (xs ! nat i) else None)"

definition go_set :: "'a list \<Rightarrow> int \<Rightarrow> 'a \<Rightarrow> 'a list option" where
  "go_set xs i v = (if in_range xs i then Some (xs[nat i := v]) else None)"

text \<open>
  \<open>xs[lo:hi]\<close>. Go also admits a \<open>hi\<close> between the length and the capacity of the slice, which would
  expose stale array cells; here that is \<open>None\<close> as well, so that a theorem that a slice expression
  is \<open>Some\<close> excludes it too.
\<close>

definition go_slice :: "'a list \<Rightarrow> int \<Rightarrow> int \<Rightarrow> 'a list option" where
  "go_slice xs lo hi =
     (if 0 \<le> lo \<and> lo \<le> hi \<and> hi \<le> len xs
      then Some (take (nat (hi - lo)) (drop (nat lo) xs)) else None)"

definition go_from :: "'a list \<Rightarrow> int \<Rightarrow> 'a list option" where
  "go_from xs lo = go_slice xs lo (len xs)"

lemma len_nonneg [simp]: "0 \<le> len xs"
  by (simp add: len_def)

lemma len_simps [simp]:
  "len [] = 0" "len (x # xs) = 1 + len xs" "len (xs @ ys) = len xs + len ys"
  "len (xs[i := v]) = len xs" "len (map f xs) = len xs"
  by (simp_all add: len_def)

lemma len_eq_0 [simp]: "len xs = 0 \<longleftrightarrow> xs = []"
  by (simp add: len_def)

lemma len_pos [simp]: "0 < len xs \<longleftrightarrow> xs \<noteq> []"
  by (simp add: len_def)

lemma go_nth_Some [go_simps]: "in_range xs i \<Longrightarrow> go_nth xs i = Some (xs ! nat i)"
  by (simp add: go_nth_def)

lemma go_nth_eq_Some_iff: "go_nth xs i = Some x \<longleftrightarrow> in_range xs i \<and> x = xs ! nat i"
  by (auto simp: go_nth_def)

lemma go_nth_eq_None_iff: "go_nth xs i = None \<longleftrightarrow> \<not> in_range xs i"
  by (simp add: go_nth_def)

lemma go_nth_mem: "go_nth xs i = Some x \<Longrightarrow> x \<in> set xs"
  by (auto simp: go_nth_def in_range_def len_def split: if_splits)

lemma go_nth_last: "xs \<noteq> [] \<Longrightarrow> go_nth xs (len xs - 1) = Some (last xs)"
  by (auto simp: go_nth_def in_range_def len_def last_conv_nth nat_diff_distrib Suc_leI
      simp flip: length_greater_0_conv)

lemma go_set_length: "go_set xs i v = Some ys \<Longrightarrow> length ys = length xs"
  by (auto simp: go_set_def split: if_splits)

lemma go_set_nth: "go_set xs i v = Some ys \<Longrightarrow> go_nth ys j = (if j = i then Some v else go_nth xs j)"
  by (auto simp: go_set_def go_nth_def in_range_def len_def nth_list_update nat_eq_iff split: if_splits)

lemma go_slice_0: "0 \<le> hi \<Longrightarrow> hi \<le> len xs \<Longrightarrow> go_slice xs 0 hi = Some (take (nat hi) xs)"
  by (simp add: go_slice_def)

lemma go_from_Some: "0 \<le> lo \<Longrightarrow> lo \<le> len xs \<Longrightarrow> go_from xs lo = Some (drop (nat lo) xs)"
  by (simp add: go_from_def go_slice_def len_def nat_diff_distrib)

lemma nth_lessThan_image: "(!) xs ` {..<length xs} = set xs"
  by (simp add: lessThan_atLeast0 nth_image)

lemma those_map: "(\<And>x. x \<in> set xs \<Longrightarrow> f x = Some (g x)) \<Longrightarrow> those (map f xs) = Some (map g xs)"
  by (induction xs) simp_all

lemma those_nth: "those xs = Some ys \<Longrightarrow> length ys = length xs \<and> (\<forall>i < length xs. xs ! i = Some (ys ! i))"
proof (induction xs arbitrary: ys)
  case (Cons x xs)
  then show ?case by (auto simp: nth_Cons' split: option.splits)
qed simp

section \<open>Maps\<close>

definition mget :: "'v \<Rightarrow> ('k \<rightharpoonup> 'v) \<Rightarrow> 'k \<Rightarrow> 'v" where
  "mget d m k = (case m k of None \<Rightarrow> d | Some v \<Rightarrow> v)"

lemma mget_simps [simp]:
  "mget d Map.empty k = d" "mget d (m(k \<mapsto> v)) k' = (if k' = k then v else mget d m k')"
  by (simp_all add: mget_def)

definition range_order :: "('k \<rightharpoonup> 'v) \<Rightarrow> 'k list \<Rightarrow> bool" where
  "range_order m ks \<longleftrightarrow> distinct ks \<and> set ks = dom m"

text \<open>\<open>for k, v := range m { body }\<close>, visiting the keys in the order \<open>ks\<close>.\<close>

definition go_range :: "'k list \<Rightarrow> ('k \<rightharpoonup> 'v) \<Rightarrow> ('k \<Rightarrow> 'v \<Rightarrow> 's \<Rightarrow> 's) \<Rightarrow> 's \<Rightarrow> 's" where
  "go_range ks m body = fold (\<lambda>k s. case m k of None \<Rightarrow> s | Some v \<Rightarrow> body k v s) ks"

lemma go_range_simps [simp]:
  "go_range [] m body s = s"
  "go_range (k # ks) m body s =
     go_range ks m body (case m k of None \<Rightarrow> s | Some v \<Rightarrow> body k v s)"
  by (simp_all add: go_range_def)

text \<open>
  A loop that writes, at every visited key, one entry of a target map computed from that key, the
  value and the old target entry ends in the same target map whatever the order is.
\<close>

lemma go_range_pointwise_aux:
  "distinct ks \<Longrightarrow>
   go_range ks m (\<lambda>k v t. t(k := f k v (t k))) t0 x =
     (if x \<in> set ks then (case m x of None \<Rightarrow> t0 x | Some v \<Rightarrow> f x v (t0 x)) else t0 x)"
  by (induction ks arbitrary: t0) (auto split: option.split)

lemma go_range_pointwise:
  assumes "range_order m ks"
  shows "go_range ks m (\<lambda>k v t. t(k := f k v (t k))) t0 =
    (\<lambda>x. case m x of None \<Rightarrow> t0 x | Some v \<Rightarrow> f x v (t0 x))"
  using assms by (auto simp: fun_eq_iff range_order_def go_range_pointwise_aux split: option.split)

lemma go_range_copy: "range_order m ks \<Longrightarrow> go_range ks m (\<lambda>k v t. t(k \<mapsto> v)) Map.empty = m"
  using go_range_pointwise [of m ks "\<lambda>k v _. Some v" Map.empty]
  by (auto split: option.split)

lemma go_range_empty: "go_range ks Map.empty f s = s"
  by (induction ks) simp_all

lemma go_range_append_keys: "set ks \<subseteq> dom m \<Longrightarrow> go_range ks m (\<lambda>k _ keys. keys @ [k]) acc = acc @ ks"
  by (induction ks arbitrary: acc) (auto split: option.splits)

lemma go_range_keys: "range_order m ks \<Longrightarrow> go_range ks m (\<lambda>k _ keys. keys @ [k]) [] = ks"
  by (simp add: range_order_def go_range_append_keys)

text \<open>A loop whose bodies commute ends in the same state for every order.\<close>

lemma fold_commute_order:
  assumes "\<And>x y. x \<in> set xs \<Longrightarrow> y \<in> set xs \<Longrightarrow> f x \<circ> f y = f y \<circ> f x"
    and "distinct xs" "distinct ys" "set xs = set ys"
  shows "fold f xs = fold f ys"
proof -
  have "mset xs = mset ys"
    using assms(2-4) by (simp add: set_eq_iff_mset_eq_distinct)
  then show ?thesis
    using assms(1) by (intro fold_multiset_equiv) auto
qed

end
