(* ===== verification/Raft_Votes.thy ===== *)
theory Raft_Votes
  imports Prelude
begin

text \<open>
  The abstract election protocol behind raft.go: terms, votes and leaderships of a cluster of \<open>n\<close>
  servers, without logs, messages or clocks. A server forgets its vote when it first hears of the
  leader of its term (\<open>acceptLeader\<close> resets \<open>VotedFor\<close>), so votes of one term are not unique; the
  invariant \<open>vote_inv\<close> shows that at most one leader per term is elected all the same.
  \<open>Raft_Election\<close> proves that the peers of raft.go refine this protocol.
\<close>

section \<open>Quorums\<close>

locale quorum =
  fixes is_quorum :: "'s set \<Rightarrow> bool"
  assumes quorum_meet: "is_quorum Q \<Longrightarrow> is_quorum R \<Longrightarrow> Q \<inter> R \<noteq> {}"
begin

lemma quorum_nonempty: "is_quorum Q \<Longrightarrow> Q \<noteq> {}"
  using quorum_meet by blast

text \<open>Two quorums whose members agree on what they chose have chosen the same.\<close>

lemma quorum_agree:
  assumes "is_quorum Q" "is_quorum R" "\<forall>v \<in> Q. chosen v = {a}" "\<forall>v \<in> R. b \<in> chosen v"
  shows "a = b"
  using quorum_meet [OF assms(1,2)] assms(3,4) by auto

end

definition majority :: "nat \<Rightarrow> nat set \<Rightarrow> bool" where
  "majority n Q \<longleftrightarrow> Q \<subseteq> {..<n} \<and> int n div 2 < int (card Q)"

interpretation maj: quorum "majority n" for n
proof
  fix Q R
  assume "majority n Q" "majority n R"
  then have *: "Q \<subseteq> {..<n}" "R \<subseteq> {..<n}" "n < 2 * card Q" "n < 2 * card R"
    by (auto simp: majority_def)
  show "Q \<inter> R \<noteq> {}"
  proof
    assume "Q \<inter> R = {}"
    with * have "card (Q \<union> R) = card Q + card R"
      by (intro card_Un_disjoint) (auto intro: finite_subset)
    moreover have "card (Q \<union> R) \<le> n"
      using * card_mono [of "{..<n}" "Q \<union> R"] by simp
    ultimately show False using * by simp
  qed
qed

section \<open>The protocol\<close>

record vote_state =
  ct :: "nat \<Rightarrow> int"
  vf :: "nat \<Rightarrow> int"
  lt :: "nat \<Rightarrow> int"
  granted :: "(int \<times> nat \<times> nat) set"
  leaders :: "(int \<times> nat) set"

inductive vote_step :: "nat \<Rightarrow> vote_state \<Rightarrow> vote_state \<Rightarrow> bool" for n where
  candidate: "vote_step n s (s\<lparr>ct := (ct s)(i := ct s i + 1), vf := (vf s)(i := int i),
      granted := insert (ct s i + 1, i, i) (granted s)\<rparr>)"
| newer: "ct s j < t \<Longrightarrow>
    vote_step n s (s\<lparr>ct := (ct s)(j := t), vf := (vf s)(j := -1), lt := (lt s)(j := t)\<rparr>)"
| vote: "1 \<le> ct s j \<Longrightarrow> vf s j = -1 \<or> vf s j = int i \<Longrightarrow>
    vote_step n s (s\<lparr>vf := (vf s)(j := int i), granted := insert (ct s j, j, i) (granted s)\<rparr>)"
| follow: "(t, l) \<in> leaders s \<Longrightarrow> j \<noteq> l \<Longrightarrow> ct s j \<le> t \<Longrightarrow>
    vote_step n s (s\<lparr>ct := (ct s)(j := t),
      vf := (if lt s j \<noteq> t \<or> ct s j < t then (vf s)(j := -1) else vf s), lt := (lt s)(j := t)\<rparr>)"
| lead: "majority n Q \<Longrightarrow> \<forall>v \<in> Q. (ct s i, v, i) \<in> granted s \<Longrightarrow>
    vote_step n s (s\<lparr>leaders := insert (ct s i, i) (leaders s)\<rparr>)"

text \<open>What keeps a majority behind the leader of a term.\<close>

definition backed_by :: "vote_state \<Rightarrow> int \<Rightarrow> nat \<Rightarrow> nat \<Rightarrow> bool" where
  "backed_by s t l v \<longleftrightarrow> {c. (t, v, c) \<in> granted s} = {l} \<and>
     (ct s v = t \<longrightarrow> vf s v = int l \<and> (v = l \<or> lt s v = t))"

definition term_inv :: "vote_state \<Rightarrow> bool" where
  "term_inv s \<longleftrightarrow> (\<forall>v. 0 \<le> ct s v \<and> (vf s v = int v \<or> lt s v = ct s v \<or> ct s v = 0)) \<and>
     (\<forall>t v c. (t, v, c) \<in> granted s \<longrightarrow> 1 \<le> t \<and> t \<le> ct s v)"

definition free_inv :: "vote_state \<Rightarrow> bool" where
  "free_inv s \<longleftrightarrow> (\<forall>t v c. (t, v, c) \<in> granted s \<longrightarrow> (\<forall>l. (t, l) \<notin> leaders s) \<longrightarrow>
     (\<forall>c'. (t, v, c') \<in> granted s \<longrightarrow> c' = c) \<and> (ct s v = t \<longrightarrow> vf s v = int c))"

definition lead_inv :: "nat \<Rightarrow> vote_state \<Rightarrow> bool" where
  "lead_inv n s \<longleftrightarrow> (\<forall>t l. (t, l) \<in> leaders s \<longrightarrow> (\<exists>Q. majority n Q \<and> (\<forall>v \<in> Q. backed_by s t l v)))"

definition vote_inv :: "nat \<Rightarrow> vote_state \<Rightarrow> bool" where
  "vote_inv n s \<longleftrightarrow> term_inv s \<and> free_inv s \<and> lead_inv n s"

lemma term_invD:
  assumes "term_inv s"
  shows "0 \<le> ct s v" "vf s v = int v \<or> lt s v = ct s v \<or> ct s v = 0"
    and "(t, v, c) \<in> granted s \<Longrightarrow> 1 \<le> t" "(t, v, c) \<in> granted s \<Longrightarrow> t \<le> ct s v"
  using assms unfolding term_inv_def by blast+

lemma term_invI:
  assumes "\<And>v. 0 \<le> ct s v" "\<And>v. vf s v = int v \<or> lt s v = ct s v \<or> ct s v = 0"
    "\<And>t v c. (t, v, c) \<in> granted s \<Longrightarrow> 1 \<le> t \<and> t \<le> ct s v"
  shows "term_inv s"
  using assms unfolding term_inv_def by blast

lemma lead_invD:
  assumes "lead_inv n s" "(t, l) \<in> leaders s"
  obtains Q where "majority n Q" "\<forall>v \<in> Q. backed_by s t l v"
  using assms unfolding lead_inv_def by blast

lemma free_invD:
  assumes "free_inv s" "(t, v, c) \<in> granted s" "\<And>l. (t, l) \<notin> leaders s"
  shows "(t, v, c') \<in> granted s \<Longrightarrow> c' = c" "ct s v = t \<Longrightarrow> vf s v = int c"
  using assms unfolding free_inv_def by blast+

lemma backed_byD:
  assumes "backed_by s t l v"
  shows "(t, v, c) \<in> granted s \<longleftrightarrow> c = l" "ct s v = t \<Longrightarrow> vf s v = int l" "ct s v = t \<Longrightarrow> v = l \<or> lt s v = t"
  using assms by (auto simp: backed_by_def)

lemma lead_unique:
  assumes inv: "lead_inv n s" and l: "(t, l) \<in> leaders s" "(t, l') \<in> leaders s"
  shows "l = l'"
proof -
  obtain Q where Q: "majority n Q" "\<forall>v \<in> Q. backed_by s t l v" using inv l(1) by (rule lead_invD)
  obtain R where R: "majority n R" "\<forall>v \<in> R. backed_by s t l' v" using inv l(2) by (rule lead_invD)
  from Q R show ?thesis
    by (intro maj.quorum_agree [of n Q R "\<lambda>v. {c. (t, v, c) \<in> granted s}"]) (auto simp: backed_by_def)
qed

lemma leader_term:
  assumes "term_inv s" "lead_inv n s" "(t, l) \<in> leaders s"
  shows "1 \<le> t"
proof -
  obtain Q where Q: "majority n Q" "\<forall>v \<in> Q. backed_by s t l v" using assms(2,3) by (rule lead_invD)
  obtain v where "v \<in> Q" using maj.quorum_nonempty [OF Q(1)] by blast
  with Q(2) have "(t, v, l) \<in> granted s" by (auto simp: backed_by_def)
  with assms(1) show ?thesis by (rule term_invD)
qed

section \<open>Preservation\<close>

text \<open>A step that changes the state of one server \<open>j\<close> and lets at most \<open>j\<close> vote, in its new term.\<close>

lemma term_inv_update:
  assumes inv: "term_inv s" and others: "\<forall>v. v \<noteq> j \<longrightarrow> ct s' v = ct s v \<and> vf s' v = vf s v \<and> lt s' v = lt s v"
    and j: "ct s j \<le> ct s' j" "vf s' j = int j \<or> lt s' j = ct s' j"
    and new: "\<forall>t v c. (t, v, c) \<in> granted s' \<longrightarrow> (t, v, c) \<in> granted s \<or> v = j \<and> t = ct s' j \<and> 1 \<le> t"
  shows "term_inv s'"
proof (rule term_invI)
  fix v
  show "0 \<le> ct s' v" using others j(1) term_invD(1) [OF inv, of v] by (cases "v = j") auto
  show "vf s' v = int v \<or> lt s' v = ct s' v \<or> ct s' v = 0"
    using others j(2) term_invD(2) [OF inv, of v] by (cases "v = j") auto
next
  fix t v c
  assume "(t, v, c) \<in> granted s'"
  with new consider "(t, v, c) \<in> granted s" | "v = j" "t = ct s' j" "1 \<le> t" by blast
  then show "1 \<le> t \<and> t \<le> ct s' v"
  proof cases
    case 1
    from term_invD(3,4) [OF inv 1] others j show ?thesis by (cases "v = j") auto
  qed simp
qed

lemma term_inv_step:
  assumes step: "vote_step n s s'" and inv: "term_inv s" "lead_inv n s"
  shows "term_inv s'"
  using step
proof cases
  case (candidate i)
  with term_invD(1) [OF inv(1), of i] show ?thesis by (intro term_inv_update [OF inv(1), of i]) auto
next
  case (newer j t)
  then show ?thesis by (intro term_inv_update [OF inv(1), of j]) auto
next
  case (vote j i)
  with term_invD(2) [OF inv(1), of j] show ?thesis by (intro term_inv_update [OF inv(1), of j]) auto
next
  case (follow t l j)
  then show ?thesis by (intro term_inv_update [OF inv(1), of j]) auto
next
  case (lead Q i)
  with inv show ?thesis by (simp add: term_inv_def)
qed

lemma lead_inv_update:
  assumes "lead_inv n s" "leaders s' = leaders s"
    "\<And>t l v. (t, l) \<in> leaders s \<Longrightarrow> backed_by s t l v \<Longrightarrow> backed_by s' t l v"
  shows "lead_inv n s'"
  unfolding lead_inv_def
proof (intro allI impI)
  fix t l
  assume l: "(t, l) \<in> leaders s'"
  with assms(1,2) obtain Q where "majority n Q" "\<forall>v \<in> Q. backed_by s t l v" by (metis lead_invD)
  with assms(2,3) l show "\<exists>Q. majority n Q \<and> (\<forall>v \<in> Q. backed_by s' t l v)" by auto
qed

lemma backed_by_keep:
  assumes "backed_by s t l v" "\<forall>c. (t, v, c) \<in> granted s' \<longleftrightarrow> (t, v, c) \<in> granted s"
    "ct s' v = t \<longrightarrow> ct s v = t \<and> vf s' v = vf s v \<and> lt s' v = lt s v"
  shows "backed_by s' t l v"
  using assms unfolding backed_by_def by simp

lemma backed_by_term: "term_inv s \<Longrightarrow> backed_by s t l v \<Longrightarrow> t \<le> ct s v"
  using term_invD(4) [of s t v l] by (auto simp: backed_by_def)

lemma lead_inv_step:
  assumes step: "vote_step n s s'" and inv: "term_inv s" "free_inv s" "lead_inv n s"
  shows "lead_inv n s'"
  using step
proof cases
  case (candidate i)
  show ?thesis
  proof (rule lead_inv_update [OF inv(3)])
    fix t l v
    assume b: "backed_by s t l v"
    from backed_by_term [OF inv(1) b] candidate show "backed_by s' t l v"
      by (intro backed_by_keep [OF b]) auto
  qed (use candidate in simp)
next
  case (newer j t')
  show ?thesis
  proof (rule lead_inv_update [OF inv(3)])
    fix t l v
    assume b: "backed_by s t l v"
    from backed_by_term [OF inv(1) b] newer show "backed_by s' t l v"
      by (intro backed_by_keep [OF b]) auto
  qed (use newer in simp)
next
  case (vote j i)
  show ?thesis
  proof (rule lead_inv_update [OF inv(3)])
    fix t l v
    assume b: "backed_by s t l v"
    show "backed_by s' t l v"
    proof (cases "v = j \<and> t = ct s j")
      case True
      with backed_byD(2) [OF b] vote have "i = l" "vf s j = int l" by auto
      with True b vote show ?thesis by (auto simp: backed_by_def)
    next
      case False
      with vote show ?thesis by (intro backed_by_keep [OF b]) auto
    qed
  qed (use vote in simp)
next
  case (follow t' l' j)
  show ?thesis
  proof (rule lead_inv_update [OF inv(3)])
    fix t l v
    assume l: "(t, l) \<in> leaders s" and b: "backed_by s t l v"
    have "v = j \<and> t = t' \<Longrightarrow> ct s j = t \<and> lt s j = t"
      using lead_unique [OF inv(3) l, of l'] follow backed_by_term [OF inv(1) b] backed_byD(3) [OF b] by auto
    with follow show "backed_by s' t l v" by (intro backed_by_keep [OF b]) auto
  qed (use follow in simp)
next
  case (lead Q i)
  have old: "backed_by s' t l v = backed_by s t l v" for t l v using lead by (simp add: backed_by_def)
  show ?thesis
  proof (cases "\<exists>l. (ct s i, l) \<in> leaders s")
    case True
    then obtain l where l: "(ct s i, l) \<in> leaders s" ..
    obtain R where R: "majority n R" "\<forall>v \<in> R. backed_by s (ct s i) l v" using inv(3) l by (rule lead_invD)
    have "\<forall>v \<in> R. {c. (ct s i, v, c) \<in> granted s} = {l}" "\<forall>v \<in> Q. i \<in> {c. (ct s i, v, c) \<in> granted s}"
      using R(2) lead(3) by (simp_all add: backed_by_def)
    then have "l = i" by (rule maj.quorum_agree [OF R(1) lead(2)])
    with l lead have "leaders s' = leaders s" by auto
    with inv(3) old show ?thesis by (simp add: lead_inv_def)
  next
    case False
    have "backed_by s (ct s i) i v" if "v \<in> Q" for v
    proof -
      have g: "(ct s i, v, i) \<in> granted s" using lead that by simp
      from False have none: "(ct s i, l) \<notin> leaders s" for l by blast
      have "{c. (ct s i, v, c) \<in> granted s} = {i}"
        using free_invD(1) [OF inv(2) g none] g by blast
      moreover have "vf s v = int i" "v = i \<or> lt s v = ct s i" if c: "ct s v = ct s i"
      proof -
        show "vf s v = int i" by (rule free_invD(2) [OF inv(2) g none c])
        with c term_invD(2) [OF inv(1), of v] term_invD(3) [OF inv(1) g] show "v = i \<or> lt s v = ct s i" by auto
      qed
      ultimately show ?thesis unfolding backed_by_def by blast
    qed
    with inv(3) lead show ?thesis unfolding lead_inv_def old by auto
  qed
qed

lemma free_inv_update:
  assumes inv: "free_inv s" and lead: "leaders s \<subseteq> leaders s'"
    and new: "\<And>t v c. (t, v, c) \<in> granted s' \<Longrightarrow> (\<And>l. (t, l) \<notin> leaders s) \<Longrightarrow> (t, v, c) \<in> granted s \<or>
        ct s' v = t \<and> vf s' v = int c \<and> (\<forall>c'. (t, v, c') \<in> granted s \<longrightarrow> c' = c)"
    and keep: "\<And>t v c. (t, v, c) \<in> granted s \<Longrightarrow> (\<And>l. (t, l) \<notin> leaders s) \<Longrightarrow> ct s' v = t \<Longrightarrow>
        ct s v = t \<and> (vf s' v = vf s v \<or> vf s v = -1)"
  shows "free_inv s'"
  unfolding free_inv_def
proof (intro allI impI conjI)
  fix t v c c'
  assume c: "(t, v, c) \<in> granted s'" and "\<forall>l. (t, l) \<notin> leaders s'"
  with lead have none: "(t, l) \<notin> leaders s" for l by auto
  show vf: "vf s' v = int c" if t: "ct s' v = t"
  proof (cases "(t, v, c) \<in> granted s")
    case True
    from keep [OF True none t] free_invD(2) [OF inv True none] show ?thesis by auto
  qed (use new [OF c none] in simp)
  assume c': "(t, v, c') \<in> granted s'"
  from new [OF c none] new [OF c' none] consider "(t, v, c) \<in> granted s" "(t, v, c') \<in> granted s"
    | "ct s' v = t" "vf s' v = int c'" | "ct s' v = t" "vf s' v = int c" "(t, v, c') \<in> granted s \<longrightarrow> c' = c"
      "(t, v, c') \<in> granted s" by blast
  then show "c' = c"
  proof cases
    case 1
    then show ?thesis using free_invD(1) [OF inv _ none] by blast
  next
    case 2
    with vf show ?thesis by simp
  qed simp
qed

lemma free_inv_step:
  assumes step: "vote_step n s s'" and inv: "term_inv s" "free_inv s"
  shows "free_inv s'"
  using step
proof cases
  case (candidate i)
  have "\<not> (ct s i + 1, i, c) \<in> granted s" for c using term_invD(4) [OF inv(1), of "ct s i + 1" i c] by auto
  with candidate show ?thesis
    by (intro free_inv_update [OF inv(2)]) (auto dest: term_invD(4) [OF inv(1)])
next
  case (newer j t)
  with inv(1) show ?thesis
    by (intro free_inv_update [OF inv(2)]) (auto dest: term_invD(4))
next
  case (vote j i)
  then show ?thesis
    by (intro free_inv_update [OF inv(2)]) (auto dest: free_invD(2) [OF inv(2)])
next
  case (follow t l j)
  with inv(1) show ?thesis
    by (intro free_inv_update [OF inv(2)]) (auto dest: term_invD(4))
next
  case (lead Q i)
  then show ?thesis by (intro free_inv_update [OF inv(2)]) auto
qed

lemma vote_inv_step: "vote_step n s s' \<Longrightarrow> vote_inv n s \<Longrightarrow> vote_inv n s'"
  unfolding vote_inv_def using term_inv_step free_inv_step lead_inv_step by blast

lemma vote_inv_run: "(vote_step n)\<^sup>*\<^sup>* s s' \<Longrightarrow> vote_inv n s \<Longrightarrow> vote_inv n s'"
  by (induction rule: rtranclp_induct) (auto intro: vote_inv_step)

end
