(* ===== verification/Storage.thy ===== *)
theory Storage
  imports Prelude
begin

text \<open>
  Stable storage: the gob streams of src/src/labgob/labgob.go (a wrapper of Go's \<open>encoding/gob\<close>)
  and the \<open>Persister\<close> of src/src/raft/persister.go.

  A gob stream is the sequence of the values encoded into it. Every package instantiates the value
  type \<open>'v\<close> with the types it encodes. \<open>Encode\<close> appends a value, \<open>Decode\<close> takes the first
  one and fails (\<open>None\<close>, the non-nil \<open>error\<close>) at the end of the stream or when the value is not
  of the type asked for. The length of the byte slice is not a function of this view; where the
  code compares it with a threshold it is the parameter \<open>size_of\<close>.
\<close>

section \<open>Gob streams\<close>

definition Encode :: "'v \<Rightarrow> 'v list \<Rightarrow> 'v list" where
  "Encode v w = w @ [v]"

definition Decode :: "('v \<Rightarrow> 'a option) \<Rightarrow> 'v list \<Rightarrow> ('a \<times> 'v list) option" where
  "Decode as r = (case r of [] \<Rightarrow> None | v # r' \<Rightarrow> map_option (\<lambda>a. (a, r')) (as v))"

lemma Encode_not_Nil [simp]: "Encode v w \<noteq> []"
  by (simp add: Encode_def)

lemma Decode_Cons [simp]: "as v = Some a \<Longrightarrow> Decode as (v # r) = Some (a, r)"
  by (simp add: Decode_def)

section \<open>The persister\<close>

record ('v, 'w) Persister =
  raftstate :: "'v list"
  snapshot :: "'w list"

definition MakePersister :: "('v, 'w) Persister" where
  "MakePersister = \<lparr>raftstate = [], snapshot = []\<rparr>"

definition clone :: "'v list \<Rightarrow> 'v list" where
  "clone orig = orig"

definition Copy :: "('v, 'w) Persister \<Rightarrow> ('v, 'w) Persister" where
  "Copy ps = MakePersister\<lparr>raftstate := raftstate ps, snapshot := snapshot ps\<rparr>"

definition SaveRaftState :: "'v list \<Rightarrow> ('v, 'w) Persister \<Rightarrow> ('v, 'w) Persister" where
  "SaveRaftState state ps = ps\<lparr>raftstate := clone state\<rparr>"

definition ReadRaftState :: "('v, 'w) Persister \<Rightarrow> 'v list" where
  "ReadRaftState ps = clone (raftstate ps)"

definition RaftStateSize :: "('v list \<Rightarrow> int) \<Rightarrow> ('v, 'w) Persister \<Rightarrow> int" where
  "RaftStateSize size_of ps = size_of (raftstate ps)"

definition SaveStateAndSnapshot :: "'v list \<Rightarrow> 'w list \<Rightarrow> ('v, 'w) Persister \<Rightarrow> ('v, 'w) Persister" where
  "SaveStateAndSnapshot state snap ps = ps\<lparr>raftstate := clone state, snapshot := clone snap\<rparr>"

definition ReadSnapshot :: "('v, 'w) Persister \<Rightarrow> 'w list" where
  "ReadSnapshot ps = clone (snapshot ps)"

definition SnapshotSize :: "('w list \<Rightarrow> int) \<Rightarrow> ('v, 'w) Persister \<Rightarrow> int" where
  "SnapshotSize size_of ps = size_of (snapshot ps)"

lemmas persister_defs =
  MakePersister_def clone_def Copy_def SaveRaftState_def ReadRaftState_def
  SaveStateAndSnapshot_def ReadSnapshot_def

lemma persister_simps [simp]:
  "ReadRaftState (SaveRaftState st ps) = st"
  "ReadSnapshot (SaveRaftState st ps) = ReadSnapshot ps"
  "ReadRaftState (SaveStateAndSnapshot st sn ps) = st"
  "ReadSnapshot (SaveStateAndSnapshot st sn ps) = sn"
  "raftstate (SaveRaftState st ps) = st" "snapshot (SaveRaftState st ps) = snapshot ps"
  "raftstate (SaveStateAndSnapshot st sn ps) = st" "snapshot (SaveStateAndSnapshot st sn ps) = sn"
  "ReadRaftState (Copy ps) = ReadRaftState ps" "ReadSnapshot (Copy ps) = ReadSnapshot ps"
  by (simp_all add: persister_defs)

section \<open>Codecs\<close>

text \<open>
  What a component relies on when it saves its state as a gob stream and reads it back after a
  restart: what was encoded is decoded, and an encoded state is not mistaken for the empty stream
  of a first boot.
\<close>

locale codec =
  fixes enc :: "'st \<Rightarrow> 'v list"
    and dec :: "'v list \<Rightarrow> 'st option"
  assumes dec_enc: "dec (enc s) = Some s"
    and enc_not_Nil: "enc s \<noteq> []"
begin

lemma enc_inject: "enc s = enc t \<longleftrightarrow> s = t"
  by (metis dec_enc option.inject)

lemma saved_raftstate: "dec (ReadRaftState (SaveRaftState (enc s) ps)) = Some s"
  by (simp add: dec_enc)

lemma saved_both:
  "dec (ReadRaftState (SaveStateAndSnapshot (enc s) sn ps)) = Some s"
  "dec (ReadSnapshot (SaveStateAndSnapshot st (enc s) qs)) = Some s"
  by (simp_all add: dec_enc)

end

end
