(* ===== verification/Raft.thy ===== *)
theory Raft
  imports Storage
begin

text \<open>
  The Raft peer of src/src/raft/raft.go: its data types, its state and every operation, in the
  order of the source. The facts about them are in the theories \<open>Raft_Log\<close>, \<open>Raft_Inv\<close>, \<open>Raft_Leader\<close>,
  \<open>Raft_Persist\<close>, \<open>Raft_Steps\<close>, \<open>Raft_Votes\<close> and \<open>Raft_Election\<close>.

  \<^item> Field names carry a prefix for their struct: \<open>am_\<close> ApplyMsg, \<open>e_\<close> RaftLogEntry, \<open>ae_\<close>/\<open>aer_\<close>
    AppendEntriesArgs/Reply, \<open>is_\<close>/\<open>isr_\<close> InstallSnapshotArg/Reply, \<open>rv_\<close>/\<open>rvr_\<close>
    RequestVoteArgs/Reply. The fields of \<open>Raft\<close> keep their names.
  \<^item> \<open>'c\<close> is the type of commands (\<open>interface{}\<close>), \<open>'w\<close> that of the values in a snapshot stream.
  \<^item> A function that runs under \<open>rf.mu\<close> is one transition of the state. A goroutine that releases
    the lock in between is cut there: the code before and after an RPC or a channel send are two
    transitions. Mutexes, condition variables, channels and debug output have no state here.
  \<^item> \<open>time.Now()\<close> and \<open>rand.Intn(500)\<close> are the arguments \<open>now\<close> and \<open>rnd\<close> of type \<open>env\<close>.
\<close>

section \<open>Data\<close>

record ('c, 'w) ApplyMsg =
  am_CommandValid :: bool
  am_Command :: "'c option"
  am_CommandIndex :: int
  am_SnapshotValid :: bool
  am_Snapshot :: "'w list"
  am_SnapshotTerm :: int
  am_SnapshotIndex :: int

definition ApplyMsg0 :: "('c, 'w) ApplyMsg" where
  "ApplyMsg0 = \<lparr>am_CommandValid = False, am_Command = None, am_CommandIndex = 0,
     am_SnapshotValid = False, am_Snapshot = [], am_SnapshotTerm = 0, am_SnapshotIndex = 0\<rparr>"

record 'c RaftLogEntry =
  e_Command :: 'c
  e_Term :: int
  e_Index :: int

datatype Role = Leader | Follower | Candidate

text \<open>The values a Raft peer encodes into its persistent state.\<close>

datatype 'c raft_gob = GInt int | GLogs "'c RaftLogEntry list"

fun as_int :: "'c raft_gob \<Rightarrow> int option" where
  "as_int (GInt i) = Some i"
| "as_int (GLogs _) = None"

fun as_logs :: "'c raft_gob \<Rightarrow> 'c RaftLogEntry list option" where
  "as_logs (GLogs l) = Some l"
| "as_logs (GInt _) = None"

record ('c, 'w) Raft =
  peers :: nat
  persister :: "('c raft_gob, 'w) Persister"
  me :: int
  dead :: int
  snapshotMsg :: "('c, 'w) ApplyMsg"
  CurrentTerm :: int
  VotedFor :: int
  Logs :: "'c RaftLogEntry list"
  CommitIndex :: int
  LastApplied :: int
  NextIndex :: "int list"
  MatchIndex :: "int list"
  State :: Role
  LastReceive :: int
  ElectionTimeout :: int
  Half :: int
  TotalNum :: int
  LeaderTerm :: int
  LastNewEntryIndex :: int
  SnapshotLastIncludedIndex :: int
  SnapshotLastIncludedTerm :: int

record env =
  now :: int
  rnd :: int

record 'c AppendEntriesArgs =
  ae_Term :: int
  ae_LeaderId :: int
  ae_PrevLogIndex :: int
  ae_PrevLogTerm :: int
  ae_Entries :: "'c RaftLogEntry list"
  ae_LeaderCommit :: int

record AppendEntriesReply =
  aer_Term :: int
  aer_Success :: bool
  aer_Conflict :: bool
  aer_ConflictTerm :: int
  aer_ConflictIndex :: int

definition AppendEntriesReply0 :: AppendEntriesReply where
  "AppendEntriesReply0 = \<lparr>aer_Term = 0, aer_Success = False, aer_Conflict = False,
     aer_ConflictTerm = 0, aer_ConflictIndex = 0\<rparr>"

record 'w InstallSnapshotArg =
  is_Term :: int
  is_LeaderId :: int
  is_LastIncludedIndex :: int
  is_LastIncludedTerm :: int
  is_Data :: "'w list"

record InstallSnapshotReply =
  isr_Term :: int
  isr_Success :: bool

record RequestVoteArgs =
  rv_Term :: int
  rv_CandidateId :: int
  rv_LastLogIndex :: int
  rv_LastLogTerm :: int

record RequestVoteReply =
  rvr_Term :: int
  rvr_VoteGranted :: bool

definition RequestVoteReply0 :: RequestVoteReply where
  "RequestVoteReply0 = \<lparr>rvr_Term = 0, rvr_VoteGranted = False\<rparr>"

definition max_int :: "int \<Rightarrow> int \<Rightarrow> int" where
  "max_int x y = (if x < y then y else x)"

definition min_int :: "int \<Rightarrow> int \<Rightarrow> int" where
  "min_int x y = (if x < y then x else y)"

lemma max_int_eq [simp]: "max_int x y = max x y" and min_int_eq [simp]: "min_int x y = min x y"
  by (auto simp: max_int_def min_int_def)

definition randElectionTimeout :: "int \<Rightarrow> int" where
  "randElectionTimeout n = n + 300"

section \<open>Persistence\<close>

text \<open>The stream written by \<open>persist\<close> and by \<open>makeRaftState\<close>.\<close>

definition raft_stream :: "int \<Rightarrow> 'c RaftLogEntry list \<Rightarrow> int \<Rightarrow> int \<Rightarrow> int \<Rightarrow> 'c raft_gob list" where
  "raft_stream term logs vote snapIndex snapTerm =
     Encode (GInt snapTerm) (Encode (GInt snapIndex) (Encode (GInt vote)
       (Encode (GLogs logs) (Encode (GInt term) []))))"

definition persist :: "('c, 'w) Raft \<Rightarrow> ('c, 'w) Raft" where
  "persist rf = rf\<lparr>persister := SaveRaftState
     (raft_stream (CurrentTerm rf) (Logs rf) (VotedFor rf)
        (SnapshotLastIncludedIndex rf) (SnapshotLastIncludedTerm rf)) (persister rf)\<rparr>"

definition decode_raft :: "'c raft_gob list \<Rightarrow> (int \<times> 'c RaftLogEntry list \<times> int \<times> int \<times> int) option" where
  "decode_raft data = do {
     (term, r) \<leftarrow> Decode as_int data;
     (logs, r) \<leftarrow> Decode as_logs r;
     (vote, r) \<leftarrow> Decode as_int r;
     (snapIndex, r) \<leftarrow> Decode as_int r;
     (snapTerm, r) \<leftarrow> Decode as_int r;
     Some (term, logs, vote, snapIndex, snapTerm)
   }"

definition readPersist :: "'c raft_gob list \<Rightarrow> ('c, 'w) Raft \<Rightarrow> ('c, 'w) Raft" where
  "readPersist data rf =
     (if data = [] then rf
      else case decode_raft data of
        None \<Rightarrow> rf
      | Some (term, logs, vote, snapIndex, snapTerm) \<Rightarrow>
          rf\<lparr>CurrentTerm := term, VotedFor := vote, Logs := logs,
             SnapshotLastIncludedIndex := snapIndex, SnapshotLastIncludedTerm := snapTerm,
             CommitIndex := snapIndex, LastApplied := snapIndex\<rparr>)"

text \<open>The step down to a higher term seen in a request or a reply.\<close>

definition stepDown :: "int \<Rightarrow> ('c, 'w) Raft \<Rightarrow> ('c, 'w) Raft" where
  "stepDown term rf = persist (rf\<lparr>State := Follower, CurrentTerm := term, VotedFor := -1,
     LeaderTerm := term, LastNewEntryIndex := CommitIndex rf\<rparr>)"

section \<open>AppendEntries\<close>

text \<open>The request is accepted as a heartbeat of the leader of \<open>term\<close>; the flag is \<open>stateChange\<close>.\<close>

definition acceptLeader :: "env \<Rightarrow> int \<Rightarrow> ('c, 'w) Raft \<Rightarrow> ('c, 'w) Raft \<times> bool" where
  "acceptLeader ev term rf =
     (let rf = rf\<lparr>State := Follower, LastReceive := now ev,
                  ElectionTimeout := randElectionTimeout (rnd ev)\<rparr>;
          (rf, stateChange) =
            (if term \<noteq> LeaderTerm rf
             then (rf\<lparr>LeaderTerm := term, LastNewEntryIndex := CommitIndex rf, VotedFor := -1\<rparr>, True)
             else (rf, False));
          (rf, stateChange) =
            (if term > CurrentTerm rf
             then (rf\<lparr>CurrentTerm := term, VotedFor := -1, LeaderTerm := term,
                      LastNewEntryIndex := CommitIndex rf\<rparr>, True)
             else (rf, stateChange))
      in (rf, stateChange))"

text \<open>The backward loop of lines 198-203; the last argument is \<open>i + 1\<close>.\<close>

fun conflictScan :: "'c RaftLogEntry list \<Rightarrow> int \<Rightarrow> int \<Rightarrow> nat \<Rightarrow> int option" where
  "conflictScan logs prevTerm conflictIndex 0 = Some conflictIndex"
| "conflictScan logs prevTerm conflictIndex (Suc i) = do {
     e \<leftarrow> go_nth logs (int i);
     if e_Term e \<noteq> prevTerm
     then do { e' \<leftarrow> go_nth logs (int i + 1); Some (e_Index e') }
     else conflictScan logs prevTerm conflictIndex i
   }"

text \<open>The forward loop of lines 211-223, over the entries that are left from position \<open>i\<close> on.\<close>

fun matchScan :: "'c RaftLogEntry list \<Rightarrow> 'c RaftLogEntry list \<Rightarrow> int \<Rightarrow> int \<Rightarrow> (int \<times> int) option" where
  "matchScan logs [] index i = Some (index, i)"
| "matchScan logs (e # es) index i =
     (if index < len logs then
        if index < 0 then matchScan logs es (index + 1) (i + 1)
        else do {
          l \<leftarrow> go_nth logs index;
          if e_Index l \<noteq> e_Index e \<or> e_Term l \<noteq> e_Term e then Some (index, i)
          else matchScan logs es (index + 1) (i + 1)
        }
      else Some (index, i))"

text \<open>Steps 3 and 4 of the handler: drop the conflicting tail, append what is new.\<close>

definition mergeEntries :: "'c AppendEntriesArgs \<Rightarrow> ('c, 'w) Raft \<times> bool \<Rightarrow> (('c, 'w) Raft \<times> bool) option" where
  "mergeEntries args = (\<lambda>(rf, stateChange).
     if ae_Entries args \<noteq> [] then do {
       (index, i) \<leftarrow> matchScan (Logs rf) (ae_Entries args)
                        (ae_PrevLogIndex args - SnapshotLastIncludedIndex rf) 0;
       (rf, stateChange) \<leftarrow>
         (if i < len (ae_Entries args) then do {
            keep \<leftarrow> go_slice (Logs rf) 0 index;
            rest \<leftarrow> go_from (ae_Entries args) i;
            Some (rf\<lparr>Logs := keep @ rest\<rparr>, True)
          } else Some (rf, stateChange));
       Some (rf\<lparr>LastNewEntryIndex := max_int (LastNewEntryIndex rf)
                  (ae_PrevLogIndex args + len (ae_Entries args))\<rparr>, stateChange)
     } else Some (rf, stateChange))"

text \<open>Step 5 and the final \<open>persist\<close>.\<close>

definition followCommit :: "int \<Rightarrow> ('c, 'w) Raft \<Rightarrow> ('c, 'w) Raft" where
  "followCommit leaderCommit rf =
     (if leaderCommit > CommitIndex rf
      then rf\<lparr>CommitIndex := min_int leaderCommit (LastNewEntryIndex rf)\<rparr> else rf)"

definition acceptEntries ::
  "'c AppendEntriesArgs \<Rightarrow> AppendEntriesReply \<Rightarrow> ('c, 'w) Raft \<times> bool
    \<Rightarrow> (('c, 'w) Raft \<times> AppendEntriesReply) option" where
  "acceptEntries args reply rf_sc = do {
     (rf, stateChange) \<leftarrow> mergeEntries args rf_sc;
     let rf = followCommit (ae_LeaderCommit args) rf;
     Some (if stateChange then persist rf else rf, reply\<lparr>aer_Success := True\<rparr>)
   }"

definition AppendEntries ::
  "env \<Rightarrow> 'c AppendEntriesArgs \<Rightarrow> ('c, 'w) Raft \<Rightarrow> (('c, 'w) Raft \<times> AppendEntriesReply) option" where
  "AppendEntries ev args rf =
     (let reply = AppendEntriesReply0\<lparr>aer_Term := CurrentTerm rf, aer_Success := False,
                    aer_Conflict := False\<rparr>
      in if ae_Term args < CurrentTerm rf then Some (rf, reply)
      else
        let (rf, stateChange) = acceptLeader ev (ae_Term args) rf;
            endIndex = SnapshotLastIncludedIndex rf + len (Logs rf)
        in if ae_PrevLogIndex args \<le> SnapshotLastIncludedIndex rf
           then acceptEntries args reply (rf, stateChange)
           else if ae_PrevLogIndex args > endIndex
           then Some (rf, reply\<lparr>aer_Conflict := True, aer_ConflictIndex := endIndex\<rparr>)
           else do {
             prev \<leftarrow> go_nth (Logs rf) (ae_PrevLogIndex args - SnapshotLastIncludedIndex rf - 1);
             if e_Term prev \<noteq> ae_PrevLogTerm args
             then do {
               ci \<leftarrow> conflictScan (Logs rf) (e_Term prev) (e_Index prev)
                       (nat (ae_PrevLogIndex args - SnapshotLastIncludedIndex rf));
               Some (rf, reply\<lparr>aer_Conflict := True, aer_ConflictTerm := e_Term prev,
                               aer_ConflictIndex := ci\<rparr>)
             }
             else acceptEntries args reply (rf, stateChange)
           })"


section \<open>The leader's side of AppendEntries\<close>

text \<open>
  The loops of lines 276-286 over the log: the position of the first entry of a term, and the
  position after the run of entries of that term.
\<close>

fun findTerm :: "'c RaftLogEntry list \<Rightarrow> int \<Rightarrow> int \<Rightarrow> bool \<times> int" where
  "findTerm [] t index = (False, index)"
| "findTerm (e # es) t index = (if e_Term e = t then (True, index) else findTerm es t (index + 1))"

fun skipTerm :: "'c RaftLogEntry list \<Rightarrow> int \<Rightarrow> int \<Rightarrow> int" where
  "skipTerm [] t index = index"
| "skipTerm (e # es) t index = (if e_Term e = t then skipTerm es t (index + 1) else index)"

text \<open>The value that \<open>NextIndex[server]\<close> backs up to after a conflict (lines 273-294).\<close>

definition backUp :: "AppendEntriesReply \<Rightarrow> 'c RaftLogEntry list \<Rightarrow> int option" where
  "backUp reply logs =
     (if aer_ConflictTerm reply \<noteq> 0 then
        let (found, index) = findTerm logs (aer_ConflictTerm reply) 0
        in if found then do {
             e \<leftarrow> go_nth logs (skipTerm (drop (nat index) logs) (aer_ConflictTerm reply) index);
             Some (e_Index e)
           }
           else Some (aer_ConflictIndex reply)
      else Some (max_int (aer_ConflictIndex reply) 1))"

text \<open>
  \<open>sendAppendEntries\<close> from the return of the RPC on. \<open>ok\<close> is the result of \<open>Call\<close>; after a failed
  call \<open>reply\<close> is still \<open>AppendEntriesReply0\<close>.
\<close>

definition sendAppendEntries ::
  "int \<Rightarrow> 'c AppendEntriesArgs \<Rightarrow> AppendEntriesReply \<Rightarrow> bool \<Rightarrow> ('c, 'w) Raft
    \<Rightarrow> (('c, 'w) Raft \<times> bool) option" where
  "sendAppendEntries server args reply ok rf =
     (if aer_Term reply > CurrentTerm rf then Some (stepDown (aer_Term reply) rf, False)
      else if aer_Term reply < CurrentTerm rf then Some (rf, False)
      else if CurrentTerm rf = ae_Term args then
        if aer_Success reply then do {
          m \<leftarrow> go_nth (MatchIndex rf) server;
          mi \<leftarrow> go_set (MatchIndex rf) server
                  (max_int m (ae_PrevLogIndex args + len (ae_Entries args)));
          n \<leftarrow> go_nth (NextIndex rf) server;
          ni \<leftarrow> go_set (NextIndex rf) server
                  (max_int n (ae_PrevLogIndex args + len (ae_Entries args) + 1));
          Some (rf\<lparr>MatchIndex := mi, NextIndex := ni\<rparr>, ok)
        }
        else if aer_Conflict reply then do {
          n \<leftarrow> go_nth (NextIndex rf) server;
          if n = ae_PrevLogIndex args + 1 then do {
            b \<leftarrow> backUp reply (Logs rf);
            ni \<leftarrow> go_set (NextIndex rf) server b;
            Some (rf\<lparr>NextIndex := ni\<rparr>, ok)
          } else Some (rf, ok)
        }
        else Some (rf, ok)
      else Some (rf, ok))"

definition GetState :: "('c, 'w) Raft \<Rightarrow> int \<times> bool" where
  "GetState rf = (CurrentTerm rf, State rf = Leader)"

definition CondInstallSnapshot :: "int \<Rightarrow> int \<Rightarrow> 'w list \<Rightarrow> ('c, 'w) Raft \<Rightarrow> bool" where
  "CondInstallSnapshot lastIncludedTerm lastIncludedIndex snap rf = True"

section \<open>Snapshots\<close>

text \<open>The encoded state with the log trimmed up to \<open>upperbound\<close>, and the parts it was made of.\<close>

definition makeRaftState ::
  "int \<Rightarrow> ('c, 'w) Raft \<Rightarrow> ('c raft_gob list \<times> 'c RaftLogEntry list \<times> int \<times> int) option" where
  "makeRaftState upperbound rf = do {
     let logs = Logs rf;
     (logs, snapshotindex, snapshotterm) \<leftarrow>
       (if logs = [] then Some (logs, SnapshotLastIncludedIndex rf, SnapshotLastIncludedTerm rf)
        else do {
          e0 \<leftarrow> go_nth logs 0;
          if upperbound \<le> e_Index e0
          then Some (logs, SnapshotLastIncludedIndex rf, SnapshotLastIncludedTerm rf)
          else do {
            let startIndex = upperbound - e_Index e0;
            (snapshotindex, snapshotterm) \<leftarrow>
              (if startIndex > 0 then do {
                 e \<leftarrow> go_nth logs (min_int startIndex (len logs) - 1);
                 Some (e_Index e, e_Term e)
               } else Some (SnapshotLastIncludedIndex rf, SnapshotLastIncludedTerm rf));
            logs \<leftarrow> go_from logs (min_int startIndex (len logs));
            Some (logs, snapshotindex, snapshotterm)
          }
        });
     let snapshotindex = max_int snapshotindex (upperbound - 1);
     Some (raft_stream (CurrentTerm rf) logs (VotedFor rf) snapshotindex snapshotterm,
           logs, snapshotindex, snapshotterm)
   }"

definition InstallSnapshot ::
  "env \<Rightarrow> 'w InstallSnapshotArg \<Rightarrow> ('c, 'w) Raft \<Rightarrow> (('c, 'w) Raft \<times> InstallSnapshotReply) option" where
  "InstallSnapshot ev args rf =
     (if is_Term args < CurrentTerm rf
      then Some (rf, \<lparr>isr_Term = CurrentTerm rf, isr_Success = False\<rparr>)
      else
        let reply = \<lparr>isr_Term = CurrentTerm rf, isr_Success = True\<rparr>;
            rf = fst (acceptLeader ev (is_Term args) rf)
        in if SnapshotLastIncludedIndex rf \<ge> is_LastIncludedIndex args
              \<or> am_SnapshotIndex (snapshotMsg rf) > is_LastIncludedIndex args
           then Some (persist rf, reply)
           else do {
             let msg = ApplyMsg0\<lparr>am_CommandValid := False, am_SnapshotValid := True,
                         am_Snapshot := is_Data args, am_SnapshotTerm := is_LastIncludedTerm args,
                         am_SnapshotIndex := is_LastIncludedIndex args\<rparr>;
             let rf = rf\<lparr>snapshotMsg := msg\<rparr>;
             (raftstate, logs, _, _) \<leftarrow> makeRaftState (is_LastIncludedIndex args + 1) rf;
             Some (rf\<lparr>persister := SaveStateAndSnapshot raftstate (is_Data args) (persister rf),
                      Logs := logs,
                      SnapshotLastIncludedIndex := is_LastIncludedIndex args,
                      SnapshotLastIncludedTerm := is_LastIncludedTerm args,
                      CommitIndex := max_int (CommitIndex rf) (is_LastIncludedIndex args),
                      LastApplied := max_int (LastApplied rf) (is_LastIncludedIndex args)\<rparr>,
                   reply)
           })"

definition sendInstallSnapshot ::
  "int \<Rightarrow> 'w InstallSnapshotArg \<Rightarrow> InstallSnapshotReply \<Rightarrow> bool \<Rightarrow> ('c, 'w) Raft
    \<Rightarrow> (('c, 'w) Raft \<times> bool) option" where
  "sendInstallSnapshot server args reply ok rf =
     (if isr_Term reply > CurrentTerm rf then Some (stepDown (isr_Term reply) rf, False)
      else if isr_Term reply < CurrentTerm rf then Some (rf, False)
      else if CurrentTerm rf = is_Term args \<and> isr_Success reply then do {
        m \<leftarrow> go_nth (MatchIndex rf) server;
        mi \<leftarrow> go_set (MatchIndex rf) server (max_int m (is_LastIncludedIndex args));
        n \<leftarrow> go_nth (NextIndex rf) server;
        ni \<leftarrow> go_set (NextIndex rf) server (max_int n (is_LastIncludedIndex args + 1));
        Some (rf\<lparr>MatchIndex := mi, NextIndex := ni\<rparr>, ok)
      }
      else Some (rf, ok))"

definition advanceToIndex :: "int \<Rightarrow> ('c, 'w) Raft \<Rightarrow> ('c, 'w) Raft option" where
  "advanceToIndex index rf =
     (if index \<le> SnapshotLastIncludedIndex rf then Some rf
      else if Logs rf = [] then Some rf
      else do {
        e0 \<leftarrow> go_nth (Logs rf) 0;
        let startIndex = index - e_Index e0;
        rf' \<leftarrow> (if startIndex > 0 then do {
                  e \<leftarrow> go_nth (Logs rf) (min_int startIndex (len (Logs rf)) - 1);
                  Some (rf\<lparr>SnapshotLastIncludedIndex := e_Index e,
                           SnapshotLastIncludedTerm := e_Term e\<rparr>)
                } else Some rf);
        logs \<leftarrow> go_from (Logs rf) (min_int startIndex (len (Logs rf)));
        Some (rf'\<lparr>Logs := logs\<rparr>)
      })"

definition Snapshot :: "int \<Rightarrow> 'w list \<Rightarrow> ('c, 'w) Raft \<Rightarrow> ('c, 'w) Raft option" where
  "Snapshot index snap rf =
     (if SnapshotLastIncludedIndex rf > index then Some rf
      else do {
        (raftstate, logs, snapshotindex, snapshotterm) \<leftarrow> makeRaftState (index + 1) rf;
        Some (rf\<lparr>persister := SaveStateAndSnapshot raftstate snap (persister rf),
                 Logs := logs,
                 SnapshotLastIncludedIndex := max_int snapshotindex index,
                 SnapshotLastIncludedTerm := snapshotterm,
                 CommitIndex := max_int (CommitIndex rf) index,
                 LastApplied := max_int (LastApplied rf) index\<rparr>)
      })"

definition GetRaftStateSize :: "('c raft_gob list \<Rightarrow> int) \<Rightarrow> ('c, 'w) Raft \<Rightarrow> int" where
  "GetRaftStateSize size_of rf = RaftStateSize size_of (persister rf)"

section \<open>Votes\<close>

definition lastLogIndex :: "('c, 'w) Raft \<Rightarrow> int" where
  "lastLogIndex rf = (if Logs rf \<noteq> [] then e_Index (last (Logs rf)) else SnapshotLastIncludedIndex rf)"

definition lastLogTerm :: "('c, 'w) Raft \<Rightarrow> int" where
  "lastLogTerm rf = (if Logs rf \<noteq> [] then e_Term (last (Logs rf)) else SnapshotLastIncludedTerm rf)"

definition RequestVote :: "env \<Rightarrow> RequestVoteArgs \<Rightarrow> ('c, 'w) Raft \<Rightarrow> ('c, 'w) Raft \<times> RequestVoteReply" where
  "RequestVote ev args rf =
     (let reply = \<lparr>rvr_Term = CurrentTerm rf, rvr_VoteGranted = False\<rparr>
      in if rv_Term args < CurrentTerm rf then (rf, reply)
      else
        let rf = (if rv_Term args > CurrentTerm rf then stepDown (rv_Term args) rf else rf)
        in if VotedFor rf = -1 \<or> VotedFor rf = rv_CandidateId args
           then if rv_LastLogTerm args < lastLogTerm rf then (rf, reply)
                else if rv_LastLogTerm args = lastLogTerm rf \<and> rv_LastLogIndex args < lastLogIndex rf
                then (rf, reply)
                else (persist (rf\<lparr>VotedFor := rv_CandidateId args, LastReceive := now ev,
                                  ElectionTimeout := randElectionTimeout (rnd ev)\<rparr>),
                      reply\<lparr>rvr_VoteGranted := True\<rparr>)
           else (rf, reply))"

section \<open>Commands and their delivery\<close>

definition Start :: "'c \<Rightarrow> ('c, 'w) Raft \<Rightarrow> (('c, 'w) Raft \<times> int \<times> int \<times> bool) option" where
  "Start command rf =
     (if State rf \<noteq> Leader then Some (rf, -1, -1, False)
      else do {
        let entry = \<lparr>e_Command = command, e_Term = CurrentTerm rf, e_Index = lastLogIndex rf + 1\<rparr>;
        ni \<leftarrow> go_set (NextIndex rf) (me rf) (e_Index entry + 1);
        mi \<leftarrow> go_set (MatchIndex rf) (me rf) (e_Index entry);
        Some (persist (rf\<lparr>Logs := Logs rf @ [entry], NextIndex := ni, MatchIndex := mi\<rparr>),
              e_Index entry, e_Term entry, True)
      })"

text \<open>
  \<open>applyLog\<close>: the wait condition, the part under the lock that collects what is to be delivered
  (lines 745-771), and the part after the sends on \<open>applyChan\<close> (lines 775-779).
\<close>

definition applyLog_waits :: "('c, 'w) Raft \<Rightarrow> bool" where
  "applyLog_waits rf \<longleftrightarrow> LastApplied rf \<ge> CommitIndex rf \<and> am_SnapshotIndex (snapshotMsg rf) = 0"

definition commandMsg :: "'c RaftLogEntry \<Rightarrow> ('c, 'w) ApplyMsg" where
  "commandMsg entry = ApplyMsg0\<lparr>am_CommandValid := True, am_Command := Some (e_Command entry),
     am_CommandIndex := e_Index entry\<rparr>"

definition applyLog_collect ::
  "('c, 'w) Raft \<Rightarrow> (('c, 'w) Raft \<times> 'c RaftLogEntry list \<times> ('c, 'w) ApplyMsg list) option" where
  "applyLog_collect rf = do {
     applyLogs \<leftarrow> (if max_int 0 (CommitIndex rf - LastApplied rf) \<noteq> 0
        then go_slice (Logs rf) (LastApplied rf - SnapshotLastIncludedIndex rf)
               (CommitIndex rf - SnapshotLastIncludedIndex rf)
        else Some []);
     let sn = snapshotMsg rf;
     let applyMsgs = (if am_SnapshotIndex sn \<noteq> 0 then [sn] else [])
        @ filter (\<lambda>m. am_SnapshotIndex sn = 0 \<or> am_CommandIndex m > am_SnapshotIndex sn)
            (map commandMsg applyLogs);
     Some (rf\<lparr>snapshotMsg := ApplyMsg0\<rparr>, applyLogs, applyMsgs)
   }"

definition applyLog_finish :: "'c RaftLogEntry list \<Rightarrow> ('c, 'w) Raft \<Rightarrow> ('c, 'w) Raft" where
  "applyLog_finish applyLogs rf =
     (if applyLogs \<noteq> [] then rf\<lparr>LastApplied := max_int (LastApplied rf) (e_Index (last applyLogs))\<rparr>
      else rf)"


section \<open>Leaders\<close>

text \<open>What a peer sends or spawns while it holds the lock.\<close>

datatype ('c, 'w) raft_out =
    OutAppendEntries int "'c AppendEntriesArgs"
  | OutInstallSnapshot int "'w InstallSnapshotArg"
  | OutRequestVote int RequestVoteArgs
  | GoReplicateLog int int
  | GoUpdateCommitIndex int

text \<open>The arguments of a heartbeat to server \<open>i\<close> (lines 915-927).\<close>

definition heartBeatArgs :: "('c, 'w) Raft \<Rightarrow> int \<Rightarrow> 'c AppendEntriesArgs option" where
  "heartBeatArgs rf i = do {
     let args = \<lparr>ae_Term = CurrentTerm rf, ae_LeaderId = me rf,
                 ae_PrevLogIndex = SnapshotLastIncludedIndex rf,
                 ae_PrevLogTerm = SnapshotLastIncludedTerm rf,
                 ae_Entries = [], ae_LeaderCommit = CommitIndex rf\<rparr>;
     if Logs rf \<noteq> [] then do {
       n \<leftarrow> go_nth (NextIndex rf) i;
       if n > SnapshotLastIncludedIndex rf + 1 then do {
         e \<leftarrow> go_nth (Logs rf) (n - SnapshotLastIncludedIndex rf - 2);
         Some (args\<lparr>ae_PrevLogIndex := e_Index e, ae_PrevLogTerm := e_Term e\<rparr>)
       } else Some args
     } else Some args
   }"

fun sendHeartBeat_loop :: "('c, 'w) Raft \<Rightarrow> nat list \<Rightarrow> ('c, 'w) raft_out list option" where
  "sendHeartBeat_loop rf [] = Some []"
| "sendHeartBeat_loop rf (i # is) =
     (if int i \<noteq> me rf then do {
        args \<leftarrow> heartBeatArgs rf (int i);
        outs \<leftarrow> sendHeartBeat_loop rf is;
        Some (OutAppendEntries (int i) args # outs)
      } else sendHeartBeat_loop rf is)"

definition sendHeartBeat :: "('c, 'w) Raft \<Rightarrow> ('c, 'w) raft_out list option" where
  "sendHeartBeat rf = sendHeartBeat_loop rf [0..<nat (TotalNum rf)]"

fun initIndices :: "nat list \<Rightarrow> ('c, 'w) Raft \<Rightarrow> ('c, 'w) Raft option" where
  "initIndices [] rf = Some rf"
| "initIndices (i # is) rf = do {
     mi \<leftarrow> go_set (MatchIndex rf) (int i) (if int i \<noteq> me rf then 0 else lastLogIndex rf);
     ni \<leftarrow> go_set (NextIndex rf) (int i) (lastLogIndex rf + 1);
     initIndices is (rf\<lparr>MatchIndex := mi, NextIndex := ni\<rparr>)
   }"

definition becomeLeader :: "('c, 'w) Raft \<Rightarrow> (('c, 'w) Raft \<times> ('c, 'w) raft_out list) option" where
  "becomeLeader rf = do {
     rf \<leftarrow> initIndices [0..<length (NextIndex rf)] rf;
     outs \<leftarrow> sendHeartBeat rf;
     Some (rf, outs
       @ map (\<lambda>i. GoReplicateLog (int i) (CurrentTerm rf)) (filter (\<lambda>i. int i \<noteq> me rf) [0..<peers rf])
       @ [GoUpdateCommitIndex (CurrentTerm rf)])
   }"

text \<open>
  One round of \<open>replicateLog\<close> under the lock. \<open>None\<close> in the result ends the goroutine (the term
  has changed); \<open>Some outs\<close> are the requests it sends before it sleeps.
\<close>

definition replicateLog ::
  "int \<Rightarrow> int \<Rightarrow> ('c, 'w) Raft \<Rightarrow> ('c, 'w) raft_out list option option" where
  "replicateLog server leaderTerm rf =
     (if CurrentTerm rf \<noteq> leaderTerm then Some None
      else do {
        n \<leftarrow> go_nth (NextIndex rf) server;
        nme \<leftarrow> go_nth (NextIndex rf) (me rf);
        if n \<noteq> nme then
          if n \<le> SnapshotLastIncludedIndex rf
          then Some (Some [OutInstallSnapshot server
                 \<lparr>is_Term = CurrentTerm rf, is_LeaderId = me rf,
                  is_LastIncludedIndex = SnapshotLastIncludedIndex rf,
                  is_LastIncludedTerm = SnapshotLastIncludedTerm rf,
                  is_Data = snapshot (persister rf)\<rparr>])
          else do {
            entries \<leftarrow> go_from (Logs rf) (n - SnapshotLastIncludedIndex rf - 1);
            let args = \<lparr>ae_Term = CurrentTerm rf, ae_LeaderId = me rf,
                        ae_PrevLogIndex = SnapshotLastIncludedIndex rf,
                        ae_PrevLogTerm = SnapshotLastIncludedTerm rf,
                        ae_Entries = entries, ae_LeaderCommit = CommitIndex rf\<rparr>;
            args \<leftarrow> (if n \<noteq> SnapshotLastIncludedIndex rf + 1 then do {
                       e \<leftarrow> go_nth (Logs rf) (n - SnapshotLastIncludedIndex rf - 2);
                       Some (args\<lparr>ae_PrevLogIndex := e_Index e, ae_PrevLogTerm := e_Term e\<rparr>)
                     } else Some args);
            Some (Some [OutAppendEntries server args])
          }
        else Some (Some [])
      })"

text \<open>The counting loop of lines 870-878, over the peers that are left.\<close>

fun countMatch :: "('c, 'w) Raft \<Rightarrow> int \<Rightarrow> nat list \<Rightarrow> int \<Rightarrow> int option" where
  "countMatch rf index [] cnt = Some cnt"
| "countMatch rf index (j # js) cnt = do {
     m \<leftarrow> go_nth (MatchIndex rf) (int j);
     let cnt = (if m \<ge> index then cnt + 1 else cnt);
     if cnt > Half rf then Some cnt else countMatch rf index js cnt
   }"

text \<open>The backward loop of lines 865-884; the last argument is \<open>i + 1\<close>.\<close>

fun commitScan :: "int \<Rightarrow> ('c, 'w) Raft \<Rightarrow> nat \<Rightarrow> ('c, 'w) Raft option" where
  "commitScan leaderTerm rf 0 = Some rf"
| "commitScan leaderTerm rf (Suc i) = do {
     e \<leftarrow> go_nth (Logs rf) (int i);
     if e_Term e \<noteq> leaderTerm then Some rf
     else do {
       cnt \<leftarrow> countMatch rf (e_Index e) [0..<peers rf] 0;
       if cnt > Half rf then Some (rf\<lparr>CommitIndex := max_int (CommitIndex rf) (e_Index e)\<rparr>)
       else commitScan leaderTerm rf i
     }
   }"

text \<open>One round of \<open>updateCommitIndex\<close>; the flag says whether the goroutine goes on.\<close>

definition updateCommitIndex :: "int \<Rightarrow> ('c, 'w) Raft \<Rightarrow> (('c, 'w) Raft \<times> bool) option" where
  "updateCommitIndex leaderTerm rf =
     (if CurrentTerm rf \<noteq> leaderTerm then Some (rf, False)
      else do { rf \<leftarrow> commitScan leaderTerm rf (length (Logs rf)); Some (rf, True) })"

definition Kill :: "('c, 'w) Raft \<Rightarrow> ('c, 'w) Raft" where
  "Kill rf = rf\<lparr>dead := 1\<rparr>"

definition killed :: "('c, 'w) Raft \<Rightarrow> bool" where
  "killed rf \<longleftrightarrow> dead rf = 1"

section \<open>Elections\<close>

text \<open>The variables that the goroutines of one call of \<open>issueLeaderElection\<close> share.\<close>

record election =
  el_args :: RequestVoteArgs
  votes :: int
  el_done :: bool

definition issueLeaderElection ::
  "RequestVoteArgs \<Rightarrow> ('c, 'w) Raft \<Rightarrow> election \<times> ('c, 'w) raft_out list" where
  "issueLeaderElection templateArgs rf =
     (\<lparr>el_args = templateArgs, votes = 1, el_done = False\<rparr>,
      map (\<lambda>i. OutRequestVote (int i) templateArgs) (filter (\<lambda>i. int i \<noteq> me rf) [0..<peers rf]))"

text \<open>
  The goroutine for one peer, from the return of \<open>sendRequestVote\<close> on (lines 941-965).
\<close>

definition electionReply ::
  "bool \<Rightarrow> RequestVoteReply \<Rightarrow> election \<Rightarrow> ('c, 'w) Raft
    \<Rightarrow> (election \<times> ('c, 'w) Raft \<times> ('c, 'w) raft_out list) option" where
  "electionReply ok reply el rf =
     (if \<not> ok then Some (el, rf, [])
      else if rvr_VoteGranted reply then
        let el = el\<lparr>votes := votes el + 1\<rparr>
        in if el_done el \<or> votes el \<le> Half rf then Some (el, rf, [])
           else if CurrentTerm rf \<noteq> rv_Term (el_args el) then Some (el, rf, [])
           else do {
             (rf, outs) \<leftarrow> becomeLeader (rf\<lparr>State := Leader\<rparr>);
             Some (el\<lparr>el_done := True\<rparr>, rf, outs)
           }
      else if rvr_Term reply > CurrentTerm rf then Some (el, stepDown (rvr_Term reply) rf, [])
      else Some (el, rf, []))"

definition prepareElection :: "env \<Rightarrow> ('c, 'w) Raft \<Rightarrow> ('c, 'w) Raft \<times> RequestVoteArgs \<times> RequestVoteReply" where
  "prepareElection ev rf =
     (let rf = rf\<lparr>CurrentTerm := CurrentTerm rf + 1, VotedFor := me rf, State := Candidate,
                  LastReceive := now ev, ElectionTimeout := randElectionTimeout (rnd ev)\<rparr>;
          args = \<lparr>rv_Term = CurrentTerm rf, rv_CandidateId = me rf,
                  rv_LastLogIndex = lastLogIndex rf, rv_LastLogTerm = lastLogTerm rf\<rparr>
      in (persist rf, args, RequestVoteReply0))"

text \<open>One round of \<open>ticker\<close>: what it sends, and the election it starts, if any.\<close>

definition electionExpired :: "env \<Rightarrow> ('c, 'w) Raft \<Rightarrow> bool" where
  "electionExpired ev rf \<longleftrightarrow> now ev - LastReceive rf > ElectionTimeout rf"

definition ticker ::
  "env \<Rightarrow> ('c, 'w) Raft \<Rightarrow> (('c, 'w) Raft \<times> ('c, 'w) raft_out list \<times> election option) option" where
  "ticker ev rf =
     (case State rf of
        Leader \<Rightarrow> do { outs \<leftarrow> sendHeartBeat rf; Some (rf, outs, None) }
      | _ \<Rightarrow>
          if electionExpired ev rf then
            let (rf, args, reply) = prepareElection ev rf;
                (el, outs) = issueLeaderElection args rf
            in Some (rf, outs, Some el)
          else Some (rf, [], None))"

section \<open>Start and restart\<close>

definition Make :: "env \<Rightarrow> nat \<Rightarrow> int \<Rightarrow> ('c raft_gob, 'w) Persister \<Rightarrow> ('c, 'w) Raft" where
  "Make ev n i ps = readPersist (ReadRaftState ps)
     \<lparr>peers = n, persister = ps, me = i, dead = 0, snapshotMsg = ApplyMsg0,
      CurrentTerm = 0, VotedFor = -1, Logs = [], CommitIndex = 0, LastApplied = 0,
      NextIndex = replicate n 0, MatchIndex = replicate n 0, State = Follower,
      LastReceive = now ev, ElectionTimeout = randElectionTimeout (rnd ev),
      Half = int n div 2, TotalNum = int n, LeaderTerm = -1, LastNewEntryIndex = 0,
      SnapshotLastIncludedIndex = 0, SnapshotLastIncludedTerm = 0\<rparr>"

end
