(* ===== verification/Raft_Log.thy ===== *)
theory Raft_Log
  imports Raft
begin

text \<open>
  The log of a Raft peer: consecutive indices after the snapshot, the merge of received entries,
  the answer to a conflicting request, and that no slice expression of the handlers panics.
\<close>

section \<open>Well-formed logs\<close>

definition log_wf :: "('c, 'w) Raft \<Rightarrow> bool" where
  "log_wf rf \<longleftrightarrow> (\<forall>i < length (Logs rf). e_Index (Logs rf ! i) = SnapshotLastIncludedIndex rf + 1 + int i)"

abbreviation endIndex :: "('c, 'w) Raft \<Rightarrow> int" where
  "endIndex rf \<equiv> SnapshotLastIncludedIndex rf + len (Logs rf)"

text \<open>The entry at an index of the log that is after the snapshot.\<close>

definition entryAt :: "('c, 'w) Raft \<Rightarrow> int \<Rightarrow> 'c RaftLogEntry option" where
  "entryAt rf k = go_nth (Logs rf) (k - SnapshotLastIncludedIndex rf - 1)"

definition entries_wf :: "'c AppendEntriesArgs \<Rightarrow> bool" where
  "entries_wf args \<longleftrightarrow> (\<forall>i < length (ae_Entries args). e_Index (ae_Entries args ! i) = ae_PrevLogIndex args + 1 + int i)"

text \<open>The test that the merge makes: same index and same term.\<close>

definition same_entry :: "'c RaftLogEntry \<Rightarrow> 'c RaftLogEntry \<Rightarrow> bool" where
  "same_entry a b \<longleftrightarrow> e_Index a = e_Index b \<and> e_Term a = e_Term b"

lemma same_entry_refl [simp]: "same_entry a a"
  by (simp add: same_entry_def)

lemma entryAt_Some_iff:
  "entryAt rf k = Some e \<longleftrightarrow>
     SnapshotLastIncludedIndex rf < k \<and> k \<le> endIndex rf \<and> e = Logs rf ! nat (k - SnapshotLastIncludedIndex rf - 1)"
  by (auto simp: entryAt_def go_nth_eq_Some_iff in_range_def)

lemma entryAt_None_iff:
  "entryAt rf k = None \<longleftrightarrow> k \<le> SnapshotLastIncludedIndex rf \<or> endIndex rf < k"
  by (auto simp: entryAt_def go_nth_eq_None_iff in_range_def)

lemma entryAt_index: "log_wf rf \<Longrightarrow> entryAt rf k = Some e \<Longrightarrow> e_Index e = k"
  by (auto simp: entryAt_Some_iff log_wf_def len_def)

lemma log_wf_lastLogIndex: "log_wf rf \<Longrightarrow> lastLogIndex rf = endIndex rf"
  by (cases "Logs rf" rule: rev_cases) (auto simp: lastLogIndex_def log_wf_def len_def)

lemma log_wf_hd: "log_wf rf \<Longrightarrow> Logs rf \<noteq> [] \<Longrightarrow> e_Index (Logs rf ! 0) = SnapshotLastIncludedIndex rf + 1"
  by (auto simp: log_wf_def)

lemma log_wf_cong:
  "Logs rf' = Logs rf \<Longrightarrow> SnapshotLastIncludedIndex rf' = SnapshotLastIncludedIndex rf \<Longrightarrow>
   log_wf rf' = log_wf rf"
  by (simp add: log_wf_def)

section \<open>The loops of AppendEntries\<close>

lemma matchScan_spec:
  assumes "index \<le> len logs"
  shows "\<exists>j \<le> length es. matchScan logs es index i = Some (index + int j, i + int j) \<and>
     index + int j \<le> len logs \<and>
     (\<forall>k < j. 0 \<le> index + int k \<longrightarrow> same_entry (logs ! nat (index + int k)) (es ! k)) \<and>
     (j < length es \<longrightarrow> 0 \<le> index + int j) \<and>
     (j < length es \<longrightarrow> index + int j < len logs \<longrightarrow>
       \<not> same_entry (logs ! nat (index + int j)) (es ! j))"
  using assms
proof (induction es arbitrary: index i)
  case Nil
  then show ?case by simp
next
  case (Cons e es)
  let ?stop = "index = len logs \<or>
    (0 \<le> index \<and> \<not> same_entry (logs ! nat index) e)"
  show ?case
  proof (cases ?stop)
    case True
    then have "matchScan logs (e # es) index i = Some (index, i)"
      by (auto simp: go_nth_def in_range_def same_entry_def)
    with True Cons.prems show ?thesis by (intro exI [of _ 0]) (auto)
  next
    case False
    with Cons.prems have lt: "index + 1 \<le> len logs" by auto
    from Cons.IH [OF lt, of "i + 1"] obtain j where j:
      "j \<le> length es" "matchScan logs es (index + 1) (i + 1) = Some (index + 1 + int j, i + 1 + int j)"
      "index + 1 + int j \<le> len logs"
      "\<forall>k < j. 0 \<le> index + 1 + int k \<longrightarrow> same_entry (logs ! nat (index + 1 + int k)) (es ! k)"
      "j < length es \<longrightarrow> 0 \<le> index + 1 + int j"
      "j < length es \<longrightarrow> index + 1 + int j < len logs \<longrightarrow>
         \<not> same_entry (logs ! nat (index + 1 + int j)) (es ! j)"
      by blast
    have "matchScan logs (e # es) index i = matchScan logs es (index + 1) (i + 1)"
      using False lt by (auto simp: go_nth_def in_range_def same_entry_def)
    moreover have "same_entry (logs ! nat (index + int k)) ((e # es) ! k)"
      if "k < Suc j" "0 \<le> index + int k" for k
      using that False lt j(4) by (cases k) (auto simp: ac_simps)
    ultimately show ?thesis
      using j by (intro exI [of _ "Suc j"]) (simp add: ac_simps)
  qed
qed

lemma conflictScan_total:
  "n \<le> length logs \<Longrightarrow> n < length logs \<or> n = 0 \<or> e_Term (logs ! (n - 1)) = t \<Longrightarrow>
   \<exists>ci. conflictScan logs t ci0 n = Some ci"
  by (induction n) (auto simp: go_nth_def in_range_def len_def)

text \<open>
  The reported conflict index starts the run of entries of the conflicting term, unless that run
  reaches the beginning of the stored log, where the loop leaves the initial value.
\<close>

lemma conflictScan_spec:
  "conflictScan logs t ci0 n = Some ci \<Longrightarrow>
   (ci = ci0 \<and> (\<forall>k < n. e_Term (logs ! k) = t)) \<or>
   (\<exists>p < n. p + 1 < length logs \<and> ci = e_Index (logs ! (p + 1)) \<and> e_Term (logs ! p) \<noteq> t \<and>
      (\<forall>k. p < k \<longrightarrow> k < n \<longrightarrow> e_Term (logs ! k) = t))"
proof (induction n)
  case 0
  then show ?case by simp
next
  case (Suc n)
  then obtain e where e: "go_nth logs (int n) = Some e"
    by (auto simp: Option.bind_eq_Some_conv)
  then have en: "e = logs ! n" by (simp add: go_nth_eq_Some_iff)
  show ?case
  proof (cases "e_Term e = t")
    case True
    with Suc e have "conflictScan logs t ci0 n = Some ci" by simp
    from Suc.IH [OF this] show ?thesis
    proof (elim disjE exE conjE)
      assume "ci = ci0" "\<forall>k < n. e_Term (logs ! k) = t"
      with True en show ?thesis by (simp add: less_Suc_eq)
    next
      fix p
      assume "p < n" "p + 1 < length logs" "ci = e_Index (logs ! (p + 1))" "e_Term (logs ! p) \<noteq> t"
        "\<forall>k. p < k \<longrightarrow> k < n \<longrightarrow> e_Term (logs ! k) = t"
      with True en show ?thesis
        by (intro disjI2 exI [of _ p]) (simp add: less_Suc_eq)
    qed
  next
    case False
    with Suc.prems e obtain e' where "go_nth logs (int n + 1) = Some e'" "ci = e_Index e'"
      by (auto simp: Option.bind_eq_Some_conv)
    with False en show ?thesis
      by (intro disjI2 exI [of _ n]) (auto simp: go_nth_eq_Some_iff in_range_def len_def nat_add_distrib)
  qed
qed


section \<open>Accepting a leader\<close>

text \<open>Whether a request of \<open>term\<close> opens a new term or a new leadership at this peer.\<close>

definition newLeader :: "int \<Rightarrow> ('c, 'w) Raft \<Rightarrow> bool" where
  "newLeader term rf \<longleftrightarrow> term \<noteq> LeaderTerm rf \<or> term > CurrentTerm rf"

lemma acceptLeader_eq:
  "acceptLeader ev term rf =
     (rf\<lparr>State := Follower, LastReceive := now ev, ElectionTimeout := randElectionTimeout (rnd ev),
         LeaderTerm := term, CurrentTerm := max term (CurrentTerm rf),
         VotedFor := (if newLeader term rf then -1 else VotedFor rf),
         LastNewEntryIndex := (if newLeader term rf then CommitIndex rf else LastNewEntryIndex rf)\<rparr>,
      newLeader term rf)"
  by (auto simp: acceptLeader_def newLeader_def Let_def)

lemma acceptLeader_frame [simp]:
  "Logs (fst (acceptLeader ev t rf)) = Logs rf"
  "SnapshotLastIncludedIndex (fst (acceptLeader ev t rf)) = SnapshotLastIncludedIndex rf"
  "SnapshotLastIncludedTerm (fst (acceptLeader ev t rf)) = SnapshotLastIncludedTerm rf"
  "CommitIndex (fst (acceptLeader ev t rf)) = CommitIndex rf"
  "LastApplied (fst (acceptLeader ev t rf)) = LastApplied rf"
  "NextIndex (fst (acceptLeader ev t rf)) = NextIndex rf"
  "MatchIndex (fst (acceptLeader ev t rf)) = MatchIndex rf"
  "persister (fst (acceptLeader ev t rf)) = persister rf"
  "me (fst (acceptLeader ev t rf)) = me rf" "peers (fst (acceptLeader ev t rf)) = peers rf"
  "snapshotMsg (fst (acceptLeader ev t rf)) = snapshotMsg rf"
  by (simp_all add: acceptLeader_eq)

lemma persist_frame [simp]:
  "Logs (persist rf) = Logs rf" "CurrentTerm (persist rf) = CurrentTerm rf"
  "VotedFor (persist rf) = VotedFor rf" "State (persist rf) = State rf"
  "LeaderTerm (persist rf) = LeaderTerm rf" "CommitIndex (persist rf) = CommitIndex rf"
  "LastApplied (persist rf) = LastApplied rf" "LastNewEntryIndex (persist rf) = LastNewEntryIndex rf"
  "SnapshotLastIncludedIndex (persist rf) = SnapshotLastIncludedIndex rf"
  "SnapshotLastIncludedTerm (persist rf) = SnapshotLastIncludedTerm rf"
  "NextIndex (persist rf) = NextIndex rf" "MatchIndex (persist rf) = MatchIndex rf"
  "me (persist rf) = me rf" "peers (persist rf) = peers rf" "Half (persist rf) = Half rf"
  "TotalNum (persist rf) = TotalNum rf" "snapshotMsg (persist rf) = snapshotMsg rf"
  "dead (persist rf) = dead rf"
  by (simp_all add: persist_def)

section \<open>Merging the received entries\<close>

text \<open>
  The log after steps 3 and 4, when the first \<open>j\<close> received entries are already there (or covered
  by the snapshot).
\<close>

definition mergedLog :: "'c AppendEntriesArgs \<Rightarrow> nat \<Rightarrow> ('c, 'w) Raft \<Rightarrow> 'c RaftLogEntry list" where
  "mergedLog args j rf =
     (if j < length (ae_Entries args)
      then take (nat (ae_PrevLogIndex args - SnapshotLastIncludedIndex rf + int j)) (Logs rf)
             @ drop j (ae_Entries args)
      else Logs rf)"

text \<open>\<open>j\<close> is the length of the longest agreeing prefix of the received entries.\<close>

definition agree_upto :: "'c AppendEntriesArgs \<Rightarrow> ('c, 'w) Raft \<Rightarrow> nat \<Rightarrow> bool" where
  "agree_upto args rf j \<longleftrightarrow> j \<le> length (ae_Entries args) \<and>
     ae_PrevLogIndex args + int j \<le> endIndex rf \<and>
     (\<forall>k < j. \<forall>e. entryAt rf (ae_PrevLogIndex args + 1 + int k) = Some e \<longrightarrow> same_entry e (ae_Entries args ! k)) \<and>
     (j < length (ae_Entries args) \<longrightarrow>
        SnapshotLastIncludedIndex rf \<le> ae_PrevLogIndex args + int j \<and>
        (\<forall>e. entryAt rf (ae_PrevLogIndex args + 1 + int j) = Some e \<longrightarrow> \<not> same_entry e (ae_Entries args ! j)))"

lemma mergeEntries_spec:
  assumes "ae_PrevLogIndex args \<le> endIndex rf"
  obtains j where "agree_upto args rf j"
    "mergeEntries args (rf, sc) = Some
       (rf\<lparr>Logs := mergedLog args j rf,
           LastNewEntryIndex := (if ae_Entries args = [] then LastNewEntryIndex rf
              else max (LastNewEntryIndex rf) (ae_PrevLogIndex args + len (ae_Entries args)))\<rparr>,
        sc \<or> j < length (ae_Entries args))"
proof -
  let ?index = "ae_PrevLogIndex args - SnapshotLastIncludedIndex rf"
  let ?es = "ae_Entries args"
  from assms have "?index \<le> len (Logs rf)" by simp
  from matchScan_spec [OF this, of ?es 0] obtain j where j: "j \<le> length ?es"
    "matchScan (Logs rf) ?es ?index 0 = Some (?index + int j, 0 + int j)"
    "?index + int j \<le> len (Logs rf)"
    "\<forall>k < j. 0 \<le> ?index + int k \<longrightarrow> same_entry (Logs rf ! nat (?index + int k)) (?es ! k)"
    "j < length ?es \<longrightarrow> 0 \<le> ?index + int j"
    "j < length ?es \<longrightarrow> ?index + int j < len (Logs rf) \<longrightarrow>
       \<not> same_entry (Logs rf ! nat (?index + int j)) (?es ! j)"
    by blast
  have "agree_upto args rf j"
    using j by (auto simp: agree_upto_def entryAt_Some_iff algebra_simps)
  moreover have "mergeEntries args (rf, sc) = Some
       (rf\<lparr>Logs := mergedLog args j rf,
           LastNewEntryIndex := (if ?es = [] then LastNewEntryIndex rf
              else max (LastNewEntryIndex rf) (ae_PrevLogIndex args + len ?es))\<rparr>,
        sc \<or> j < length ?es)"
  proof (cases "j < length ?es")
    case True
    then have "go_slice (Logs rf) 0 (?index + int j) = Some (take (nat (?index + int j)) (Logs rf))"
      using j by (simp add: go_slice_0)
    moreover have "go_from ?es (int j) = Some (drop j ?es)"
      using True by (simp add: go_from_Some len_def)
    ultimately show ?thesis
      using True j(2) by (auto simp: mergeEntries_def mergedLog_def len_def)
  next
    case False
    then show ?thesis
      using j(1,2) by (auto simp: mergeEntries_def mergedLog_def len_def)
  qed
  ultimately show ?thesis by (rule that)
qed

lemma agree_upto_length:
  assumes "agree_upto args rf j" "j < length (ae_Entries args)"
  shows "length (mergedLog args j rf) =
    nat (ae_PrevLogIndex args + len (ae_Entries args) - SnapshotLastIncludedIndex rf)"
  using assms by (auto simp: agree_upto_def mergedLog_def len_def)

lemma mergedLog_wf:
  assumes "log_wf rf" "entries_wf args" "agree_upto args rf j"
    and "Logs rf' = mergedLog args j rf" "SnapshotLastIncludedIndex rf' = SnapshotLastIncludedIndex rf"
  shows "log_wf rf'"
proof (cases "j < length (ae_Entries args)")
  case True
  let ?p = "ae_PrevLogIndex args - SnapshotLastIncludedIndex rf + int j"
  have p: "0 \<le> ?p" "?p \<le> len (Logs rf)"
    using assms(3) True by (auto simp: agree_upto_def)
  have "e_Index (mergedLog args j rf ! i) = SnapshotLastIncludedIndex rf + 1 + int i"
    if "i < length (mergedLog args j rf)" for i
  proof (cases "i < nat ?p")
    case below: True
    with True p have "mergedLog args j rf ! i = Logs rf ! i" "i < length (Logs rf)"
      by (auto simp: mergedLog_def nth_append len_def)
    with assms(1) show ?thesis by (simp add: log_wf_def)
  next
    case False
    with True p that have "mergedLog args j rf ! i = ae_Entries args ! (j + (i - nat ?p))"
      "j + (i - nat ?p) < length (ae_Entries args)"
      by (auto simp: mergedLog_def nth_append len_def)
    with assms(2) False p show ?thesis by (simp add: entries_wf_def of_nat_diff)
  qed
  with assms(4,5) show ?thesis by (simp add: log_wf_def)
next
  case False
  with assms show ?thesis by (simp add: mergedLog_def log_wf_def)
qed


section \<open>The outcomes of AppendEntries\<close>

definition acceptedState :: "env \<Rightarrow> 'c AppendEntriesArgs \<Rightarrow> nat \<Rightarrow> ('c, 'w) Raft \<Rightarrow> ('c, 'w) Raft" where
  "acceptedState ev args j rf =
     (let rf1 = fst (acceptLeader ev (ae_Term args) rf);
          rf2 = rf1\<lparr>Logs := mergedLog args j rf,
                    LastNewEntryIndex := (if ae_Entries args = [] then LastNewEntryIndex rf1
                       else max (LastNewEntryIndex rf1) (ae_PrevLogIndex args + len (ae_Entries args)))\<rparr>;
          rf3 = followCommit (ae_LeaderCommit args) rf2
      in if newLeader (ae_Term args) rf \<or> j < length (ae_Entries args) then persist rf3 else rf3)"

lemma followCommit_frame [simp]:
  "Logs (followCommit c rf) = Logs rf" "CurrentTerm (followCommit c rf) = CurrentTerm rf"
  "VotedFor (followCommit c rf) = VotedFor rf" "State (followCommit c rf) = State rf"
  "LeaderTerm (followCommit c rf) = LeaderTerm rf" "LastApplied (followCommit c rf) = LastApplied rf"
  "LastNewEntryIndex (followCommit c rf) = LastNewEntryIndex rf"
  "SnapshotLastIncludedIndex (followCommit c rf) = SnapshotLastIncludedIndex rf"
  "SnapshotLastIncludedTerm (followCommit c rf) = SnapshotLastIncludedTerm rf"
  "NextIndex (followCommit c rf) = NextIndex rf" "MatchIndex (followCommit c rf) = MatchIndex rf"
  "me (followCommit c rf) = me rf" "peers (followCommit c rf) = peers rf"
  "persister (followCommit c rf) = persister rf" "Half (followCommit c rf) = Half rf"
  by (simp_all add: followCommit_def)

lemma acceptedState_frame [simp]:
  "Logs (acceptedState ev args j rf) = mergedLog args j rf"
  "CurrentTerm (acceptedState ev args j rf) = max (ae_Term args) (CurrentTerm rf)"
  "VotedFor (acceptedState ev args j rf) = (if newLeader (ae_Term args) rf then -1 else VotedFor rf)"
  "State (acceptedState ev args j rf) = Follower"
  "LeaderTerm (acceptedState ev args j rf) = ae_Term args"
  "LastApplied (acceptedState ev args j rf) = LastApplied rf"
  "SnapshotLastIncludedIndex (acceptedState ev args j rf) = SnapshotLastIncludedIndex rf"
  "SnapshotLastIncludedTerm (acceptedState ev args j rf) = SnapshotLastIncludedTerm rf"
  "NextIndex (acceptedState ev args j rf) = NextIndex rf"
  "MatchIndex (acceptedState ev args j rf) = MatchIndex rf"
  "me (acceptedState ev args j rf) = me rf" "peers (acceptedState ev args j rf) = peers rf"
  by (simp_all add: acceptedState_def Let_def acceptLeader_eq)

abbreviation aeReply :: "('c, 'w) Raft \<Rightarrow> AppendEntriesReply" where
  "aeReply rf \<equiv> AppendEntriesReply0\<lparr>aer_Term := CurrentTerm rf\<rparr>"

lemma aeReply_eq:
  "AppendEntriesReply0\<lparr>aer_Term := t, aer_Success := False, aer_Conflict := False\<rparr> =
   AppendEntriesReply0\<lparr>aer_Term := t\<rparr>"
  by (simp add: AppendEntriesReply0_def)

lemma agree_upto_cong:
  "Logs rf' = Logs rf \<Longrightarrow> SnapshotLastIncludedIndex rf' = SnapshotLastIncludedIndex rf \<Longrightarrow>
   agree_upto args rf' j = agree_upto args rf j"
  by (simp add: agree_upto_def entryAt_def)

lemma mergedLog_cong:
  "Logs rf' = Logs rf \<Longrightarrow> SnapshotLastIncludedIndex rf' = SnapshotLastIncludedIndex rf \<Longrightarrow>
   mergedLog args j rf' = mergedLog args j rf"
  by (simp add: mergedLog_def)

lemma acceptEntries_spec:
  assumes "ae_PrevLogIndex args \<le> endIndex rf"
  obtains j where "agree_upto args rf j"
    "acceptEntries args reply (acceptLeader ev (ae_Term args) rf) =
       Some (acceptedState ev args j rf, reply\<lparr>aer_Success := True\<rparr>)"
proof -
  let ?rf1 = "fst (acceptLeader ev (ae_Term args) rf)"
  from assms have "ae_PrevLogIndex args \<le> endIndex ?rf1" by simp
  then obtain j where j: "agree_upto args ?rf1 j"
    "mergeEntries args (?rf1, newLeader (ae_Term args) rf) = Some
       (?rf1\<lparr>Logs := mergedLog args j ?rf1,
           LastNewEntryIndex := (if ae_Entries args = [] then LastNewEntryIndex ?rf1
              else max (LastNewEntryIndex ?rf1) (ae_PrevLogIndex args + len (ae_Entries args)))\<rparr>,
        newLeader (ae_Term args) rf \<or> j < length (ae_Entries args))"
    by (rule mergeEntries_spec)
  have "acceptLeader ev (ae_Term args) rf = (?rf1, newLeader (ae_Term args) rf)"
    by (simp add: acceptLeader_eq)
  with j(2) have "acceptEntries args reply (acceptLeader ev (ae_Term args) rf) =
       Some (acceptedState ev args j rf, reply\<lparr>aer_Success := True\<rparr>)"
    by (simp add: acceptEntries_def acceptedState_def Let_def mergedLog_cong [of ?rf1 rf])
  moreover from j(1) have "agree_upto args rf j"
    by (simp add: agree_upto_cong [of ?rf1 rf])
  ultimately show ?thesis by (rule that [rotated])
qed

lemma AppendEntries_current:
  "CurrentTerm rf \<le> ae_Term args \<Longrightarrow>
   AppendEntries ev args rf =
     (let rf1 = fst (acceptLeader ev (ae_Term args) rf);
          prevIndex = ae_PrevLogIndex args - SnapshotLastIncludedIndex rf
      in if ae_PrevLogIndex args \<le> SnapshotLastIncludedIndex rf
         then acceptEntries args (aeReply rf) (acceptLeader ev (ae_Term args) rf)
         else if endIndex rf < ae_PrevLogIndex args
         then Some (rf1, (aeReply rf)\<lparr>aer_Conflict := True, aer_ConflictIndex := endIndex rf\<rparr>)
         else do {
           prev \<leftarrow> go_nth (Logs rf) (prevIndex - 1);
           if e_Term prev \<noteq> ae_PrevLogTerm args
           then do {
             ci \<leftarrow> conflictScan (Logs rf) (e_Term prev) (e_Index prev) (nat prevIndex);
             Some (rf1, (aeReply rf)\<lparr>aer_Conflict := True, aer_ConflictTerm := e_Term prev,
                           aer_ConflictIndex := ci\<rparr>)
           }
           else acceptEntries args (aeReply rf) (acceptLeader ev (ae_Term args) rf)
         })"
  by (simp add: AppendEntries_def aeReply_eq Let_def case_prod_beta cong: if_cong)

lemma AppendEntries_outcome:
  obtains (stale) "ae_Term args < CurrentTerm rf" "AppendEntries ev args rf = Some (rf, aeReply rf)"
  | (short) "CurrentTerm rf \<le> ae_Term args" "endIndex rf < ae_PrevLogIndex args"
      "AppendEntries ev args rf = Some (fst (acceptLeader ev (ae_Term args) rf),
         (aeReply rf)\<lparr>aer_Conflict := True, aer_ConflictIndex := endIndex rf\<rparr>)"
  | (mismatch) prev ci where "CurrentTerm rf \<le> ae_Term args"
      "entryAt rf (ae_PrevLogIndex args) = Some prev" "e_Term prev \<noteq> ae_PrevLogTerm args"
      "conflictScan (Logs rf) (e_Term prev) (e_Index prev)
         (nat (ae_PrevLogIndex args - SnapshotLastIncludedIndex rf)) = Some ci"
      "AppendEntries ev args rf = Some (fst (acceptLeader ev (ae_Term args) rf),
         (aeReply rf)\<lparr>aer_Conflict := True, aer_ConflictTerm := e_Term prev, aer_ConflictIndex := ci\<rparr>)"
  | (accepted) j where "CurrentTerm rf \<le> ae_Term args" "ae_PrevLogIndex args \<le> endIndex rf"
      "SnapshotLastIncludedIndex rf < ae_PrevLogIndex args \<longrightarrow>
         (\<exists>prev. entryAt rf (ae_PrevLogIndex args) = Some prev \<and> e_Term prev = ae_PrevLogTerm args)"
      "agree_upto args rf j"
      "AppendEntries ev args rf = Some (acceptedState ev args j rf, (aeReply rf)\<lparr>aer_Success := True\<rparr>)"
proof -
  let ?prev = "ae_PrevLogIndex args"
  let ?rf1 = "fst (acceptLeader ev (ae_Term args) rf)"
  consider "ae_Term args < CurrentTerm rf"
    | (old) "CurrentTerm rf \<le> ae_Term args" "?prev \<le> SnapshotLastIncludedIndex rf"
    | (long) "CurrentTerm rf \<le> ae_Term args" "SnapshotLastIncludedIndex rf < ?prev" "endIndex rf < ?prev"
    | (inside) e where "CurrentTerm rf \<le> ae_Term args" "SnapshotLastIncludedIndex rf < ?prev"
        "?prev \<le> endIndex rf" "entryAt rf ?prev = Some e"
    by (metis entryAt_None_iff not_le option.exhaust)
  then show ?thesis
  proof cases
    case 1
    then show ?thesis by (intro stale) (simp_all add: AppendEntries_def aeReply_eq)
  next
    case old
    then have "?prev \<le> endIndex rf" by (simp add: add_increasing2)
    then obtain j where j: "agree_upto args rf j"
      "acceptEntries args (aeReply rf) (acceptLeader ev (ae_Term args) rf) =
         Some (acceptedState ev args j rf, (aeReply rf)\<lparr>aer_Success := True\<rparr>)"
      by (rule acceptEntries_spec)
    with old \<open>?prev \<le> endIndex rf\<close> show ?thesis
      by (intro accepted [of j]) (simp_all add: AppendEntries_current)
  next
    case long
    then show ?thesis by (intro short) (simp_all add: AppendEntries_current)
  next
    case inside
    from inside have nth: "go_nth (Logs rf) (?prev - SnapshotLastIncludedIndex rf - 1) = Some e"
      by (simp add: entryAt_def)
    show ?thesis
    proof (cases "e_Term e = ae_PrevLogTerm args")
      case True
      from inside(3) obtain j where j: "agree_upto args rf j"
        "acceptEntries args (aeReply rf) (acceptLeader ev (ae_Term args) rf) =
           Some (acceptedState ev args j rf, (aeReply rf)\<lparr>aer_Success := True\<rparr>)"
        by (rule acceptEntries_spec)
      with inside nth True show ?thesis
        by (intro accepted [of j]) (simp_all add: AppendEntries_current)
    next
      case False
      let ?n = "nat (?prev - SnapshotLastIncludedIndex rf)"
      have "?n \<le> length (Logs rf)" "e_Term (Logs rf ! (?n - 1)) = e_Term e"
        using inside by (auto simp: len_def entryAt_Some_iff nat_diff_distrib)
      then obtain ci where "conflictScan (Logs rf) (e_Term e) (e_Index e) ?n = Some ci"
        using conflictScan_total by blast
      with inside nth False show ?thesis
        by (intro mismatch [of e ci]) (simp_all add: AppendEntries_current)
    qed
  qed
qed


lemma AppendEntriesReply0_simps [simp]:
  "aer_Term AppendEntriesReply0 = 0" "\<not> aer_Success AppendEntriesReply0"
  "\<not> aer_Conflict AppendEntriesReply0" "aer_ConflictTerm AppendEntriesReply0 = 0"
  "aer_ConflictIndex AppendEntriesReply0 = 0"
  by (simp_all add: AppendEntriesReply0_def)

lemma entryAt_accepted_below:
  assumes "agree_upto args rf j" "i \<le> ae_PrevLogIndex args + int j" "ae_PrevLogIndex args \<le> endIndex rf"
  shows "entryAt (acceptedState ev args j rf) i = entryAt rf i"
proof (cases "j < length (ae_Entries args)")
  case True
  with assms have
    "0 \<le> ae_PrevLogIndex args - SnapshotLastIncludedIndex rf + int j"
    "ae_PrevLogIndex args + int j \<le> endIndex rf"
    by (auto simp: agree_upto_def)
  with True assms(2) show ?thesis
    by (auto simp: entryAt_def mergedLog_def go_nth_def in_range_def nth_append len_def)
next
  case False
  then show ?thesis by (simp add: entryAt_def mergedLog_def)
qed

lemma entryAt_accepted_new:
  assumes "agree_upto args rf j" "j \<le> k" "k < length (ae_Entries args)"
  shows "entryAt (acceptedState ev args j rf) (ae_PrevLogIndex args + 1 + int k) = Some (ae_Entries args ! k)"
proof -
  let ?p = "nat (ae_PrevLogIndex args - SnapshotLastIncludedIndex rf + int j)"
  have j: "j < length (ae_Entries args)" using assms by simp
  then have p: "0 \<le> ae_PrevLogIndex args - SnapshotLastIncludedIndex rf + int j" "?p \<le> length (Logs rf)"
    using assms(1) by (auto simp: agree_upto_def len_def)
  have "nat (ae_PrevLogIndex args + 1 + int k - SnapshotLastIncludedIndex rf - 1) = ?p + (k - j)"
    using p(1) assms(2) by (simp add: of_nat_diff nat_eq_iff)
  with j p assms(2,3) show ?thesis
    by (simp add: entryAt_def mergedLog_def go_nth_def in_range_def nth_append len_def)
qed

lemma AppendEntries_successE:
  assumes "AppendEntries ev args rf = Some (rf', reply)" and "aer_Success reply"
  obtains j where "CurrentTerm rf \<le> ae_Term args" "ae_PrevLogIndex args \<le> endIndex rf"
    "agree_upto args rf j" "rf' = acceptedState ev args j rf"
proof (cases rule: AppendEntries_outcome [of args rf ev])
  case (accepted j)
  with assms that show ?thesis by simp
qed (use assms in simp_all)

lemma accepted_entries_present:
  assumes j: "agree_upto args rf j" "ae_PrevLogIndex args \<le> endIndex rf"
    and k: "k < length (ae_Entries args)" "SnapshotLastIncludedIndex rf < ae_PrevLogIndex args + 1 + int k"
  shows "\<exists>e. entryAt (acceptedState ev args j rf) (ae_PrevLogIndex args + 1 + int k) = Some e \<and>
    same_entry e (ae_Entries args ! k)"
proof (cases "k < j")
  case True
  let ?i = "ae_PrevLogIndex args + 1 + int k"
  have "?i \<le> endIndex rf" using True j(1) by (simp add: agree_upto_def)
  with k(2) obtain e where e: "entryAt rf ?i = Some e"
    by (cases "entryAt rf ?i") (auto simp: entryAt_None_iff)
  with True j(1) have "same_entry e (ae_Entries args ! k)" by (simp add: agree_upto_def)
  moreover have "entryAt (acceptedState ev args j rf) ?i = Some e"
    using entryAt_accepted_below [OF j(1) _ j(2), of ?i ev] True e by simp
  ultimately show ?thesis by blast
next
  case False
  with k have "entryAt (acceptedState ev args j rf) (ae_PrevLogIndex args + 1 + int k) = Some (ae_Entries args ! k)"
    by (intro entryAt_accepted_new [OF j(1)]) simp_all
  then show ?thesis by simp
qed

lemma accepted_drops_conflicts:
  assumes j: "agree_upto args rf j" "ae_PrevLogIndex args \<le> endIndex rf"
    and e: "entryAt rf i = Some e" and lost: "entryAt (acceptedState ev args j rf) i \<noteq> Some e"
  shows "j < length (ae_Entries args) \<and> ae_PrevLogIndex args + 1 + int j \<le> i \<and>
    (\<exists>old. entryAt rf (ae_PrevLogIndex args + 1 + int j) = Some old \<and>
       \<not> same_entry old (ae_Entries args ! j))"
proof -
  let ?i = "ae_PrevLogIndex args + 1 + int j"
  have i: "?i \<le> i"
  proof (rule ccontr)
    assume "\<not> ?i \<le> i"
    then have "entryAt (acceptedState ev args j rf) i = entryAt rf i"
      by (intro entryAt_accepted_below [OF j(1) _ j(2)]) simp
    with e lost show False by simp
  qed
  have less: "j < length (ae_Entries args)"
    using e lost by (auto simp: mergedLog_def entryAt_def split: if_splits)
  from less j(1) have "SnapshotLastIncludedIndex rf < ?i" by (simp add: agree_upto_def)
  moreover from e i have "?i \<le> endIndex rf" by (simp add: entryAt_Some_iff)
  ultimately obtain old where "entryAt rf ?i = Some old"
    by (cases "entryAt rf ?i") (auto simp: entryAt_None_iff)
  with less i j(1) show ?thesis by (simp add: agree_upto_def)
qed

text \<open>C3: what a successful AppendEntries does to the log: every received entry that is not covered by the snapshot is in the log afterwards, the log up to the previous index is untouched, and an entry is dropped only at or after a position where log and request disagree.\<close>

theorem AppendEntries_log_effect:
  assumes "AppendEntries ev args rf = Some (rf', reply)" and "aer_Success reply"
  shows "(\<forall>k < length (ae_Entries args). SnapshotLastIncludedIndex rf < ae_PrevLogIndex args + 1 + int k \<longrightarrow>
      (\<exists>e. entryAt rf' (ae_PrevLogIndex args + 1 + int k) = Some e \<and> same_entry e (ae_Entries args ! k))) \<and>
    (\<forall>i \<le> ae_PrevLogIndex args. entryAt rf' i = entryAt rf i) \<and>
    (\<forall>i e. entryAt rf i = Some e \<longrightarrow> entryAt rf' i \<noteq> Some e \<longrightarrow>
      (\<exists>k < length (ae_Entries args). ae_PrevLogIndex args + 1 + int k \<le> i \<and>
         (\<exists>old. entryAt rf (ae_PrevLogIndex args + 1 + int k) = Some old \<and>
           \<not> same_entry old (ae_Entries args ! k))))"
proof -
  from assms obtain j where j: "agree_upto args rf j" "ae_PrevLogIndex args \<le> endIndex rf"
    and rf': "rf' = acceptedState ev args j rf"
    by (rule AppendEntries_successE)
  show ?thesis
    unfolding rf'
    using accepted_entries_present [OF j, of _ ev] accepted_drops_conflicts [OF j, of _ _ ev]
      entryAt_accepted_below [OF j(1) _ j(2), of _ ev]
    by (intro conjI allI impI) (blast | simp)+
qed

text \<open>A follower with two entries of term 1, and a leader of term 2 that replaces the second one.\<close>

definition log_demo :: "(nat, nat) Raft" where
  "log_demo = (Make \<lparr>now = 0, rnd = 0\<rparr> 3 1 MakePersister)\<lparr>CurrentTerm := 1, Logs :=
     [\<lparr>e_Command = 10, e_Term = 1, e_Index = 1\<rparr>, \<lparr>e_Command = 11, e_Term = 1, e_Index = 2\<rparr>]\<rparr>"

definition log_demo_args :: "nat AppendEntriesArgs" where
  "log_demo_args = \<lparr>ae_Term = 2, ae_LeaderId = 0, ae_PrevLogIndex = 1, ae_PrevLogTerm = 1,
     ae_Entries = [\<lparr>e_Command = 12, e_Term = 2, e_Index = 2\<rparr>], ae_LeaderCommit = 0\<rparr>"

theorem AppendEntries_log_effect_witness:
  "\<exists>rf' reply. AppendEntries \<lparr>now = 5, rnd = 0\<rparr> log_demo_args log_demo = Some (rf', reply) \<and> aer_Success reply \<and>
     (\<exists>e. entryAt rf' 2 = Some e \<and> e_Term e = 2) \<and> entryAt rf' 1 = entryAt log_demo 1"
proof -
  have ok: "map_option (aer_Success \<circ> snd) (AppendEntries \<lparr>now = 5, rnd = 0\<rparr> log_demo_args log_demo) = Some True"
    by code_simp
  then obtain rf' reply where step: "AppendEntries \<lparr>now = 5, rnd = 0\<rparr> log_demo_args log_demo = Some (rf', reply)" "aer_Success reply"
    by auto
  have "SnapshotLastIncludedIndex log_demo = 0" by code_simp
  with AppendEntries_log_effect [OF step] have "\<exists>e. entryAt rf' 2 = Some e \<and> e_Term e = 2" "entryAt rf' 1 = entryAt log_demo 1"
    by (auto simp: log_demo_args_def same_entry_def)
  with step show ?thesis by blast
qed

end
