(* ===== verification/Raft_Inv.thy ===== *)
theory Raft_Inv
  imports Raft_Log
begin

text \<open>
  The invariant of a Raft peer and its preservation by every operation of raft.go: consecutive log
  indices, \<open>0\<close> \<open>\<le>\<close> \<open>SnapshotLastIncludedIndex\<close> \<open>\<le>\<close> \<open>LastApplied\<close>, arrays of the length of \<open>peers\<close>, and
  the \<open>NextIndex\<close> of a leader inside its log. The operations of a leader are in \<open>Raft_Leader\<close>, the
  runs of a peer in \<open>Raft_Steps\<close>.
\<close>

section \<open>The invariant\<close>

definition index_inv :: "('c, 'w) Raft \<Rightarrow> bool" where
  "index_inv rf \<longleftrightarrow> 0 \<le> SnapshotLastIncludedIndex rf \<and>
     SnapshotLastIncludedIndex rf \<le> LastApplied rf"

definition shape_inv :: "('c, 'w) Raft \<Rightarrow> bool" where
  "shape_inv rf \<longleftrightarrow> length (NextIndex rf) = peers rf \<and> length (MatchIndex rf) = peers rf \<and>
     0 \<le> me rf \<and> me rf < int (peers rf) \<and> TotalNum rf = int (peers rf) \<and> Half rf = int (peers rf) div 2"

definition leader_inv :: "('c, 'w) Raft \<Rightarrow> bool" where
  "leader_inv rf \<longleftrightarrow> (State rf = Leader \<longrightarrow> (\<forall>n \<in> set (NextIndex rf). n \<le> endIndex rf + 1))"

definition raft_inv :: "('c, 'w) Raft \<Rightarrow> bool" where
  "raft_inv rf \<longleftrightarrow> log_wf rf \<and> index_inv rf \<and> shape_inv rf \<and> leader_inv rf"

lemmas raft_inv_defs = raft_inv_def index_inv_def shape_inv_def leader_inv_def

lemma raft_invD:
  assumes "raft_inv rf"
  shows "log_wf rf" "index_inv rf" "shape_inv rf" "leader_inv rf"
  using assms by (simp_all add: raft_inv_def)

text \<open>The fields the invariant does not read.\<close>

lemma raft_inv_frame [simp]:
  "raft_inv (persist rf) = raft_inv rf"
  "raft_inv (rf\<lparr>CurrentTerm := t\<rparr>) = raft_inv rf" "raft_inv (rf\<lparr>VotedFor := v\<rparr>) = raft_inv rf"
  "raft_inv (rf\<lparr>LeaderTerm := t\<rparr>) = raft_inv rf" "raft_inv (rf\<lparr>LastReceive := t\<rparr>) = raft_inv rf"
  "raft_inv (rf\<lparr>ElectionTimeout := d\<rparr>) = raft_inv rf" "raft_inv (rf\<lparr>snapshotMsg := m\<rparr>) = raft_inv rf"
  "raft_inv (rf\<lparr>persister := ps\<rparr>) = raft_inv rf" "raft_inv (rf\<lparr>dead := d\<rparr>) = raft_inv rf"
  "raft_inv (rf\<lparr>CommitIndex := c\<rparr>) = raft_inv rf" "raft_inv (rf\<lparr>LastNewEntryIndex := c\<rparr>) = raft_inv rf"
  by (simp_all add: raft_inv_defs log_wf_def)

lemma raft_inv_State: "raft_inv rf \<Longrightarrow> r \<noteq> Leader \<Longrightarrow> raft_inv (rf\<lparr>State := r\<rparr>)"
  by (simp add: raft_inv_defs log_wf_def)

section \<open>AppendEntries\<close>

lemma Half_TotalNum_frame [simp]:
  "Half (acceptedState ev args j rf) = Half rf" "TotalNum (acceptedState ev args j rf) = TotalNum rf"
  "Half (fst (acceptLeader ev t rf)) = Half rf" "TotalNum (fst (acceptLeader ev t rf)) = TotalNum rf"
  "State (fst (acceptLeader ev t rf)) = Follower"
  by (simp_all add: acceptedState_def acceptLeader_eq Let_def followCommit_def)

lemma acceptLeader_inv: "raft_inv rf \<Longrightarrow> raft_inv (fst (acceptLeader ev t rf))"
  by (simp add: acceptLeader_eq raft_inv_State)

lemma acceptedState_inv:
  assumes inv: "raft_inv rf" and wf: "entries_wf args" and j: "agree_upto args rf j"
  shows "raft_inv (acceptedState ev args j rf)"
proof -
  have "log_wf (acceptedState ev args j rf)"
    using mergedLog_wf [OF _ wf j, of "acceptedState ev args j rf"] inv by (simp add: raft_inv_def)
  then show ?thesis using inv by (simp add: raft_inv_defs)
qed

lemma AppendEntries_inv:
  assumes "raft_inv rf" "entries_wf args" and step: "AppendEntries ev args rf = Some (rf', reply)"
  shows "raft_inv rf'"
  using assms
  by (cases rule: AppendEntries_outcome [of args rf ev]) (auto intro: acceptLeader_inv acceptedState_inv)

section \<open>Snapshots\<close>

text \<open>The trimmed state: what \<open>makeRaftState\<close> computes for a snapshot up to \<open>index\<close>.\<close>

definition trimmedLog :: "int \<Rightarrow> ('c, 'w) Raft \<Rightarrow> 'c RaftLogEntry list" where
  "trimmedLog index rf = drop (nat (index - SnapshotLastIncludedIndex rf)) (Logs rf)"

definition trimmedTerm :: "int \<Rightarrow> ('c, 'w) Raft \<Rightarrow> int" where
  "trimmedTerm index rf =
     (if index = SnapshotLastIncludedIndex rf \<or> Logs rf = [] then SnapshotLastIncludedTerm rf
      else e_Term (Logs rf ! (min (nat (index - SnapshotLastIncludedIndex rf)) (length (Logs rf)) - 1)))"

lemma makeRaftState_spec:
  assumes wf: "log_wf rf" and le: "SnapshotLastIncludedIndex rf \<le> index"
  shows "makeRaftState (index + 1) rf = Some
    (raft_stream (CurrentTerm rf) (trimmedLog index rf) (VotedFor rf) index (trimmedTerm index rf),
     trimmedLog index rf, index, trimmedTerm index rf)"
proof (cases "Logs rf = [] \<or> index = SnapshotLastIncludedIndex rf")
  case True
  then show ?thesis
    using le log_wf_hd [OF wf]
    by (auto simp: makeRaftState_def trimmedLog_def trimmedTerm_def go_nth_def in_range_def Let_def)
next
  case False
  let ?snap = "SnapshotLastIncludedIndex rf" and ?n = "length (Logs rf)"
  let ?start = "index - ?snap"
  have n: "0 < ?n" "0 < ?start" using False le by auto
  have e0: "go_nth (Logs rf) 0 = Some (Logs rf ! 0)" "e_Index (Logs rf ! 0) = ?snap + 1"
    using False log_wf_hd [OF wf] by (simp_all add: go_nth_def in_range_def)
  let ?k = "min (nat ?start) ?n - 1"
  have k: "nat (min ?start (int ?n) - 1) = ?k" "0 \<le> min ?start (int ?n) - 1"
    "min ?start (int ?n) - 1 < int ?n"
    using n by (auto simp: min_def nat_diff_distrib)
  then have ek: "go_nth (Logs rf) (min ?start (len (Logs rf)) - 1) = Some (Logs rf ! ?k)"
    by (simp add: go_nth_def in_range_def len_def)
  have "?k < ?n" using n(1) by linarith
  then have "e_Index (Logs rf ! ?k) = ?snap + 1 + int ?k"
    using wf by (simp add: log_wf_def)
  then have "max (e_Index (Logs rf ! ?k)) index = index"
    using n by (auto simp: min_def)
  moreover have "go_from (Logs rf) (min ?start (len (Logs rf))) = Some (trimmedLog index rf)"
    using n by (auto simp: go_from_Some trimmedLog_def len_def min_def)
  ultimately show ?thesis
    using False n e0 ek by (simp add: makeRaftState_def trimmedTerm_def Let_def)
qed

lemma trimmed_endIndex:
  "SnapshotLastIncludedIndex rf \<le> index \<Longrightarrow> index + len (trimmedLog index rf) = max index (endIndex rf)"
  by (auto simp: trimmedLog_def len_def)

lemma trimmed_wf:
  assumes "log_wf rf" "SnapshotLastIncludedIndex rf \<le> index"
    "Logs rf' = trimmedLog index rf" "SnapshotLastIncludedIndex rf' = index"
  shows "log_wf rf'"
  using assms by (auto simp: log_wf_def trimmedLog_def)

lemma Snapshot_eq:
  assumes "log_wf rf" "SnapshotLastIncludedIndex rf \<le> index"
  shows "Snapshot index snap rf = Some (rf\<lparr>persister := SaveStateAndSnapshot
      (raft_stream (CurrentTerm rf) (trimmedLog index rf) (VotedFor rf) index (trimmedTerm index rf)) snap (persister rf),
     Logs := trimmedLog index rf, SnapshotLastIncludedIndex := index,
     SnapshotLastIncludedTerm := trimmedTerm index rf,
     CommitIndex := max (CommitIndex rf) index, LastApplied := max (LastApplied rf) index\<rparr>)"
  using assms by (simp add: Snapshot_def makeRaftState_spec)

lemma Snapshot_inv:
  assumes "raft_inv rf" "Snapshot index snap rf = Some rf'"
  shows "raft_inv rf'"
proof (cases "SnapshotLastIncludedIndex rf \<le> index")
  case True
  note wf = raft_invD(1) [OF assms(1)]
  have rf': "log_wf rf'"
    using assms(2) Snapshot_eq [OF wf True] by (intro trimmed_wf [OF wf True]) auto
  from assms(2) Snapshot_eq [OF wf True] trimmed_endIndex [OF True] have "index_inv rf'"
    using raft_invD(2) [OF assms(1)] True by (auto simp: index_inv_def)
  moreover from assms(2) Snapshot_eq [OF wf True] have "shape_inv rf'"
    using raft_invD(3) [OF assms(1)] by (auto simp: shape_inv_def)
  moreover from assms(2) Snapshot_eq [OF wf True] trimmed_endIndex [OF True] have "leader_inv rf'"
    using raft_invD(4) [OF assms(1)] by (force simp: leader_inv_def max_def)
  ultimately show ?thesis using rf' by (simp add: raft_inv_def)
next
  case False
  with assms show ?thesis by (simp add: Snapshot_def)
qed

lemma InstallSnapshot_eq:
  fixes ev :: env and args :: "'w InstallSnapshotArg" and rf :: "('c, 'w) Raft"
  assumes wf: "log_wf rf" and cur: "CurrentTerm rf \<le> is_Term args"
  defines "rf1 \<equiv> fst (acceptLeader ev (is_Term args) rf)" and "index \<equiv> is_LastIncludedIndex args"
  shows "InstallSnapshot ev args rf = Some
    (if SnapshotLastIncludedIndex rf \<ge> index \<or> am_SnapshotIndex (snapshotMsg rf) > index
     then persist rf1
     else rf1\<lparr>snapshotMsg := ApplyMsg0\<lparr>am_CommandValid := False, am_SnapshotValid := True,
             am_Snapshot := is_Data args, am_SnapshotTerm := is_LastIncludedTerm args, am_SnapshotIndex := index\<rparr>,
           persister := SaveStateAndSnapshot (raft_stream (CurrentTerm rf1) (trimmedLog index rf)
             (VotedFor rf1) index (trimmedTerm index rf)) (is_Data args) (persister rf),
           Logs := trimmedLog index rf, SnapshotLastIncludedIndex := index,
           SnapshotLastIncludedTerm := is_LastIncludedTerm args,
           CommitIndex := max (CommitIndex rf) index, LastApplied := max (LastApplied rf) index\<rparr>,
     \<lparr>isr_Term = CurrentTerm rf, isr_Success = True\<rparr>)"
proof -
  have trim: "trimmedLog i (rf1\<lparr>snapshotMsg := msg\<rparr>) = trimmedLog i rf"
    "trimmedTerm i (rf1\<lparr>snapshotMsg := msg\<rparr>) = trimmedTerm i rf" for i msg
    by (simp_all add: trimmedLog_def trimmedTerm_def rf1_def)
  have "makeRaftState (index + 1) (rf1\<lparr>snapshotMsg := msg\<rparr>) = Some
    (raft_stream (CurrentTerm rf1) (trimmedLog index rf) (VotedFor rf1) index (trimmedTerm index rf),
     trimmedLog index rf, index, trimmedTerm index rf)" if "SnapshotLastIncludedIndex rf < index" for msg
  proof -
    have "log_wf (rf1\<lparr>snapshotMsg := msg\<rparr>)"
      using wf by (simp add: log_wf_def rf1_def)
    moreover have "SnapshotLastIncludedIndex (rf1\<lparr>snapshotMsg := msg\<rparr>) \<le> index"
      using that by (simp add: rf1_def)
    ultimately show ?thesis
      using makeRaftState_spec [of "rf1\<lparr>snapshotMsg := msg\<rparr>" index] by (simp add: trim)
  qed
  then show ?thesis
    using cur by (auto simp: InstallSnapshot_def Let_def rf1_def [symmetric] index_def [symmetric])
       (auto simp: rf1_def)
qed


lemma InstallSnapshot_inv:
  assumes inv: "raft_inv rf" and step: "InstallSnapshot ev args rf = Some (rf', reply)"
  shows "raft_inv rf'"
proof (cases "CurrentTerm rf \<le> is_Term args \<and> SnapshotLastIncludedIndex rf < is_LastIncludedIndex args
    \<and> am_SnapshotIndex (snapshotMsg rf) \<le> is_LastIncludedIndex args")
  case True
  note wf = raft_invD(1) [OF inv]
  let ?index = "is_LastIncludedIndex args"
  have le: "SnapshotLastIncludedIndex rf \<le> ?index" using True by simp
  from True step InstallSnapshot_eq [OF wf, of args ev]
  have rf': "Logs rf' = trimmedLog ?index rf" "SnapshotLastIncludedIndex rf' = ?index"
    "CommitIndex rf' = max (CommitIndex rf) ?index" "LastApplied rf' = max (LastApplied rf) ?index"
    "LastNewEntryIndex rf' = LastNewEntryIndex (fst (acceptLeader ev (is_Term args) rf))"
    "State rf' = Follower" "NextIndex rf' = NextIndex rf" "MatchIndex rf' = MatchIndex rf"
    "peers rf' = peers rf" "me rf' = me rf" "TotalNum rf' = TotalNum rf" "Half rf' = Half rf"
    by auto
  from inv have "index_inv (fst (acceptLeader ev (is_Term args) rf))"
    by (intro raft_invD(2) acceptLeader_inv)
  with rf' le have "index_inv rf'"
    using trimmed_endIndex [OF le] by (auto simp: index_inv_def)
  moreover have "log_wf rf'"
    using rf'(1,2) by (rule trimmed_wf [OF wf le])
  ultimately show ?thesis
    using rf' raft_invD(3) [OF inv] by (simp add: raft_inv_def shape_inv_def leader_inv_def)
next
  case False
  have "raft_inv (persist (fst (acceptLeader ev (is_Term args) rf)))"
    using acceptLeader_inv [OF inv, of ev "is_Term args"] by simp
  with False inv step InstallSnapshot_eq [OF raft_invD(1) [OF inv], of args ev] show ?thesis
    by (cases "CurrentTerm rf \<le> is_Term args") (auto simp: InstallSnapshot_def not_less not_le)
qed

section \<open>Votes, commands, delivery\<close>

lemma stepDown_inv: "raft_inv rf \<Longrightarrow> raft_inv (stepDown t rf)"
  by (simp add: stepDown_def raft_inv_State)

lemma RequestVote_inv: "raft_inv rf \<Longrightarrow> raft_inv (fst (RequestVote ev args rf))"
  by (simp add: RequestVote_def Let_def stepDown_inv)

lemma prepareElection_inv: "raft_inv rf \<Longrightarrow> raft_inv (fst (prepareElection ev rf))"
  by (simp add: prepareElection_def Let_def raft_inv_State)

lemma go_set_shape: "shape_inv rf \<Longrightarrow> 0 \<le> i \<Longrightarrow> i < int (peers rf) \<Longrightarrow>
    go_set (NextIndex rf) i v = Some ((NextIndex rf)[nat i := v]) \<and>
    go_set (MatchIndex rf) i v = Some ((MatchIndex rf)[nat i := v])"
  by (simp add: shape_inv_def go_set_def in_range_def len_def)

lemma Start_leader:
  assumes inv: "raft_inv rf" and "State rf = Leader"
  shows "Start command rf = Some (persist (rf\<lparr>Logs := Logs rf @
      [\<lparr>e_Command = command, e_Term = CurrentTerm rf, e_Index = endIndex rf + 1\<rparr>],
      NextIndex := (NextIndex rf)[nat (me rf) := 2 + endIndex rf],
      MatchIndex := (MatchIndex rf)[nat (me rf) := endIndex rf + 1]\<rparr>),
     endIndex rf + 1, CurrentTerm rf, True)"
  using assms log_wf_lastLogIndex [OF raft_invD(1) [OF inv]] raft_invD(3) [OF inv]
  by (simp add: Start_def Let_def shape_inv_def go_set_def in_range_def len_def)

lemma Start_inv:
  assumes inv: "raft_inv rf" and step: "Start command rf = Some (rf', res)"
  shows "raft_inv rf'"
proof (cases "State rf = Leader")
  case True
  let ?e = "\<lparr>e_Command = command, e_Term = CurrentTerm rf, e_Index = endIndex rf + 1\<rparr>"
  from step Start_leader [OF inv True, of command] have rf':
    "rf' = persist (rf\<lparr>Logs := Logs rf @ [?e], NextIndex := (NextIndex rf)[nat (me rf) := 2 + endIndex rf],
      MatchIndex := (MatchIndex rf)[nat (me rf) := endIndex rf + 1]\<rparr>)"
    by simp
  have "n \<le> 2 + endIndex rf" if "n \<in> set ((NextIndex rf)[nat (me rf) := 2 + endIndex rf])" for n
    using that raft_invD(4) [OF inv] True set_update_subset_insert [of "NextIndex rf" "nat (me rf)" "2 + endIndex rf"]
    by (fastforce simp: leader_inv_def)
  with rf' have "leader_inv rf'" by (auto simp: leader_inv_def)
  moreover from rf' raft_invD(1) [OF inv] have "log_wf rf'"
    by (auto simp: log_wf_def nth_append len_def less_Suc_eq)
  ultimately show ?thesis
    using rf' inv by (auto simp: raft_inv_def index_inv_def shape_inv_def)
next
  case False
  with inv step show ?thesis by (simp add: Start_def)
qed

lemma applyLog_collect_inv:
  "raft_inv rf \<Longrightarrow> applyLog_collect rf = Some (rf', logs, msgs) \<Longrightarrow> raft_inv rf'"
  by (auto simp: applyLog_collect_def Let_def Option.bind_eq_Some_conv)

lemma applyLog_finish_inv: "raft_inv rf \<Longrightarrow> raft_inv (applyLog_finish logs rf)"
  by (auto simp: applyLog_finish_def raft_inv_defs log_wf_def)


section \<open>The leader\<close>

lemma sendAppendEntries_cases:
  assumes "sendAppendEntries server args reply ok rf = Some (rf', res)"
  obtains (down) "CurrentTerm rf < aer_Term reply" "rf' = stepDown (aer_Term reply) rf"
  | (same) "rf' = rf"
  | (matched) m n where "CurrentTerm rf = ae_Term args" "aer_Success reply"
      "go_nth (MatchIndex rf) server = Some m" "go_nth (NextIndex rf) server = Some n"
      "rf' = rf\<lparr>MatchIndex := (MatchIndex rf)[nat server := max m (ae_PrevLogIndex args + len (ae_Entries args))],
                NextIndex := (NextIndex rf)[nat server := max n (ae_PrevLogIndex args + len (ae_Entries args) + 1)]\<rparr>"
  | (backed) b where "CurrentTerm rf = ae_Term args" "aer_Conflict reply"
      "go_nth (NextIndex rf) server = Some (ae_PrevLogIndex args + 1)"
      "backUp reply (Logs rf) = Some b" "rf' = rf\<lparr>NextIndex := (NextIndex rf)[nat server := b]\<rparr>"
proof -
  note defs = sendAppendEntries_def Option.bind_eq_Some_conv go_set_def
  consider "CurrentTerm rf < aer_Term reply"
    | "aer_Term reply < CurrentTerm rf \<or> CurrentTerm rf \<noteq> ae_Term args"
    | "aer_Term reply = CurrentTerm rf" "CurrentTerm rf = ae_Term args" "aer_Success reply"
    | "aer_Term reply = CurrentTerm rf" "CurrentTerm rf = ae_Term args" "\<not> aer_Success reply"
    by linarith
  then show ?thesis
  proof cases
    case 1
    with assms show ?thesis by (intro down) (simp_all add: defs)
  next
    case 2
    with assms show ?thesis
      by (auto simp: defs split: if_splits intro: down same)
  next
    case 3
    with assms show ?thesis by (auto simp: defs split: if_splits intro!: matched)
  next
    case 4
    with assms show ?thesis by (auto simp: defs split: if_splits intro: same backed)
  qed
qed

lemma next_update_inv:
  assumes inv: "raft_inv rf" and b: "State rf = Leader \<Longrightarrow> b \<le> endIndex rf + 1" and mi: "length mi = length (MatchIndex rf)"
  shows "raft_inv (rf\<lparr>MatchIndex := mi, NextIndex := (NextIndex rf)[i := b]\<rparr>)"
proof -
  have "leader_inv (rf\<lparr>MatchIndex := mi, NextIndex := (NextIndex rf)[i := b]\<rparr>)"
    using b raft_invD(4) [OF inv] set_update_subset_insert [of "NextIndex rf" i b]
    by (auto simp: leader_inv_def)
  with inv mi show ?thesis by (simp add: raft_inv_def index_inv_def shape_inv_def log_wf_def)
qed

lemma backUp_le:
  assumes inv: "raft_inv rf" and "aer_ConflictIndex reply \<le> endIndex rf + 1" "backUp reply (Logs rf) = Some b"
  shows "b \<le> endIndex rf + 1"
proof -
  have "e_Index e \<le> endIndex rf" if "go_nth (Logs rf) i = Some e" for i e
    using that raft_invD(1) [OF inv] by (auto simp: go_nth_eq_Some_iff in_range_def log_wf_def len_def)
  moreover have "0 \<le> endIndex rf" using raft_invD(2) [OF inv] by (simp add: index_inv_def)
  moreover have "(\<exists>i e. go_nth (Logs rf) i = Some e \<and> b = e_Index e) \<or> b = aer_ConflictIndex reply
      \<or> b = max (aer_ConflictIndex reply) 1"
    using assms(3) by (auto simp: backUp_def Option.bind_eq_Some_conv split: prod.splits if_splits)
  ultimately show ?thesis
    using assms(2) by fastforce
qed

lemma leader_next: "raft_inv rf \<Longrightarrow> State rf = Leader \<Longrightarrow> go_nth (NextIndex rf) i = Some n \<Longrightarrow> n \<le> endIndex rf + 1"
  using go_nth_mem [of "NextIndex rf" i n] by (auto simp: raft_inv_def leader_inv_def)

lemma sendAppendEntries_inv:
  assumes inv: "raft_inv rf"
    and sent: "State rf = Leader \<Longrightarrow> CurrentTerm rf = ae_Term args \<Longrightarrow>
      ae_PrevLogIndex args + len (ae_Entries args) \<le> endIndex rf"
    and ci: "aer_ConflictIndex reply \<le> max 0 (ae_PrevLogIndex args + 1)"
    and step: "sendAppendEntries server args reply ok rf = Some (rf', res)"
  shows "raft_inv rf'"
  using step
proof (cases rule: sendAppendEntries_cases)
  case (matched m n)
  with inv sent show ?thesis by (auto intro!: next_update_inv dest: leader_next)
next
  case (backed b)
  have "b \<le> endIndex rf + 1" if "State rf = Leader"
  proof (rule backUp_le [OF inv _ backed(4)])
    have "0 \<le> endIndex rf" using raft_invD(2) [OF inv] by (simp add: index_inv_def)
    moreover have "ae_PrevLogIndex args \<le> endIndex rf"
      using sent [OF that backed(1)] len_nonneg [of "ae_Entries args"] by linarith
    ultimately show "aer_ConflictIndex reply \<le> endIndex rf + 1" using ci by linarith
  qed
  with inv have "raft_inv (rf\<lparr>MatchIndex := MatchIndex rf, NextIndex := (NextIndex rf)[nat server := b]\<rparr>)"
    by (intro next_update_inv) auto
  with backed show ?thesis by simp
qed (use inv in \<open>auto intro: stepDown_inv\<close>)

lemma sendInstallSnapshot_cases:
  assumes "sendInstallSnapshot server args reply ok rf = Some (rf', res)"
  obtains (down) "CurrentTerm rf < isr_Term reply" "rf' = stepDown (isr_Term reply) rf"
  | (same) "rf' = rf"
  | (matched) m n where "CurrentTerm rf = is_Term args" "isr_Success reply"
      "go_nth (MatchIndex rf) server = Some m" "go_nth (NextIndex rf) server = Some n"
      "rf' = rf\<lparr>MatchIndex := (MatchIndex rf)[nat server := max m (is_LastIncludedIndex args)],
                NextIndex := (NextIndex rf)[nat server := max n (is_LastIncludedIndex args + 1)]\<rparr>"
proof -
  note defs = sendInstallSnapshot_def Option.bind_eq_Some_conv go_set_def
  show ?thesis
  proof (cases "isr_Term reply = CurrentTerm rf \<and> CurrentTerm rf = is_Term args \<and> isr_Success reply")
    case True
    with assms show ?thesis by (auto simp: defs split: if_splits intro!: matched)
  next
    case False
    with assms show ?thesis by (auto simp: defs split: if_splits intro: down same)
  qed
qed

lemma sendInstallSnapshot_inv:
  assumes inv: "raft_inv rf"
    and sent: "State rf = Leader \<Longrightarrow> CurrentTerm rf = is_Term args \<Longrightarrow> is_LastIncludedIndex args \<le> endIndex rf"
    and step: "sendInstallSnapshot server args reply ok rf = Some (rf', res)"
  shows "raft_inv rf'"
  using step
proof (cases rule: sendInstallSnapshot_cases)
  case (matched m n)
  with inv sent show ?thesis by (auto intro!: next_update_inv dest: leader_next)
qed (use inv in \<open>auto intro: stepDown_inv\<close>)

end
