(* ===== verification/Raft_Leader.thy ===== *)
theory Raft_Leader
  imports Raft_Inv
begin

text \<open>
  The leader: the requests it builds describe its own log (\<open>leader_sends\<close>), no index it computes is
  out of range, \<open>updateCommitIndex\<close> commits what a majority holds, and its operations keep the
  invariant \<open>raft_inv\<close>.
\<close>

section \<open>Requests\<close>

lemma initIndices_spec:
  "length (NextIndex rf) = length (MatchIndex rf) \<Longrightarrow> \<forall>i \<in> set is. i < length (MatchIndex rf) \<Longrightarrow>
   \<exists>mi ni. initIndices is rf = Some (rf\<lparr>MatchIndex := mi, NextIndex := ni\<rparr>) \<and>
     length mi = length (MatchIndex rf) \<and> length ni = length (MatchIndex rf) \<and>
     (\<forall>j < length ni. ni ! j = (if j \<in> set is then lastLogIndex rf + 1 else NextIndex rf ! j) \<and>
       mi ! j = (if j \<in> set is then if int j \<noteq> me rf then 0 else lastLogIndex rf else MatchIndex rf ! j))"
proof (induction "is" arbitrary: rf)
  case Nil
  then show ?case by (intro exI [of _ "MatchIndex rf"] exI [of _ "NextIndex rf"]) simp
next
  case (Cons i "is")
  let ?m = "if int i \<noteq> me rf then 0 else lastLogIndex rf"
  let ?rf = "rf\<lparr>MatchIndex := (MatchIndex rf)[i := ?m], NextIndex := (NextIndex rf)[i := lastLogIndex rf + 1]\<rparr>"
  have last: "lastLogIndex ?rf = lastLogIndex rf" by (simp add: lastLogIndex_def)
  from Cons.prems have "initIndices (i # is) rf = initIndices is ?rf"
    by (simp add: go_set_def in_range_def len_def)
  moreover from Cons.prems Cons.IH [of ?rf] obtain mi ni where
    "initIndices is ?rf = Some (?rf\<lparr>MatchIndex := mi, NextIndex := ni\<rparr>)"
    "length mi = length (MatchIndex rf)" "length ni = length (MatchIndex rf)"
    "\<forall>j < length ni. ni ! j = (if j \<in> set is then lastLogIndex rf + 1 else NextIndex ?rf ! j) \<and>
       mi ! j = (if j \<in> set is then if int j \<noteq> me rf then 0 else lastLogIndex rf else MatchIndex ?rf ! j)"
    by (auto simp: last cong: if_cong)
  ultimately show ?case
    using Cons.prems by (intro exI [of _ mi] exI [of _ ni]) (simp add: nth_list_update)
qed

text \<open>The indices of a new leader: everything is to be probed from the end of its log.\<close>

lemma initIndices_new:
  assumes "log_wf rf" "shape_inv rf"
  shows "initIndices [0..<length (NextIndex rf)] rf = Some (rf\<lparr>
      MatchIndex := map (\<lambda>j. if int j \<noteq> me rf then 0 else endIndex rf) [0..<peers rf],
      NextIndex := replicate (peers rf) (endIndex rf + 1)\<rparr>)"
proof -
  from assms have len: "length (NextIndex rf) = peers rf" "length (MatchIndex rf) = peers rf"
    and last: "lastLogIndex rf = endIndex rf"
    by (simp_all add: shape_inv_def log_wf_lastLogIndex)
  obtain mi ni where *: "initIndices [0..<peers rf] rf = Some (rf\<lparr>MatchIndex := mi, NextIndex := ni\<rparr>)"
    "length mi = peers rf" "length ni = peers rf"
    "\<forall>j < peers rf. ni ! j = endIndex rf + 1 \<and> mi ! j = (if int j \<noteq> me rf then 0 else endIndex rf)"
    using initIndices_spec [of rf "[0..<peers rf]"] len last by auto
  then have "mi = map (\<lambda>j. if int j \<noteq> me rf then 0 else endIndex rf) [0..<peers rf]"
    "ni = replicate (peers rf) (endIndex rf + 1)"
    by (auto intro: nth_equalityI)
  with * len show ?thesis by simp
qed

text \<open>The requests a leader builds: no index is out of range, and they describe its own log.\<close>

definition termAt :: "('c, 'w) Raft \<Rightarrow> int \<Rightarrow> int option" where
  "termAt rf k = (if k = SnapshotLastIncludedIndex rf then Some (SnapshotLastIncludedTerm rf)
     else map_option e_Term (entryAt rf k))"

definition leader_sends :: "('c, 'w) Raft \<Rightarrow> 'c AppendEntriesArgs \<Rightarrow> bool" where
  "leader_sends rf args \<longleftrightarrow> ae_Term args = CurrentTerm rf \<and> ae_LeaderId args = me rf \<and>
     ae_LeaderCommit args = CommitIndex rf \<and> entries_wf args \<and>
     termAt rf (ae_PrevLogIndex args) = Some (ae_PrevLogTerm args) \<and>
     (\<forall>k < length (ae_Entries args). entryAt rf (ae_PrevLogIndex args + 1 + int k) = Some (ae_Entries args ! k))"

fun sound_out :: "('c, 'w) Raft \<Rightarrow> ('c, 'w) raft_out \<Rightarrow> bool" where
  "sound_out rf (OutAppendEntries i args) = leader_sends rf args"
| "sound_out rf (OutInstallSnapshot i args) = (is_Term args = CurrentTerm rf \<and> is_LeaderId args = me rf \<and>
     is_LastIncludedIndex args = SnapshotLastIncludedIndex rf \<and> is_LastIncludedTerm args = SnapshotLastIncludedTerm rf)"
| "sound_out rf _ = True"

lemma leader_sends_le: "leader_sends rf args \<Longrightarrow> ae_PrevLogIndex args + len (ae_Entries args) \<le> endIndex rf"
proof -
  assume *: "leader_sends rf args"
  show ?thesis
  proof (cases "ae_Entries args")
    case Nil
    with * show ?thesis by (auto simp: leader_sends_def termAt_def entryAt_Some_iff split: if_splits)
  next
    case (Cons e es)
    with * have "entryAt rf (ae_PrevLogIndex args + 1 + int (length es)) = Some (ae_Entries args ! length es)"
      by (simp add: leader_sends_def)
    then have "ae_PrevLogIndex args + 1 + int (length es) \<le> endIndex rf" by (simp add: entryAt_Some_iff)
    with Cons show ?thesis by (simp add: len_def)
  qed
qed

lemma log_wf_nth: "log_wf rf \<Longrightarrow> i < length (Logs rf) \<Longrightarrow> e_Index (Logs rf ! i) = SnapshotLastIncludedIndex rf + 1 + int i"
  by (simp add: log_wf_def)

lemma prev_entry:
  assumes "log_wf rf" "SnapshotLastIncludedIndex rf + 1 < n" "n \<le> endIndex rf + 1"
  obtains e where "go_nth (Logs rf) (n - SnapshotLastIncludedIndex rf - 2) = Some e"
    "e_Index e = n - 1" "termAt rf (n - 1) = Some (e_Term e)"
proof -
  let ?e = "Logs rf ! nat (n - SnapshotLastIncludedIndex rf - 2)"
  from assms have "nat (n - SnapshotLastIncludedIndex rf - 2) < length (Logs rf)"
    by (simp add: len_def)
  with assms have index: "e_Index ?e = n - 1"
    by (simp add: log_wf_nth)
  from assms have "go_nth (Logs rf) (n - SnapshotLastIncludedIndex rf - 2) = Some ?e"
    by (simp add: go_nth_def in_range_def)
  moreover note index
  moreover from assms have "termAt rf (n - 1) = Some (e_Term ?e)"
    by (simp add: termAt_def entryAt_def go_nth_def in_range_def)
  ultimately show ?thesis by (rule that)
qed

lemma heartBeatArgs_ok:
  assumes inv: "raft_inv rf" and lead: "State rf = Leader" and i: "0 \<le> i" "i < int (peers rf)"
  shows "\<exists>args. heartBeatArgs rf i = Some args \<and> ae_Entries args = [] \<and> leader_sends rf args"
proof -
  note wf = raft_invD(1) [OF inv]
  obtain n where n: "go_nth (NextIndex rf) i = Some n"
    using i raft_invD(3) [OF inv] by (simp add: go_nth_def in_range_def len_def shape_inv_def)
  have le: "n \<le> endIndex rf + 1" using leader_next [OF inv lead n] .
  show ?thesis
  proof (cases "SnapshotLastIncludedIndex rf + 1 < n")
    case True
    from prev_entry [OF wf True le] obtain e where
      "go_nth (Logs rf) (n - SnapshotLastIncludedIndex rf - 2) = Some e"
      "e_Index e = n - 1" "termAt rf (n - 1) = Some (e_Term e)" .
    with n True le show ?thesis
      by (auto simp: heartBeatArgs_def leader_sends_def entries_wf_def Let_def termAt_def)
  next
    case False
    with n have "heartBeatArgs rf i = Some \<lparr>ae_Term = CurrentTerm rf, ae_LeaderId = me rf,
        ae_PrevLogIndex = SnapshotLastIncludedIndex rf, ae_PrevLogTerm = SnapshotLastIncludedTerm rf,
        ae_Entries = [], ae_LeaderCommit = CommitIndex rf\<rparr>"
      by (simp add: heartBeatArgs_def Let_def)
    then show ?thesis by (simp add: leader_sends_def entries_wf_def termAt_def)
  qed
qed

lemma sendHeartBeat_loop_ok:
  assumes inv: "raft_inv rf" "State rf = Leader"
  shows "\<forall>i \<in> set is. i < peers rf \<Longrightarrow> \<exists>outs. sendHeartBeat_loop rf is = Some outs \<and>
     length outs = length (filter (\<lambda>i. int i \<noteq> me rf) is) \<and>
     (\<forall>out \<in> set outs. \<exists>i args. out = OutAppendEntries i args \<and> i \<noteq> me rf \<and> ae_Entries args = [] \<and> leader_sends rf args)"
proof (induction "is")
  case (Cons i "is")
  with heartBeatArgs_ok [OF inv, of "int i"] show ?case by fastforce
qed simp

lemma sendHeartBeat_ok:
  assumes "raft_inv rf" "State rf = Leader"
  shows "\<exists>outs. sendHeartBeat rf = Some outs \<and>
     (\<forall>out \<in> set outs. \<exists>i args. out = OutAppendEntries i args \<and> i \<noteq> me rf \<and> ae_Entries args = [] \<and> leader_sends rf args)"
  using sendHeartBeat_loop_ok [OF assms, of "[0..<peers rf]"] raft_invD(3) [OF assms(1)]
  by (auto simp: sendHeartBeat_def shape_inv_def)

lemma replicateLog_ok:
  assumes inv: "raft_inv rf" and i: "0 \<le> server" "server < int (peers rf)"
    and bound: "NextIndex rf ! nat server \<le> endIndex rf + 1"
  obtains (ended) "CurrentTerm rf \<noteq> leaderTerm" "replicateLog server leaderTerm rf = Some None"
  | (idle) "replicateLog server leaderTerm rf = Some (Some [])"
  | (snapshot) n where "go_nth (NextIndex rf) server = Some n" "n \<le> SnapshotLastIncludedIndex rf"
      "replicateLog server leaderTerm rf = Some (Some [OutInstallSnapshot server
         \<lparr>is_Term = CurrentTerm rf, is_LeaderId = me rf, is_LastIncludedIndex = SnapshotLastIncludedIndex rf,
          is_LastIncludedTerm = SnapshotLastIncludedTerm rf, is_Data = snapshot (persister rf)\<rparr>])"
  | (entries) n args where "go_nth (NextIndex rf) server = Some n" "SnapshotLastIncludedIndex rf < n"
      "replicateLog server leaderTerm rf = Some (Some [OutAppendEntries server args])"
      "leader_sends rf args" "ae_PrevLogIndex args = n - 1" "ae_PrevLogIndex args + len (ae_Entries args) = endIndex rf"
proof -
  note wf = raft_invD(1) [OF inv] and shape = raft_invD(3) [OF inv]
  obtain n nme where n: "go_nth (NextIndex rf) server = Some n" "go_nth (NextIndex rf) (me rf) = Some nme"
    using i shape by (simp add: go_nth_def in_range_def len_def shape_inv_def)
  have le: "n \<le> endIndex rf + 1" using n(1) bound by (auto simp: go_nth_eq_Some_iff)
  let ?snap = "SnapshotLastIncludedIndex rf" and ?es = "drop (nat (n - SnapshotLastIncludedIndex rf - 1)) (Logs rf)"
  consider "CurrentTerm rf \<noteq> leaderTerm \<or> n = nme" | "CurrentTerm rf = leaderTerm" "n \<noteq> nme" "n \<le> ?snap"
    | "CurrentTerm rf = leaderTerm" "n \<noteq> nme" "?snap < n" by linarith
  then show ?thesis
  proof cases
    case 1
    show ?thesis
    proof (cases "CurrentTerm rf = leaderTerm")
      case True
      with 1 n have "replicateLog server leaderTerm rf = Some (Some [])" by (simp add: replicateLog_def)
      then show ?thesis by (rule idle)
    next
      case False
      then have "replicateLog server leaderTerm rf = Some None" by (simp add: replicateLog_def)
      with False show ?thesis by (rule ended)
    qed
  next
    case 2
    with n show ?thesis by (simp add: snapshot [OF n(1)] replicateLog_def)
  next
    case 3
    define pt where "pt = the (termAt rf (n - 1))"
    let ?args = "\<lparr>ae_Term = CurrentTerm rf, ae_LeaderId = me rf, ae_PrevLogIndex = n - 1, ae_PrevLogTerm = pt,
      ae_Entries = ?es, ae_LeaderCommit = CommitIndex rf\<rparr>"
    have es: "go_from (Logs rf) (n - ?snap - 1) = Some ?es" using 3 le by (simp add: go_from_Some)
    have out: "replicateLog server leaderTerm rf = Some (Some [OutAppendEntries server ?args]) \<and> termAt rf (n - 1) = Some pt"
    proof (cases "n = ?snap + 1")
      case True
      with 3 n es show ?thesis by (simp add: replicateLog_def Let_def pt_def termAt_def)
    next
      case False
      with 3 have "?snap + 1 < n" by simp
      from prev_entry [OF wf this le] obtain e where "go_nth (Logs rf) (n - ?snap - 2) = Some e"
        "e_Index e = n - 1" "termAt rf (n - 1) = Some (e_Term e)" .
      with 3 n es False show ?thesis by (simp add: replicateLog_def Let_def pt_def)
    qed
    have "nat (n + int k - ?snap - 1) = nat (n - ?snap - 1) + k" for k using 3(3) by linarith
    then have "leader_sends rf ?args"
      using out 3(3) le wf
      by (auto simp: leader_sends_def entries_wf_def log_wf_nth entryAt_def go_nth_def in_range_def len_def)
    moreover have "len ?es = endIndex rf - (n - 1)" using 3(3) le by (simp add: len_def)
    ultimately show ?thesis using entries [OF n(1) 3(3), of ?args] out by simp
  qed
qed

text \<open>
  The goroutine reads past the end of the log only when the index it is to send from lies there. It
  goes on after the peer has stepped down within the term, and only then that can happen.
\<close>

lemma replicateLog_None:
  assumes inv: "raft_inv rf" and i: "0 \<le> server" "server < int (peers rf)"
  shows "replicateLog server leaderTerm rf = None \<longleftrightarrow> State rf \<noteq> Leader \<and> CurrentTerm rf = leaderTerm \<and>
    NextIndex rf ! nat server \<noteq> NextIndex rf ! nat (me rf) \<and> endIndex rf + 1 < NextIndex rf ! nat server"
proof (cases "NextIndex rf ! nat server \<le> endIndex rf + 1")
  case True
  with inv i have "replicateLog server leaderTerm rf \<noteq> None"
    by (cases rule: replicateLog_ok [of rf server leaderTerm]) auto
  with True show ?thesis by simp
next
  case False
  have n: "go_nth (NextIndex rf) server = Some (NextIndex rf ! nat server)"
    "go_nth (NextIndex rf) (me rf) = Some (NextIndex rf ! nat (me rf))"
    using i raft_invD(3) [OF inv] by (simp_all add: go_nth_def in_range_def len_def shape_inv_def)
  with False leader_next [OF inv] have "State rf \<noteq> Leader" by blast
  moreover have "\<not> NextIndex rf ! nat server \<le> SnapshotLastIncludedIndex rf"
    using False len_nonneg [of "Logs rf"] by linarith
  ultimately show ?thesis
    using n False by (auto simp: replicateLog_def go_from_def go_slice_def)
qed

lemma replicateLog_sends:
  assumes "raft_inv rf" "0 \<le> server" "server < int (peers rf)" "replicateLog server leaderTerm rf = Some (Some outs)"
    "out \<in> set outs"
  shows "sound_out rf out" "CurrentTerm rf = leaderTerm"
proof -
  show cur: "CurrentTerm rf = leaderTerm" using assms(4) by (auto simp: replicateLog_def split: if_splits)
  show "sound_out rf out"
  proof (cases "NextIndex rf ! nat server \<le> endIndex rf + 1")
    case True
    with assms(1-3) show ?thesis
      by (cases rule: replicateLog_ok [of rf server leaderTerm]) (use assms(4,5) in auto)
  next
    case False
    have n: "go_nth (NextIndex rf) server = Some (NextIndex rf ! nat server)"
      "go_nth (NextIndex rf) (me rf) = Some (NextIndex rf ! nat (me rf))"
      using assms raft_invD(3) [OF assms(1)] by (simp_all add: go_nth_def in_range_def len_def shape_inv_def)
    from False replicateLog_None [OF assms(1-3), of leaderTerm] assms(4) leader_next [OF assms(1) _ n(1)] cur
    have "NextIndex rf ! nat server = NextIndex rf ! nat (me rf)" by auto
    with n cur assms(4,5) show ?thesis by (simp add: replicateLog_def)
  qed
qed

section \<open>Elections won\<close>

lemma becomeLeader_ok:
  assumes inv: "raft_inv rf"
  obtains outs rf' where "becomeLeader (rf\<lparr>State := Leader\<rparr>) = Some (rf', outs)" "raft_inv rf'"
    "\<forall>out \<in> set outs. sound_out rf' out"
    "rf' = rf\<lparr>MatchIndex := map (\<lambda>j. if int j \<noteq> me rf then 0 else endIndex rf) [0..<peers rf],
      NextIndex := replicate (peers rf) (endIndex rf + 1), State := Leader\<rparr>"
proof -
  let ?rf = "rf\<lparr>MatchIndex := map (\<lambda>j. if int j \<noteq> me rf then 0 else endIndex rf) [0..<peers rf],
      NextIndex := replicate (peers rf) (endIndex rf + 1), State := Leader\<rparr>"
  from inv have inv': "raft_inv ?rf"
    by (simp add: raft_inv_def log_wf_def index_inv_def shape_inv_def leader_inv_def)
  from sendHeartBeat_ok [OF this] obtain outs where "sendHeartBeat ?rf = Some outs"
    "\<forall>out \<in> set outs. sound_out ?rf out" by fastforce
  moreover have "log_wf (rf\<lparr>State := Leader\<rparr>)" "shape_inv (rf\<lparr>State := Leader\<rparr>)"
    using inv by (simp_all add: raft_inv_def log_wf_def shape_inv_def)
  then have "initIndices [0..<length (NextIndex rf)] (rf\<lparr>State := Leader\<rparr>) = Some ?rf"
    using initIndices_new [of "rf\<lparr>State := Leader\<rparr>"] by (simp cong: if_cong)
  ultimately show ?thesis using that [OF _ inv' _ refl] by (auto simp: becomeLeader_def ball_Un)
qed

lemma electionReply_cases:
  assumes inv: "raft_inv rf"
  obtains (none) el' where "electionReply ok reply el rf = Some (el', rf, [])" "el_args el' = el_args el"
      "el_done el' = el_done el"
  | (won) rf' outs where "ok" "rvr_VoteGranted reply" "\<not> el_done el" "Half rf < votes el + 1"
      "CurrentTerm rf = rv_Term (el_args el)"
      "electionReply ok reply el rf = Some (el\<lparr>votes := votes el + 1, el_done := True\<rparr>, rf', outs)" "raft_inv rf'"
      "\<forall>out \<in> set outs. sound_out rf' out"
      "rf' = rf\<lparr>MatchIndex := map (\<lambda>j. if int j \<noteq> me rf then 0 else endIndex rf) [0..<peers rf],
        NextIndex := replicate (peers rf) (endIndex rf + 1), State := Leader\<rparr>"
  | (down) "electionReply ok reply el rf = Some (el, stepDown (rvr_Term reply) rf, [])"
      "CurrentTerm rf < rvr_Term reply"
proof (cases "ok \<and> rvr_VoteGranted reply \<and> \<not> el_done el \<and> Half rf < votes el + 1 \<and> CurrentTerm rf = rv_Term (el_args el)")
  case True
  from inv obtain rf' outs where "becomeLeader (rf\<lparr>State := Leader\<rparr>) = Some (rf', outs)" "raft_inv rf'"
    "\<forall>out \<in> set outs. sound_out rf' out"
    "rf' = rf\<lparr>MatchIndex := map (\<lambda>j. if int j \<noteq> me rf then 0 else endIndex rf) [0..<peers rf],
        NextIndex := replicate (peers rf) (endIndex rf + 1), State := Leader\<rparr>"
    by (rule becomeLeader_ok)
  with True show ?thesis by (intro won) (simp_all add: electionReply_def)
next
  case False
  then have "(\<exists>el'. electionReply ok reply el rf = Some (el', rf, []) \<and> el_args el' = el_args el \<and> el_done el' = el_done el) \<or>
    (electionReply ok reply el rf = Some (el, stepDown (rvr_Term reply) rf, []) \<and> CurrentTerm rf < rvr_Term reply)"
    by (auto simp: electionReply_def Let_def)
  then show ?thesis by (blast intro: none down)
qed

lemma electionReply_inv:
  assumes "raft_inv rf" "electionReply ok reply el rf = Some (el', rf', outs)"
  shows "raft_inv rf'"
  using assms(1) by (cases rule: electionReply_cases [of rf ok reply el]) (use assms in \<open>auto intro: stepDown_inv\<close>)

lemma ticker_cases:
  assumes "raft_inv rf"
  obtains (same) outs where "ticker ev rf = Some (rf, outs, None)"
      "\<forall>out \<in> set outs. State rf = Leader \<and> sound_out rf out"
  | (started) el outs where "ticker ev rf = Some (fst (prepareElection ev rf), outs, Some el)"
      "\<forall>out \<in> set outs. \<exists>i args. out = OutRequestVote i args"
      "State rf \<noteq> Leader" "electionExpired ev rf" "el_args el = fst (snd (prepareElection ev rf))" "votes el = 1" "\<not> el_done el"
proof (cases "State rf = Leader")
  case True
  with sendHeartBeat_ok [OF assms] obtain outs where "sendHeartBeat rf = Some outs"
    "\<forall>out \<in> set outs. sound_out rf out" by fastforce
  with True show ?thesis by (intro same) (simp_all add: ticker_def)
next
  case False
  then have "ticker ev rf = Some (rf, [], None) \<or>
    (electionExpired ev rf \<and> (\<exists>el outs. ticker ev rf = Some (fst (prepareElection ev rf), outs, Some el) \<and>
      (\<forall>out \<in> set outs. \<exists>i args. out = OutRequestVote i args) \<and>
      el_args el = fst (snd (prepareElection ev rf)) \<and> votes el = 1 \<and> \<not> el_done el))"
    by (cases "State rf") (auto simp: ticker_def issueLeaderElection_def prepareElection_def Let_def)
  with False show ?thesis by (auto intro: same started)
qed

lemma ticker_inv: "raft_inv rf \<Longrightarrow> ticker ev rf = Some (rf', outs, el) \<Longrightarrow> raft_inv rf'"
  by (cases rule: ticker_cases [of rf ev]) (auto intro: prepareElection_inv)

section \<open>Commitment\<close>

text \<open>A majority of the servers is known to hold the log up to \<open>index\<close>.\<close>

definition majorityAt :: "('c, 'w) Raft \<Rightarrow> int \<Rightarrow> bool" where
  "majorityAt rf index \<longleftrightarrow> Half rf < int (card {j. j < peers rf \<and> index \<le> MatchIndex rf ! j})"

lemma countMatch_spec:
  "\<forall>j \<in> set js. j < length (MatchIndex rf) \<Longrightarrow> \<exists>c. countMatch rf index js cnt = Some c \<and>
     (Half rf < c \<longleftrightarrow> Half rf < cnt + int (length (filter (\<lambda>j. index \<le> MatchIndex rf ! j) js)))"
proof (induction js arbitrary: cnt)
  case (Cons j js)
  then have m: "go_nth (MatchIndex rf) (int j) = Some (MatchIndex rf ! j)"
    by (simp add: go_nth_def in_range_def len_def)
  let ?cnt = "if index \<le> MatchIndex rf ! j then cnt + 1 else cnt"
  from Cons obtain c where "countMatch rf index js ?cnt = Some c"
    "Half rf < c \<longleftrightarrow> Half rf < ?cnt + int (length (filter (\<lambda>j. index \<le> MatchIndex rf ! j) js))"
    by (metis list.set_intros(2))
  with m show ?case by (cases "Half rf < ?cnt") (auto simp: Let_def)
qed simp

lemma countMatch_majority:
  assumes "shape_inv rf"
  obtains c where "countMatch rf index [0..<peers rf] 0 = Some c" "Half rf < c \<longleftrightarrow> majorityAt rf index"
proof -
  have "length (filter (\<lambda>j. index \<le> MatchIndex rf ! j) [0..<peers rf]) =
      card (set (filter (\<lambda>j. index \<le> MatchIndex rf ! j) [0..<peers rf]))"
    by (simp add: distinct_card del: set_filter)
  also have "\<dots> = card {j. j < peers rf \<and> index \<le> MatchIndex rf ! j}"
    by (rule arg_cong [where f = card]) auto
  finally show ?thesis
    using countMatch_spec [of "[0..<peers rf]" rf index 0] assms that
    by (auto simp: shape_inv_def majorityAt_def)
qed

text \<open>
  The indices the scan may commit: held by a majority, and every entry from there to the end of the
  log is of the leader's own term.
\<close>

definition committable :: "int \<Rightarrow> ('c, 'w) Raft \<Rightarrow> nat \<Rightarrow> nat \<Rightarrow> bool" where
  "committable leaderTerm rf n i \<longleftrightarrow> i < n \<and> majorityAt rf (e_Index (Logs rf ! i)) \<and>
     (\<forall>k. i \<le> k \<and> k < n \<longrightarrow> e_Term (Logs rf ! k) = leaderTerm)"

lemma commitScan_spec:
  assumes shape: "shape_inv rf"
  shows "n \<le> length (Logs rf) \<Longrightarrow>
    (commitScan leaderTerm rf n = Some rf \<and> (\<forall>i. \<not> committable leaderTerm rf n i)) \<or>
    (\<exists>i. committable leaderTerm rf n i \<and> (\<forall>k. committable leaderTerm rf n k \<longrightarrow> k \<le> i) \<and>
      commitScan leaderTerm rf n = Some (rf\<lparr>CommitIndex := max (CommitIndex rf) (e_Index (Logs rf ! i))\<rparr>))"
proof (induction n)
  case 0
  then show ?case by (simp add: committable_def)
next
  case (Suc n)
  then have e: "go_nth (Logs rf) (int n) = Some (Logs rf ! n)"
    by (simp add: go_nth_def in_range_def len_def)
  obtain c where c: "countMatch rf (e_Index (Logs rf ! n)) [0..<peers rf] 0 = Some c"
    "Half rf < c \<longleftrightarrow> majorityAt rf (e_Index (Logs rf ! n))"
    using countMatch_majority [OF shape] .
  have step: "committable leaderTerm rf (Suc n) i \<longleftrightarrow>
      e_Term (Logs rf ! n) = leaderTerm \<and> (committable leaderTerm rf n i \<or> i = n \<and> majorityAt rf (e_Index (Logs rf ! n)))" for i
    by (auto simp: committable_def less_Suc_eq)
  consider "e_Term (Logs rf ! n) \<noteq> leaderTerm"
    | "e_Term (Logs rf ! n) = leaderTerm" "Half rf < c" | "e_Term (Logs rf ! n) = leaderTerm" "\<not> Half rf < c" by blast
  then show ?case
  proof cases
    case 2
    with c e have "committable leaderTerm rf (Suc n) n"
      "commitScan leaderTerm rf (Suc n) = Some (rf\<lparr>CommitIndex := max (CommitIndex rf) (e_Index (Logs rf ! n))\<rparr>)"
      by (simp_all add: step)
    moreover have "k \<le> n" if "committable leaderTerm rf (Suc n) k" for k
      using that by (simp add: committable_def)
    ultimately show ?thesis by blast
  next
    case 3
    with c e have "commitScan leaderTerm rf (Suc n) = commitScan leaderTerm rf n"
      "committable leaderTerm rf (Suc n) i \<longleftrightarrow> committable leaderTerm rf n i" for i
      by (simp_all add: step)
    with Suc show ?thesis by simp
  qed (use c e in \<open>simp_all add: step\<close>)
qed

lemma updateCommitIndex_cases:
  assumes inv: "raft_inv rf" and step: "updateCommitIndex leaderTerm rf = Some (rf', goOn)"
  obtains (same) "rf' = rf" | (raised) i where "i < length (Logs rf)"
    "rf' = rf\<lparr>CommitIndex := max (CommitIndex rf) (e_Index (Logs rf ! i))\<rparr>"
proof -
  have "rf' = rf \<or> commitScan leaderTerm rf (length (Logs rf)) = Some rf'"
    using step by (auto simp: updateCommitIndex_def Option.bind_eq_Some_conv split: if_splits)
  with commitScan_spec [OF raft_invD(3) [OF inv] order_refl, of leaderTerm] show ?thesis
    by (elim disjE exE conjE) (auto simp: committable_def intro: same raised)
qed

lemma updateCommitIndex_inv:
  assumes "raft_inv rf" "updateCommitIndex leaderTerm rf = Some (rf', goOn)"
  shows "raft_inv rf'"
  using assms by (cases rule: updateCommitIndex_cases) (use assms in simp_all)

text \<open>
  C4: In a log whose terms do not decrease and do not exceed the current term, one round of
  \<open>updateCommitIndex\<close> of a leader of the current term never panics and raises \<open>CommitIndex\<close> to the
  largest index \<open>N\<close> with \<open>log[N].term = currentTerm\<close> that a majority of \<open>MatchIndex\<close> has reached,
  and to nothing else: it is the commit rule of Raft, no entry of an older term is counted.
\<close>

theorem updateCommitIndex_commit_rule:
  assumes inv: "raft_inv rf" and sorted: "sorted (map e_Term (Logs rf))"
    and le: "\<forall>e \<in> set (Logs rf). e_Term e \<le> CurrentTerm rf"
  shows "updateCommitIndex (CurrentTerm rf) rf =
     (let N = {k. termAt rf k = Some (CurrentTerm rf) \<and> SnapshotLastIncludedIndex rf < k \<and> majorityAt rf k}
      in Some (if N = {} then rf else rf\<lparr>CommitIndex := max (CommitIndex rf) (Max N)\<rparr>, True))"
proof -
  let ?n = "length (Logs rf)" and ?snap = "SnapshotLastIncludedIndex rf"
  let ?C = "committable (CurrentTerm rf) rf ?n"
  define N where "N = {k. termAt rf k = Some (CurrentTerm rf) \<and> ?snap < k \<and> majorityAt rf k}"
  note wf = raft_invD(1) [OF inv]
  have tail: "e_Term (Logs rf ! k) = CurrentTerm rf" if "e_Term (Logs rf ! i) = CurrentTerm rf" "i \<le> k" "k < ?n" for i k
    using that le sorted_nth_mono [OF sorted, of i k] by (simp add: order_antisym)
  have mem: "?snap + 1 + int i \<in> N \<longleftrightarrow> ?C i" if "i < ?n" for i
  proof -
    have "termAt rf (?snap + 1 + int i) = Some (e_Term (Logs rf ! i))" "e_Index (Logs rf ! i) = ?snap + 1 + int i"
      using that wf by (simp_all add: termAt_def entryAt_def go_nth_def in_range_def len_def log_wf_nth)
    with that show ?thesis by (auto simp: N_def committable_def intro: tail)
  qed
  have range: "\<exists>i < ?n. k = ?snap + 1 + int i" if "k \<in> N" for k
  proof -
    from that have "?snap < k" "k \<le> endIndex rf" by (auto simp: N_def termAt_def entryAt_Some_iff)
    then show ?thesis by (intro exI [of _ "nat (k - ?snap - 1)"]) (simp add: len_def)
  qed
  have "updateCommitIndex (CurrentTerm rf) rf =
      Some (if N = {} then rf else rf\<lparr>CommitIndex := max (CommitIndex rf) (Max N)\<rparr>, True)"
    using commitScan_spec [OF raft_invD(3) [OF inv] order_refl, of "CurrentTerm rf"]
  proof (elim disjE exE conjE)
    assume "commitScan (CurrentTerm rf) rf ?n = Some rf" "\<forall>i. \<not> ?C i"
    moreover from this mem have "k \<notin> N" for k using range [of k] by auto
    then have "N = {}" by blast
    ultimately show ?thesis by (simp add: updateCommitIndex_def)
  next
    fix i
    assume i: "?C i" "\<forall>k. ?C k \<longrightarrow> k \<le> i"
      "commitScan (CurrentTerm rf) rf ?n = Some (rf\<lparr>CommitIndex := max (CommitIndex rf) (e_Index (Logs rf ! i))\<rparr>)"
    then have "i < ?n" by (simp add: committable_def)
    with i mem have in_N: "?snap + 1 + int i \<in> N" by simp
    have max: "k \<le> ?snap + 1 + int i" if k: "k \<in> N" for k
    proof -
      obtain m where "m < ?n" "k = ?snap + 1 + int m" using range [OF k] by blast
      with k mem i show ?thesis by simp
    qed
    have "finite N"
      using range by (auto intro: finite_subset [of N "(\<lambda>i. ?snap + 1 + int i) ` {..<?n}"])
    with in_N max have "Max N = ?snap + 1 + int i" by (intro Max_eqI)
    with i in_N \<open>i < ?n\<close> show ?thesis by (auto simp: updateCommitIndex_def log_wf_nth [OF wf])
  qed
  then show ?thesis unfolding N_def Let_def .
qed

text \<open>A leader of term 1 with one entry that one of its two followers has acknowledged.\<close>

definition commit_demo :: "(nat, nat) Raft" where
  "commit_demo = (Make \<lparr>now = 0, rnd = 0\<rparr> 3 0 MakePersister)\<lparr>CurrentTerm := 1, State := Leader,
     Logs := [\<lparr>e_Command = 7, e_Term = 1, e_Index = 1\<rparr>], NextIndex := [2, 2, 1], MatchIndex := [1, 1, 0]\<rparr>"

lemma commit_demo_inv: "raft_inv commit_demo"
  unfolding raft_inv_def log_wf_def index_inv_def shape_inv_def leader_inv_def by code_simp

theorem updateCommitIndex_commit_rule_witness:
  "CommitIndex commit_demo = 0 \<and> map_option (CommitIndex \<circ> fst) (updateCommitIndex 1 commit_demo) = Some 1"
proof -
  have c: "CurrentTerm commit_demo = 1" "CommitIndex commit_demo = 0" "SnapshotLastIncludedIndex commit_demo = 0"
    "Half commit_demo = 1" "peers commit_demo = 3" "MatchIndex commit_demo = [1, 1, 0]"
    "Logs commit_demo = [\<lparr>e_Command = 7, e_Term = 1, e_Index = 1\<rparr>]"
    by code_simp+
  have "{j. j < 3 \<and> (1::int) \<le> [1, 1, 0] ! j} = {0, 1::nat}"
    by (auto simp: less_Suc_eq numeral_3_eq_3)
  then have "majorityAt commit_demo 1" by (simp add: majorityAt_def c)
  then have N: "{k. termAt commit_demo k = Some (CurrentTerm commit_demo) \<and> SnapshotLastIncludedIndex commit_demo < k \<and>
      majorityAt commit_demo k} = {1}"
    by (auto simp: c termAt_def entryAt_def go_nth_def in_range_def)
  show ?thesis
    using updateCommitIndex_commit_rule [OF commit_demo_inv] unfolding N Let_def by (simp add: c)
qed

end
