(* ===== verification/Raft_Persist.thy ===== *)
theory Raft_Persist
  imports Raft_Leader
begin

text \<open>
  The persistent state of a peer and its recovery after a crash. The stream of \<open>persist\<close> is a
  \<open>codec\<close>; \<open>disk_inv\<close> relates what is on disk with what is in memory and is kept by every operation;
  \<open>Raft_Steps\<close> collects the operations of a peer into runs, crashes and restarts included.
\<close>

section \<open>The persistent state as a codec\<close>

interpretation raft_codec: codec "\<lambda>(t, l, v, si, st). raft_stream t l v si st" decode_raft
  by unfold_locales
    (auto simp: raft_stream_def decode_raft_def Encode_def split: prod.splits)

lemma decode_raft_stream [simp]: "decode_raft (raft_stream t l v si st) = Some (t, l, v, si, st)"
  using raft_codec.dec_enc [of "(t, l, v, si, st)"] by simp

lemma raft_stream_not_Nil [simp]: "raft_stream t l v si st \<noteq> []"
  using raft_codec.enc_not_Nil [of "(t, l, v, si, st)"] by simp

lemma decode_raft_Nil [simp]: "decode_raft [] = None"
  by (simp add: decode_raft_def Decode_def)

text \<open>What a restart would read: the initial values of \<open>Make\<close> if there is nothing to decode.\<close>

definition savedState :: "('c raft_gob, 'w) Persister \<Rightarrow> int \<times> 'c RaftLogEntry list \<times> int \<times> int \<times> int" where
  "savedState ps = (case decode_raft (raftstate ps) of None \<Rightarrow> (0, [], -1, 0, 0) | Some s \<Rightarrow> s)"

lemma savedState_simps [simp]:
  "savedState MakePersister = (0, [], -1, 0, 0)"
  "savedState (SaveRaftState (raft_stream t l v si st) ps) = (t, l, v, si, st)"
  "savedState (SaveStateAndSnapshot (raft_stream t l v si st) sn ps) = (t, l, v, si, st)"
  by (simp_all add: savedState_def MakePersister_def)

lemma savedState_persist [simp]:
  "savedState (persister (persist rf)) =
     (CurrentTerm rf, Logs rf, VotedFor rf, SnapshotLastIncludedIndex rf, SnapshotLastIncludedTerm rf)"
  by (simp add: persist_def)

lemma Make_eq:
  assumes "savedState ps = (t, l, v, si, st)"
  shows "Make ev n i ps =
    \<lparr>peers = n, persister = ps, me = i, dead = 0, snapshotMsg = ApplyMsg0,
     CurrentTerm = t, VotedFor = v, Logs = l, CommitIndex = si, LastApplied = si,
     NextIndex = replicate n 0, MatchIndex = replicate n 0, State = Follower,
     LastReceive = now ev, ElectionTimeout = randElectionTimeout (rnd ev),
     Half = int n div 2, TotalNum = int n, LeaderTerm = -1, LastNewEntryIndex = 0,
     SnapshotLastIncludedIndex = si, SnapshotLastIncludedTerm = st\<rparr>"
  using assms
  by (cases "raftstate ps = []")
    (auto simp: Make_def readPersist_def savedState_def ReadRaftState_def clone_def split: option.splits)

section \<open>Disk and memory\<close>

text \<open>
  The log and the snapshot index on disk are those in memory; the term on disk is not ahead of the
  one in memory; a vote that is in memory is on disk, with its term.
\<close>

definition disk_inv :: "('c, 'w) Raft \<Rightarrow> bool" where
  "disk_inv rf \<longleftrightarrow> (case savedState (persister rf) of (t, l, v, si, st) \<Rightarrow>
     l = Logs rf \<and> si = SnapshotLastIncludedIndex rf \<and> t \<le> CurrentTerm rf \<and>
     (VotedFor rf \<noteq> -1 \<longrightarrow> t = CurrentTerm rf \<and> v = VotedFor rf))"

lemma disk_inv_persist [simp]: "disk_inv (persist rf)"
  by (simp add: disk_inv_def)

lemma disk_inv_frame [simp]:
  "disk_inv (rf\<lparr>State := r\<rparr>) = disk_inv rf" "disk_inv (rf\<lparr>CommitIndex := c\<rparr>) = disk_inv rf"
  "disk_inv (rf\<lparr>LastApplied := c\<rparr>) = disk_inv rf" "disk_inv (rf\<lparr>LastNewEntryIndex := c\<rparr>) = disk_inv rf"
  "disk_inv (rf\<lparr>NextIndex := ni\<rparr>) = disk_inv rf" "disk_inv (rf\<lparr>MatchIndex := ni\<rparr>) = disk_inv rf"
  "disk_inv (rf\<lparr>snapshotMsg := m\<rparr>) = disk_inv rf" "disk_inv (rf\<lparr>dead := d\<rparr>) = disk_inv rf"
  by (simp_all add: disk_inv_def)

lemma disk_inv_cong:
  "persister rf' = persister rf \<Longrightarrow> Logs rf' = Logs rf \<Longrightarrow>
   SnapshotLastIncludedIndex rf' = SnapshotLastIncludedIndex rf \<Longrightarrow> CurrentTerm rf \<le> CurrentTerm rf' \<Longrightarrow>
   VotedFor rf' = -1 \<or> VotedFor rf' = VotedFor rf \<and> CurrentTerm rf' = CurrentTerm rf \<Longrightarrow>
   disk_inv rf \<Longrightarrow> disk_inv rf'"
  by (auto simp: disk_inv_def split: prod.splits)

lemma stepDown_disk [simp]: "disk_inv (stepDown t rf)"
  by (simp add: stepDown_def)

lemma prepareElection_disk [simp]: "disk_inv (fst (prepareElection ev rf))"
  by (simp add: prepareElection_def Let_def)

lemma acceptLeader_disk: "disk_inv rf \<Longrightarrow> disk_inv (fst (acceptLeader ev t rf))"
  by (rule disk_inv_cong [of _ rf]) (auto simp: acceptLeader_eq newLeader_def)

lemma acceptedState_disk: "disk_inv rf \<Longrightarrow> disk_inv (acceptedState ev args j rf)"
proof (cases "newLeader (ae_Term args) rf \<or> j < length (ae_Entries args)")
  case True
  then show ?thesis by (simp add: acceptedState_def Let_def)
next
  case False
  assume "disk_inv rf"
  show ?thesis
    by (rule disk_inv_cong [OF _ _ _ _ _ \<open>disk_inv rf\<close>])
      (use False in \<open>auto simp: acceptedState_def Let_def acceptLeader_eq newLeader_def mergedLog_def\<close>)
qed

lemma AppendEntries_disk:
  "disk_inv rf \<Longrightarrow> AppendEntries ev args rf = Some (rf', reply) \<Longrightarrow> disk_inv rf'"
  by (cases rule: AppendEntries_outcome [of args rf ev]) (auto intro: acceptLeader_disk acceptedState_disk)

lemma RequestVote_disk: "disk_inv rf \<Longrightarrow> disk_inv (fst (RequestVote ev args rf))"
  by (simp add: RequestVote_def Let_def)

lemma Start_disk: "disk_inv rf \<Longrightarrow> Start command rf = Some (rf', res) \<Longrightarrow> disk_inv rf'"
  by (auto simp: Start_def Let_def Option.bind_eq_Some_conv split: if_splits)

lemma Snapshot_disk:
  assumes "log_wf rf" "disk_inv rf" "Snapshot index snap rf = Some rf'"
  shows "disk_inv rf'"
proof (cases "SnapshotLastIncludedIndex rf \<le> index")
  case True
  with assms Snapshot_eq [OF assms(1) True, of snap] show ?thesis by (auto simp: disk_inv_def)
next
  case False
  with assms show ?thesis by (simp add: Snapshot_def)
qed

lemma InstallSnapshot_disk:
  assumes wf: "log_wf rf" and disk: "disk_inv rf" and step: "InstallSnapshot ev args rf = Some (rf', reply)"
  shows "disk_inv rf'"
proof (cases "CurrentTerm rf \<le> is_Term args")
  case True
  note eq = InstallSnapshot_eq [OF wf True, of ev]
  show ?thesis
  proof (cases "SnapshotLastIncludedIndex rf \<ge> is_LastIncludedIndex args \<or>
      am_SnapshotIndex (snapshotMsg rf) > is_LastIncludedIndex args")
    case True
    with eq step have "rf' = persist (fst (acceptLeader ev (is_Term args) rf))" by simp
    then show ?thesis by simp
  next
    case False
    from eq [unfolded if_not_P [OF False]] step show ?thesis by (auto simp: disk_inv_def)
  qed
next
  case False
  with assms show ?thesis by (simp add: InstallSnapshot_def)
qed

lemma sendAppendEntries_disk:
  assumes "disk_inv rf" "sendAppendEntries server args reply ok rf = Some (rf', res)"
  shows "disk_inv rf'"
  using assms(2) by (cases rule: sendAppendEntries_cases) (use assms(1) in simp_all)

lemma sendInstallSnapshot_disk:
  assumes "disk_inv rf" "sendInstallSnapshot server args reply ok rf = Some (rf', res)"
  shows "disk_inv rf'"
  using assms(2) by (cases rule: sendInstallSnapshot_cases) (use assms(1) in simp_all)

lemma electionReply_disk:
  assumes inv: "raft_inv rf" and "disk_inv rf" "electionReply ok reply el rf = Some (el', rf', outs)"
  shows "disk_inv rf'"
  using inv by (cases rule: electionReply_cases [of rf ok reply el]) (use assms in auto)

lemma ticker_disk:
  assumes inv: "raft_inv rf" and "disk_inv rf" "ticker ev rf = Some (rf', outs, el)"
  shows "disk_inv rf'"
  using inv by (cases rule: ticker_cases [of rf ev]) (use assms in auto)

lemma updateCommitIndex_disk:
  assumes "raft_inv rf" "disk_inv rf" "updateCommitIndex leaderTerm rf = Some (rf', goOn)"
  shows "disk_inv rf'"
  using assms(1,3) by (cases rule: updateCommitIndex_cases) (use assms(2) in simp_all)

lemma applyLog_disk:
  "disk_inv rf \<Longrightarrow> applyLog_collect rf = Some (rf', logs, msgs) \<Longrightarrow> disk_inv rf'"
  "disk_inv rf \<Longrightarrow> disk_inv (applyLog_finish logs rf)"
  by (auto simp: applyLog_collect_def applyLog_finish_def Let_def Option.bind_eq_Some_conv)

lemma Make_disk: "disk_inv (Make ev n i ps)"
  by (cases "savedState ps") (simp add: Make_eq disk_inv_def)

section \<open>Services that restart from a snapshot\<close>

text \<open>
  A service hands its snapshot to Raft, the peer restarts from its disk, and the service hands the
  snapshot it reads there to the new peer: nothing fails and delivery resumes after the snapshot.
\<close>

lemma disk_snapshot:
  assumes "log_wf rf" "SnapshotLastIncludedIndex rf \<le> index" "Snapshot index snap rf = Some rf'"
  shows "ReadSnapshot (persister rf') = snap" "savedState (persister rf') =
    (CurrentTerm rf, trimmedLog index rf, VotedFor rf, index, trimmedTerm index rf)"
  using assms(3) Snapshot_eq [OF assms(1,2), of snap] by auto

lemma snapshot_restart:
  assumes wf: "log_wf rf" and le: "SnapshotLastIncludedIndex rf \<le> index"
  shows "\<exists>rf1 rf2. Snapshot index snap rf = Some rf1 \<and> ReadSnapshot (persister rf1) = snap \<and>
    Snapshot index snap (Make ev n i (persister rf1)) = Some rf2 \<and> LastApplied rf2 = index"
proof -
  obtain rf1 where rf1: "Snapshot index snap rf = Some rf1" using Snapshot_eq [OF wf le] by simp
  note disk = disk_snapshot [OF wf le rf1]
  let ?make = "Make ev n i (persister rf1)"
  have make: "log_wf ?make" "SnapshotLastIncludedIndex ?make = index" "LastApplied ?make = index"
    using trimmed_wf [OF wf le, of ?make] by (simp_all add: Make_eq [OF disk(2)])
  then obtain rf2 where "Snapshot index snap ?make = Some rf2" "LastApplied rf2 = index"
    using Snapshot_eq [of ?make index snap] by simp
  with rf1 disk(1) show ?thesis by blast
qed

end
