(* ===== verification/Raft_Steps.thy ===== *)
theory Raft_Steps
  imports Raft_Persist
begin

text \<open>
  The runs of a peer. A \<open>peer\<close> is the state of raft.go together with what its goroutines hold: the
  requests it has sent since it was started and the elections it has begun. \<open>peer_step\<close> has one rule
  per operation; \<open>peer_reach\<close> adds the traffic between the peers of a group of \<open>n\<close> and crashes. A peer
  receives the \<open>AppendEntries\<close> that some peer of the group has sent in some run, and the replies such
  a peer gives to a request of its own; every other argument (votes, snapshots, commands, clocks,
  the order of everything) is arbitrary. A restart runs \<open>Make\<close> on the persister that is left.
\<close>

section \<open>Steps and runs\<close>

record ('c, 'w) peer =
  peer_rf :: "('c, 'w) Raft"
  ae_sent :: "'c AppendEntriesArgs set"
  is_sent :: "'w InstallSnapshotArg set"
  running :: "int \<Rightarrow> election option"

definition newPeer :: "('c, 'w) Raft \<Rightarrow> ('c, 'w) peer" where
  "newPeer rf = \<lparr>peer_rf = rf, ae_sent = {}, is_sent = {}, running = Map.empty\<rparr>"

definition send_outs :: "('c, 'w) raft_out list \<Rightarrow> ('c, 'w) peer \<Rightarrow> ('c, 'w) peer" where
  "send_outs outs p = p\<lparr>ae_sent := ae_sent p \<union> {args. \<exists>i. OutAppendEntries i args \<in> set outs},
     is_sent := is_sent p \<union> {args. \<exists>i. OutInstallSnapshot i args \<in> set outs}\<rparr>"

inductive peer_step :: "('c, 'w) peer \<Rightarrow> ('c, 'w) peer \<Rightarrow> bool" where
  install_snapshot: "InstallSnapshot ev isArgs (peer_rf p) = Some (rf', isReply) \<Longrightarrow> peer_step p (p\<lparr>peer_rf := rf'\<rparr>)"
| request_vote: "peer_step p (p\<lparr>peer_rf := fst (RequestVote ev rvArgs (peer_rf p))\<rparr>)"
| start_command: "Start command (peer_rf p) = Some (rf', res) \<Longrightarrow> peer_step p (p\<lparr>peer_rf := rf'\<rparr>)"
| take_snapshot: "Snapshot index snap (peer_rf p) = Some rf' \<Longrightarrow> peer_step p (p\<lparr>peer_rf := rf'\<rparr>)"
| apply_collect: "applyLog_collect (peer_rf p) = Some (rf', logs, msgs) \<Longrightarrow> peer_step p (p\<lparr>peer_rf := rf'\<rparr>)"
| apply_finish: "peer_step p (p\<lparr>peer_rf := applyLog_finish logs (peer_rf p)\<rparr>)"
| commit: "updateCommitIndex leaderTerm (peer_rf p) = Some (rf', goOn) \<Longrightarrow> peer_step p (p\<lparr>peer_rf := rf'\<rparr>)"
| kill: "peer_step p (p\<lparr>peer_rf := Kill (peer_rf p)\<rparr>)"
| tick: "ticker ev (peer_rf p) = Some (rf', outs, None) \<Longrightarrow> peer_step p (send_outs outs (p\<lparr>peer_rf := rf'\<rparr>))"
| tick_election: "ticker ev (peer_rf p) = Some (rf', outs, Some el) \<Longrightarrow>
    peer_step p (send_outs outs (p\<lparr>peer_rf := rf', running := (running p)(rv_Term (el_args el) \<mapsto> el)\<rparr>))"
| election_reply: "running p t = Some el \<Longrightarrow> electionReply ok rvReply el (peer_rf p) = Some (el', rf', outs) \<Longrightarrow>
    peer_step p (send_outs outs (p\<lparr>peer_rf := rf', running := (running p)(t \<mapsto> el')\<rparr>))"
| replicate: "running p t = Some el \<Longrightarrow> el_done el \<Longrightarrow> 0 \<le> server \<Longrightarrow> server < int (peers (peer_rf p)) \<Longrightarrow>
    replicateLog server t (peer_rf p) = Some (Some outs) \<Longrightarrow> peer_step p (send_outs outs p)"

inductive peer_reach :: "nat \<Rightarrow> int \<Rightarrow> ('c, 'w) peer \<Rightarrow> bool" for n where
  boot: "0 \<le> i \<Longrightarrow> i < int n \<Longrightarrow> peer_reach n i (newPeer (Make ev n i MakePersister))"
| restart: "peer_reach n i p \<Longrightarrow> peer_reach n i (newPeer (Make ev n i (persister (peer_rf p))))"
| local: "peer_reach n i p \<Longrightarrow> peer_step p p' \<Longrightarrow> peer_reach n i p'"
| append_entries: "peer_reach n i p \<Longrightarrow> peer_reach n j q \<Longrightarrow> args \<in> ae_sent q \<Longrightarrow>
    AppendEntries ev args (peer_rf p) = Some (rf', reply) \<Longrightarrow> peer_reach n i (p\<lparr>peer_rf := rf'\<rparr>)"
| append_reply: "peer_reach n i p \<Longrightarrow> peer_reach n j q \<Longrightarrow> args \<in> ae_sent p \<Longrightarrow>
    AppendEntries ev args (peer_rf q) = Some (rf0, reply) \<Longrightarrow>
    sendAppendEntries server args reply True (peer_rf p) = Some (rf', r) \<Longrightarrow> peer_reach n i (p\<lparr>peer_rf := rf'\<rparr>)"
| append_lost: "peer_reach n i p \<Longrightarrow> args \<in> ae_sent p \<Longrightarrow>
    sendAppendEntries server args AppendEntriesReply0 False (peer_rf p) = Some (rf', r) \<Longrightarrow> peer_reach n i (p\<lparr>peer_rf := rf'\<rparr>)"
| install_reply: "peer_reach n i p \<Longrightarrow> isArgs \<in> is_sent p \<Longrightarrow>
    sendInstallSnapshot server isArgs isReply ok (peer_rf p) = Some (rf', r) \<Longrightarrow> peer_reach n i (p\<lparr>peer_rf := rf'\<rparr>)"

definition raft_reach :: "nat \<Rightarrow> int \<Rightarrow> ('c, 'w) Raft \<Rightarrow> bool" where
  "raft_reach n i rf \<longleftrightarrow> (\<exists>p. peer_reach n i p \<and> peer_rf p = rf)"

section \<open>What an operation keeps of a leadership\<close>

text \<open>
  No operation but a won election makes a leader, and a leader that stays one keeps its term and its
  log; its \<open>MatchIndex\<close> never passes the end of the log.
\<close>

definition match_inv :: "('c, 'w) Raft \<Rightarrow> bool" where
  "match_inv rf \<longleftrightarrow> (State rf = Leader \<longrightarrow> (\<forall>m \<in> set (MatchIndex rf). m \<le> endIndex rf))"

definition keeps :: "('c, 'w) Raft \<Rightarrow> ('c, 'w) Raft \<Rightarrow> bool" where
  "keeps rf rf' \<longleftrightarrow> CurrentTerm rf \<le> CurrentTerm rf' \<and>
     (State rf' = Leader \<longrightarrow> State rf = Leader \<and> CurrentTerm rf' = CurrentTerm rf \<and> endIndex rf \<le> endIndex rf' \<and>
       (\<forall>m \<in> set (MatchIndex rf'). m \<in> set (MatchIndex rf) \<or> m \<le> endIndex rf'))"

lemma keeps_match: "keeps rf rf' \<Longrightarrow> match_inv rf \<Longrightarrow> match_inv rf'"
  by (fastforce simp: keeps_def match_inv_def)

lemma keeps_refl [simp]: "keeps rf rf"
  by (simp add: keeps_def)

lemma keeps_frame [simp]:
  "keeps rf (rf\<lparr>snapshotMsg := m\<rparr>)" "keeps rf (rf\<lparr>LastApplied := k\<rparr>)" "keeps rf (rf\<lparr>CommitIndex := k\<rparr>)"
  "keeps rf (rf\<lparr>dead := d\<rparr>)" "keeps rf (rf\<lparr>NextIndex := ni\<rparr>)"
  by (simp_all add: keeps_def)

lemma stepDown_keeps [simp]: "CurrentTerm rf \<le> t \<Longrightarrow> keeps rf (stepDown t rf)"
  by (simp add: keeps_def stepDown_def)

lemma acceptLeader_keeps: "CurrentTerm rf \<le> t \<Longrightarrow> keeps rf (fst (acceptLeader ev t rf))"
  by (simp add: keeps_def acceptLeader_eq)

lemma follower_keeps: "CurrentTerm rf \<le> CurrentTerm rf' \<Longrightarrow> State rf' = Follower \<Longrightarrow> keeps rf rf'"
  by (simp add: keeps_def)

lemma AppendEntries_keeps: "AppendEntries ev args rf = Some (rf', reply) \<Longrightarrow> keeps rf rf'"
  by (cases rule: AppendEntries_outcome [of args rf ev]) (auto intro: acceptLeader_keeps follower_keeps)

lemma InstallSnapshot_keeps:
  assumes "log_wf rf" "InstallSnapshot ev args rf = Some (rf', reply)"
  shows "keeps rf rf'"
proof (cases "CurrentTerm rf \<le> is_Term args")
  case True
  have "CurrentTerm rf \<le> CurrentTerm (fst (acceptLeader ev (is_Term args) rf))"
    using True by (simp add: acceptLeader_eq)
  with assms(2) InstallSnapshot_eq [OF assms(1) True, of ev] show ?thesis
    by (auto intro!: follower_keeps split: if_splits)
qed (use assms in \<open>simp add: InstallSnapshot_def\<close>)

lemma RequestVote_keeps: "keeps rf (fst (RequestVote ev args rf))"
  by (simp add: keeps_def RequestVote_def Let_def stepDown_def)

lemma Start_keeps:
  assumes "raft_inv rf" "Start command rf = Some (rf', res)"
  shows "keeps rf rf'"
proof (cases "State rf = Leader")
  case True
  with assms Start_leader [OF assms(1) True, of command] show ?thesis
    using set_update_subset_insert [of "MatchIndex rf" "nat (me rf)" "endIndex rf + 1"] by (auto simp: keeps_def)
qed (use assms in \<open>simp add: Start_def\<close>)

lemma Snapshot_keeps:
  assumes "log_wf rf" "Snapshot index snap rf = Some rf'"
  shows "keeps rf rf'"
proof (cases "SnapshotLastIncludedIndex rf \<le> index")
  case True
  with assms(2) Snapshot_eq [OF assms(1) True, of snap] trimmed_endIndex [OF True] show ?thesis
    by (auto simp: keeps_def)
qed (use assms in \<open>simp add: Snapshot_def\<close>)

lemma applyLog_keeps:
  "applyLog_collect rf = Some (rf', logs, msgs) \<Longrightarrow> keeps rf rf'" "keeps rf (applyLog_finish logs rf)"
  by (auto simp: applyLog_collect_def applyLog_finish_def Let_def Option.bind_eq_Some_conv)

lemma updateCommitIndex_keeps:
  assumes "raft_inv rf" "updateCommitIndex leaderTerm rf = Some (rf', goOn)"
  shows "keeps rf rf'"
  using assms by (cases rule: updateCommitIndex_cases) (use assms in simp_all)

lemma matched_keeps:
  assumes "go_nth (MatchIndex rf) server = Some m" "State rf = Leader \<Longrightarrow> k \<le> endIndex rf"
  shows "keeps rf (rf\<lparr>MatchIndex := (MatchIndex rf)[nat server := max m k], NextIndex := ni\<rparr>)"
  using assms go_nth_mem [OF assms(1)] set_update_subset_insert [of "MatchIndex rf" "nat server" "max m k"]
  by (auto simp: keeps_def max_def split: if_splits)

lemma sendAppendEntries_keeps:
  assumes "State rf = Leader \<Longrightarrow> CurrentTerm rf = ae_Term args \<Longrightarrow> ae_PrevLogIndex args + len (ae_Entries args) \<le> endIndex rf"
    and "sendAppendEntries server args reply ok rf = Some (rf', res)"
  shows "keeps rf rf'"
  using assms(2) by (cases rule: sendAppendEntries_cases) (use assms(1) in \<open>auto intro: matched_keeps\<close>)

lemma sendInstallSnapshot_keeps:
  assumes "State rf = Leader \<Longrightarrow> CurrentTerm rf = is_Term args \<Longrightarrow> is_LastIncludedIndex args \<le> endIndex rf"
    and "sendInstallSnapshot server args reply ok rf = Some (rf', res)"
  shows "keeps rf rf'"
  using assms(2) by (cases rule: sendInstallSnapshot_cases) (use assms(1) in \<open>auto intro: matched_keeps\<close>)

section \<open>The invariants of a run\<close>

text \<open>
  What a peer guarantees of the requests it has sent: their entries are numbered from the previous
  index on, and a leader that is still in the term of a request still holds all of it.
\<close>

definition sent_inv :: "('c, 'w) peer \<Rightarrow> bool" where
  "sent_inv p \<longleftrightarrow>
     (\<forall>args \<in> ae_sent p. entries_wf args \<and> ae_Term args \<le> CurrentTerm (peer_rf p) \<and>
       (State (peer_rf p) = Leader \<longrightarrow> ae_Term args = CurrentTerm (peer_rf p) \<longrightarrow>
         ae_PrevLogIndex args + len (ae_Entries args) \<le> endIndex (peer_rf p))) \<and>
     (\<forall>args \<in> is_sent p. is_Term args \<le> CurrentTerm (peer_rf p) \<and>
       (State (peer_rf p) = Leader \<longrightarrow> is_Term args = CurrentTerm (peer_rf p) \<longrightarrow>
         is_LastIncludedIndex args \<le> endIndex (peer_rf p)))"

text \<open>An election that is not won yet has no leadership behind it: a peer wins a term at most once.\<close>

definition unused :: "int \<Rightarrow> ('c, 'w) peer \<Rightarrow> bool" where
  "unused t p \<longleftrightarrow> (State (peer_rf p) = Leader \<longrightarrow> CurrentTerm (peer_rf p) \<noteq> t) \<and>
     t \<notin> ae_Term ` ae_sent p \<and> t \<notin> is_Term ` is_sent p"

definition election_inv :: "('c, 'w) peer \<Rightarrow> bool" where
  "election_inv p \<longleftrightarrow> (\<forall>t el. running p t = Some el \<longrightarrow>
     rv_Term (el_args el) = t \<and> t \<le> CurrentTerm (peer_rf p) \<and> (el_done el \<or> unused t p))"

definition peer_inv :: "('c, 'w) peer \<Rightarrow> bool" where
  "peer_inv p \<longleftrightarrow> raft_inv (peer_rf p) \<and> disk_inv (peer_rf p) \<and> match_inv (peer_rf p) \<and> sent_inv p \<and> election_inv p"

lemma peer_invD:
  assumes "peer_inv p"
  shows "raft_inv (peer_rf p)" "disk_inv (peer_rf p)" "match_inv (peer_rf p)" "sent_inv p" "election_inv p"
    "log_wf (peer_rf p)"
  using assms by (simp_all add: peer_inv_def raft_inv_def)

lemma election_invD:
  "election_inv p \<Longrightarrow> running p t = Some el \<Longrightarrow> rv_Term (el_args el) = t \<and> t \<le> CurrentTerm (peer_rf p)"
  "election_inv p \<Longrightarrow> running p t = Some el \<Longrightarrow> \<not> el_done el \<Longrightarrow> unused t p"
  by (auto simp: election_inv_def)

lemma keeps_sent: "sent_inv p \<Longrightarrow> keeps (peer_rf p) rf' \<Longrightarrow> sent_inv (p\<lparr>peer_rf := rf'\<rparr>)"
  by (fastforce simp: sent_inv_def keeps_def)

lemma keeps_election: "election_inv p \<Longrightarrow> keeps (peer_rf p) rf' \<Longrightarrow> election_inv (p\<lparr>peer_rf := rf'\<rparr>)"
  by (fastforce simp: election_inv_def keeps_def unused_def)

lemma keeps_peer:
  "peer_inv p \<Longrightarrow> keeps (peer_rf p) rf' \<Longrightarrow> raft_inv rf' \<Longrightarrow> disk_inv rf' \<Longrightarrow> peer_inv (p\<lparr>peer_rf := rf'\<rparr>)"
  by (simp add: peer_inv_def keeps_sent keeps_election keeps_match)

text \<open>Requests that describe the log of the sender, sent in a term whose election is won.\<close>

lemma send_sent:
  assumes "sent_inv p" "raft_inv (peer_rf p)" "\<forall>out \<in> set outs. sound_out (peer_rf p) out"
  shows "sent_inv (send_outs outs p)"
proof -
  have "entries_wf args \<and> ae_Term args = CurrentTerm (peer_rf p) \<and>
      ae_PrevLogIndex args + len (ae_Entries args) \<le> endIndex (peer_rf p)"
    if "OutAppendEntries i args \<in> set outs" for i args
    using bspec [OF assms(3) that] leader_sends_le [of "peer_rf p" args] by (simp add: leader_sends_def)
  moreover have "is_Term args = CurrentTerm (peer_rf p) \<and> is_LastIncludedIndex args \<le> endIndex (peer_rf p)"
    if "OutInstallSnapshot i args \<in> set outs" for i args
    using bspec [OF assms(3) that] by simp
  ultimately show ?thesis using assms(1) by (fastforce simp: sent_inv_def send_outs_def)
qed

lemma send_election:
  assumes "election_inv p" "\<forall>out \<in> set outs. sound_out (peer_rf p) out"
    and "outs \<noteq> [] \<Longrightarrow> \<forall>el. running p (CurrentTerm (peer_rf p)) = Some el \<longrightarrow> el_done el"
  shows "election_inv (send_outs outs p)"
proof -
  have "ae_Term args = CurrentTerm (peer_rf p)" if "OutAppendEntries i args \<in> set outs" for i args
    using bspec [OF assms(2) that] by (simp add: leader_sends_def)
  moreover have "is_Term args = CurrentTerm (peer_rf p)" if "OutInstallSnapshot i args \<in> set outs" for i args
    using bspec [OF assms(2) that] by simp
  ultimately have "unused t (send_outs outs p)" if "unused t p" "outs = [] \<or> t \<noteq> CurrentTerm (peer_rf p)" for t
    using that by (fastforce simp: unused_def send_outs_def)
  then show ?thesis
    using assms(1,3) by (fastforce simp: election_inv_def send_outs_def)
qed

lemma send_peer:
  assumes "peer_inv p" "\<forall>out \<in> set outs. sound_out (peer_rf p) out"
    and "outs \<noteq> [] \<Longrightarrow> \<forall>el. running p (CurrentTerm (peer_rf p)) = Some el \<longrightarrow> el_done el"
  shows "peer_inv (send_outs outs p)"
  using assms send_sent [of p outs] send_election [of p outs]
  by (auto simp: peer_inv_def send_outs_def)

lemma leader_done: "election_inv p \<Longrightarrow> State (peer_rf p) = Leader \<Longrightarrow> running p (CurrentTerm (peer_rf p)) = Some el \<Longrightarrow> el_done el"
  using election_invD(2) [of p "CurrentTerm (peer_rf p)" el] by (auto simp: unused_def)

section \<open>The invariants hold in every run\<close>

lemma won_peer:
  assumes inv: "peer_inv p" and el: "running p t = Some el" "\<not> el_done el" "CurrentTerm (peer_rf p) = rv_Term (el_args el)"
    and rf': "raft_inv rf'" "disk_inv rf'" "rf' = (peer_rf p)\<lparr>MatchIndex :=
        map (\<lambda>j. if int j \<noteq> me (peer_rf p) then 0 else endIndex (peer_rf p)) [0..<peers (peer_rf p)],
      NextIndex := ni, State := Leader\<rparr>"
    and el': "el_done el'" "el_args el' = el_args el"
  shows "peer_inv (p\<lparr>peer_rf := rf', running := (running p)(t \<mapsto> el')\<rparr>)"
proof -
  note inv' = peer_invD [OF inv]
  have t: "rv_Term (el_args el) = t" "CurrentTerm (peer_rf p) = t" and unused: "unused t p"
    using election_invD [OF inv'(5) el(1)] el(2,3) by auto
  have "0 \<le> endIndex rf'" using raft_invD(2) [OF rf'(1)] by (simp add: index_inv_def)
  then have "match_inv rf'" using rf'(3) by (auto simp: match_inv_def)
  moreover have "sent_inv (p\<lparr>peer_rf := rf', running := (running p)(t \<mapsto> el')\<rparr>)"
    using inv'(4) unused t rf'(3) by (auto simp: sent_inv_def unused_def image_iff)
  moreover have "election_inv (p\<lparr>peer_rf := rf', running := (running p)(t \<mapsto> el')\<rparr>)"
    using inv'(5) t rf'(3) el' by (auto simp: election_inv_def unused_def)
  ultimately show ?thesis using rf' by (simp add: peer_inv_def)
qed

lemma election_reply_peer:
  assumes inv: "peer_inv p" and el: "running p t = Some el"
    and step: "electionReply ok rvReply el (peer_rf p) = Some (el', rf', outs)"
  shows "peer_inv (send_outs outs (p\<lparr>peer_rf := rf', running := (running p)(t \<mapsto> el')\<rparr>))"
proof -
  note inv' = peer_invD [OF inv]
  have disk: "disk_inv rf'" using electionReply_disk [OF inv'(1,2) step] .
  have quiet: "peer_inv (send_outs [] (p\<lparr>peer_rf := rf', running := (running p)(t \<mapsto> el')\<rparr>))"
    if "keeps (peer_rf p) rf'" "raft_inv rf'" "el_args el' = el_args el" "el_done el' = el_done el"
  proof -
    have "peer_inv (p\<lparr>peer_rf := rf'\<rparr>)" using keeps_peer [OF inv that(1,2) disk] .
    with el that(3,4) show ?thesis
      by (auto simp: send_outs_def peer_inv_def sent_inv_def election_inv_def unused_def)
  qed
  from inv'(1) show ?thesis
  proof (cases rule: electionReply_cases [of "peer_rf p" ok rvReply el])
    case (won rf'' outs')
    with step have eq: "rf'' = rf'" "outs' = outs" "el' = el\<lparr>votes := votes el + 1, el_done := True\<rparr>" by auto
    have "CurrentTerm rf' = t" using won(5,9) eq election_invD(1) [OF inv'(5) el] by simp
    then show ?thesis
      using won_peer [OF inv el won(3,5), of rf' _ el'] won eq disk by (intro send_peer) auto
  qed (use step quiet stepDown_inv [OF inv'(1)] inv'(1) in auto)
qed

lemma tick_election_peer:
  assumes inv: "peer_inv p" and step: "ticker ev (peer_rf p) = Some (rf', outs, Some el)"
  shows "peer_inv (send_outs outs (p\<lparr>peer_rf := rf', running := (running p)(rv_Term (el_args el) \<mapsto> el)\<rparr>))"
proof -
  note inv' = peer_invD [OF inv]
  let ?t = "CurrentTerm (peer_rf p) + 1"
  have rf': "raft_inv rf'" "disk_inv rf'"
    using ticker_inv [OF inv'(1) step] ticker_disk [OF inv'(1,2) step] by auto
  from inv'(1) have tick: "rf' = fst (prepareElection ev (peer_rf p))" "rv_Term (el_args el) = ?t" "\<not> el_done el"
    "\<forall>out \<in> set outs. \<exists>i args. out = OutRequestVote i args"
    by (cases rule: ticker_cases [of "peer_rf p" ev]; use step in \<open>simp add: prepareElection_def Let_def\<close>)+
  then have "CurrentTerm rf' = ?t" "State rf' = Candidate" by (simp_all add: prepareElection_def Let_def)
  then have "keeps (peer_rf p) rf'" by (simp add: keeps_def)
  then have "peer_inv (p\<lparr>peer_rf := rf'\<rparr>)" using keeps_peer [OF inv _ rf'] by simp
  moreover have "unused ?t (p\<lparr>peer_rf := rf', running := r\<rparr>)" for r
    using inv'(4) \<open>State rf' = Candidate\<close> by (fastforce simp: unused_def sent_inv_def)
  ultimately have "peer_inv (p\<lparr>peer_rf := rf', running := (running p)(?t \<mapsto> el)\<rparr>)"
    using tick(2,3) \<open>CurrentTerm rf' = ?t\<close>
    by (auto simp: peer_inv_def sent_inv_def election_inv_def unused_def)
  moreover have "{args. \<exists>i. OutAppendEntries i args \<in> set outs} = {}" "{args. \<exists>i. OutInstallSnapshot i args \<in> set outs} = {}"
    using tick(4) by auto
  ultimately show ?thesis using tick(2) by (simp add: send_outs_def)
qed

lemma tick_peer:
  assumes inv: "peer_inv p" and step: "ticker ev (peer_rf p) = Some (rf', outs, None)"
  shows "peer_inv (send_outs outs (p\<lparr>peer_rf := rf'\<rparr>))"
proof -
  from peer_invD(1) [OF inv] have tick: "rf' = peer_rf p"
    "\<forall>out \<in> set outs. State (peer_rf p) = Leader \<and> sound_out (peer_rf p) out"
    by (cases rule: ticker_cases [of "peer_rf p" ev]; use step in simp)+
  then have "State (peer_rf p) = Leader" if "outs \<noteq> []" using that by (cases outs) auto
  with tick inv leader_done [OF peer_invD(5) [OF inv]] have "peer_inv (send_outs outs p)"
    by (intro send_peer) auto
  with tick(1) show ?thesis by simp
qed

lemma replicate_peer:
  assumes inv: "peer_inv p" and "running p t = Some el" "el_done el" "0 \<le> server" "server < int (peers (peer_rf p))"
    "replicateLog server t (peer_rf p) = Some (Some outs)"
  shows "peer_inv (send_outs outs p)"
proof -
  note sends = replicateLog_sends [OF peer_invD(1) [OF inv] assms(4-6)]
  have "CurrentTerm (peer_rf p) = t" if "outs \<noteq> []" using that sends(2) by (cases outs) auto
  with assms(2,3) sends(1) show ?thesis by (intro send_peer [OF inv]) auto
qed

lemma peer_step_inv: "peer_step p p' \<Longrightarrow> peer_inv p \<Longrightarrow> peer_inv p'"
proof (induction rule: peer_step.induct)
  case (install_snapshot ev isArgs p rf' isReply)
  then show ?case
    using InstallSnapshot_inv InstallSnapshot_disk InstallSnapshot_keeps peer_invD by (metis keeps_peer)
next
  case (start_command command p rf' res)
  then show ?case using Start_inv Start_disk Start_keeps peer_invD by (metis keeps_peer)
next
  case (take_snapshot index snap p rf')
  then show ?case using Snapshot_inv Snapshot_disk Snapshot_keeps peer_invD by (metis keeps_peer)
next
  case (apply_collect p rf' logs msgs)
  then show ?case using applyLog_collect_inv applyLog_disk(1) applyLog_keeps(1) peer_invD by (metis keeps_peer)
next
  case (commit leaderTerm p rf' goOn)
  then show ?case
    using updateCommitIndex_inv updateCommitIndex_disk updateCommitIndex_keeps peer_invD by (metis keeps_peer)
qed (auto intro!: keeps_peer RequestVote_inv RequestVote_disk RequestVote_keeps applyLog_finish_inv applyLog_disk(2)
    applyLog_keeps(2) intro: tick_peer tick_election_peer election_reply_peer replicate_peer
    dest: peer_invD simp: Kill_def)

lemma Make_inv:
  assumes "raft_inv rf" "disk_inv rf" "0 \<le> i" "i < int n"
  shows "raft_inv (Make ev n i (persister rf))"
proof -
  obtain t v st where "savedState (persister rf) = (t, Logs rf, v, SnapshotLastIncludedIndex rf, st)"
    using assms(2) by (auto simp: disk_inv_def split: prod.splits)
  with assms show ?thesis
    by (simp add: Make_eq raft_inv_def log_wf_def index_inv_def shape_inv_def leader_inv_def)
qed

lemma boot_inv: "0 \<le> i \<Longrightarrow> i < int n \<Longrightarrow> raft_inv (Make ev n i MakePersister)"
  by (simp add: Make_eq raft_inv_def log_wf_def index_inv_def shape_inv_def leader_inv_def)

lemma newPeer_inv: "raft_inv (Make ev n i ps) \<Longrightarrow> peer_inv (newPeer (Make ev n i ps))"
  using Make_disk [of ev n i ps]
  by (cases "savedState ps") (simp add: peer_inv_def newPeer_def sent_inv_def election_inv_def match_inv_def Make_eq)

text \<open>The conflict a follower reports lies no further than the entry it was asked about.\<close>

lemma AppendEntries_conflict:
  assumes wf: "log_wf rf" and step: "AppendEntries ev args rf = Some (rf', reply)"
  shows "aer_ConflictIndex reply \<le> max 0 (ae_PrevLogIndex args + 1)"
proof (cases rule: AppendEntries_outcome [of args rf ev])
  case (mismatch prev ci)
  let ?n = "nat (ae_PrevLogIndex args - SnapshotLastIncludedIndex rf)"
  have prev: "SnapshotLastIncludedIndex rf < ae_PrevLogIndex args" "ae_PrevLogIndex args \<le> endIndex rf"
    "e_Index prev = ae_PrevLogIndex args"
    using mismatch(2) wf by (auto simp: entryAt_Some_iff log_wf_def len_def)
  have "ci \<le> ae_PrevLogIndex args + 1"
    using conflictScan_spec [OF mismatch(4)]
  proof (elim disjE exE conjE)
    fix p
    assume "p < ?n" "p + 1 < length (Logs rf)" "ci = e_Index (Logs rf ! (p + 1))"
    with wf prev(1) show ?thesis by (simp add: log_wf_def)
  qed (use prev in simp)
  with mismatch(5) step show ?thesis by simp
qed (use step in auto)

lemma peer_reach_inv: "peer_reach n i p \<Longrightarrow> peer_inv p \<and> 0 \<le> i \<and> i < int n"
proof (induction rule: peer_reach.induct)
  case (boot i ev)
  then show ?case by (simp add: boot_inv newPeer_inv)
next
  case (restart i p ev)
  then show ?case by (simp add: Make_inv newPeer_inv peer_invD)
next
  case (local i p p')
  then show ?case using peer_step_inv by blast
next
  case (append_entries i p j q args ev rf' reply)
  then have "entries_wf args" using peer_invD(4) [of q] by (auto simp: sent_inv_def)
  with append_entries show ?case
    using AppendEntries_inv AppendEntries_disk AppendEntries_keeps peer_invD by (metis keeps_peer)
next
  case (append_reply i p j q args ev rf0 reply server rf' r)
  then have ci: "aer_ConflictIndex reply \<le> max 0 (ae_PrevLogIndex args + 1)"
    using AppendEntries_conflict peer_invD(6) by blast
  from append_reply have "State (peer_rf p) = Leader \<Longrightarrow> CurrentTerm (peer_rf p) = ae_Term args \<Longrightarrow>
      ae_PrevLogIndex args + len (ae_Entries args) \<le> endIndex (peer_rf p)"
    using peer_invD(4) [of p] by (auto simp: sent_inv_def)
  with append_reply ci show ?case
    by (auto intro!: keeps_peer intro: sendAppendEntries_inv sendAppendEntries_disk sendAppendEntries_keeps dest: peer_invD)
next
  case (append_lost i p args server rf' r)
  then have sent: "State (peer_rf p) = Leader \<Longrightarrow> CurrentTerm (peer_rf p) = ae_Term args \<Longrightarrow>
      ae_PrevLogIndex args + len (ae_Entries args) \<le> endIndex (peer_rf p)"
    using peer_invD(4) [of p] by (auto simp: sent_inv_def)
  from append_lost have inv: "peer_inv p" by simp
  have "raft_inv rf'"
    by (rule sendAppendEntries_inv [OF peer_invD(1) [OF inv] sent _ append_lost(3)]) (simp_all add: AppendEntriesReply0_def)
  then show ?case
    using append_lost sendAppendEntries_disk [OF peer_invD(2) [OF inv] append_lost(3)]
      sendAppendEntries_keeps [OF sent append_lost(3)] by (auto intro: keeps_peer)
next
  case (install_reply i p isArgs server isReply ok rf' r)
  then have "State (peer_rf p) = Leader \<Longrightarrow> CurrentTerm (peer_rf p) = is_Term isArgs \<Longrightarrow>
      is_LastIncludedIndex isArgs \<le> endIndex (peer_rf p)"
    using peer_invD(4) [of p] by (auto simp: sent_inv_def)
  with install_reply show ?case
    by (auto intro!: keeps_peer intro: sendInstallSnapshot_inv sendInstallSnapshot_disk sendInstallSnapshot_keeps dest: peer_invD)
qed

lemma raft_reach_inv: "raft_reach n i rf \<Longrightarrow> raft_inv rf \<and> disk_inv rf"
  using peer_reach_inv peer_invD(1,2) unfolding raft_reach_def by blast

section \<open>Where an index can leave the log\<close>

lemma applyLog_collect_None:
  assumes "raft_inv rf"
  shows "applyLog_collect rf = None \<longleftrightarrow> LastApplied rf < CommitIndex rf \<and> endIndex rf < CommitIndex rf"
  using raft_invD(2) [OF assms]
  by (auto simp: applyLog_collect_def go_slice_def index_inv_def Let_def max_def not_le)

lemma findTerm_eq:
  "findTerm logs t k = (dropWhile (\<lambda>e. e_Term e \<noteq> t) logs \<noteq> [], k + len (takeWhile (\<lambda>e. e_Term e \<noteq> t) logs))"
  by (induction logs t k rule: findTerm.induct) auto

lemma skipTerm_eq: "skipTerm logs t k = k + len (takeWhile (\<lambda>e. e_Term e = t) logs)"
  by (induction logs t k rule: skipTerm.induct) auto

lemma backUp_None:
  "backUp reply logs = None \<longleftrightarrow> aer_ConflictTerm reply \<noteq> 0 \<and>
     (let run = dropWhile (\<lambda>e. e_Term e \<noteq> aer_ConflictTerm reply) logs
      in run \<noteq> [] \<and> (\<forall>e \<in> set run. e_Term e = aer_ConflictTerm reply))"
proof -
  let ?P = "\<lambda>e. e_Term e \<noteq> aer_ConflictTerm reply" and ?Q = "\<lambda>e. e_Term e = aer_ConflictTerm reply"
  let ?run = "dropWhile ?P logs"
  have split: "length (takeWhile ?P logs) + length ?run = length logs"
    by (metis length_append takeWhile_dropWhile_id)
  have drop: "drop (nat (len (takeWhile ?P logs))) logs = ?run"
    by (simp add: len_def dropWhile_eq_drop)
  have "go_nth logs (len (takeWhile ?P logs) + len (takeWhile ?Q ?run)) = None \<longleftrightarrow> (\<forall>e \<in> set ?run. ?Q e)"
  proof -
    have "go_nth logs (len (takeWhile ?P logs) + len (takeWhile ?Q ?run)) = None \<longleftrightarrow> length ?run \<le> length (takeWhile ?Q ?run)"
      using split by (auto simp: go_nth_def in_range_def len_def)
    also have "\<dots> \<longleftrightarrow> takeWhile ?Q ?run = ?run"
      by (metis length_takeWhile_le order_antisym order_refl takeWhile_eq_take take_all)
    finally show ?thesis by (simp add: takeWhile_eq_all_conv)
  qed
  then show ?thesis
    by (auto simp: backUp_def findTerm_eq skipTerm_eq drop Let_def Option.bind_eq_None_conv)
qed

lemma sendAppendEntries_None:
  assumes inv: "raft_inv rf" and i: "0 \<le> server" "server < int (peers rf)"
  shows "sendAppendEntries server args reply ok rf = None \<longleftrightarrow>
    aer_Term reply = CurrentTerm rf \<and> CurrentTerm rf = ae_Term args \<and> \<not> aer_Success reply \<and> aer_Conflict reply \<and>
    NextIndex rf ! nat server = ae_PrevLogIndex args + 1 \<and> backUp reply (Logs rf) = None"
proof -
  have "go_nth (NextIndex rf) server = Some (NextIndex rf ! nat server)"
    "go_nth (MatchIndex rf) server = Some (MatchIndex rf ! nat server)"
    using i raft_invD(3) [OF inv] by (simp_all add: go_nth_def in_range_def len_def shape_inv_def)
  with go_set_shape [OF raft_invD(3) [OF inv] i] show ?thesis
    by (cases "backUp reply (Logs rf)") (auto simp: sendAppendEntries_def)
qed

lemma sendInstallSnapshot_total:
  assumes inv: "raft_inv rf" and i: "0 \<le> server" "server < int (peers rf)"
  shows "sendInstallSnapshot server args reply ok rf \<noteq> None"
proof -
  have "go_nth (NextIndex rf) server = Some (NextIndex rf ! nat server)"
    "go_nth (MatchIndex rf) server = Some (MatchIndex rf ! nat server)"
    using i raft_invD(3) [OF inv] by (simp_all add: go_nth_def in_range_def len_def shape_inv_def)
  with go_set_shape [OF raft_invD(3) [OF inv] i] show ?thesis
    by (auto simp: sendInstallSnapshot_def)
qed

lemma updateCommitIndex_total: "raft_inv rf \<Longrightarrow> updateCommitIndex leaderTerm rf \<noteq> None"
  using commitScan_spec [OF raft_invD(3) order_refl, of rf leaderTerm]
  by (auto simp: updateCommitIndex_def)

section \<open>Properties of a run\<close>


text \<open>
  A peer of three that starts an election, wins it with the vote of one other peer, takes a command
  and sends it: the states used in the examples below.
\<close>

definition demo_env :: env where
  "demo_env = \<lparr>now = 1000, rnd = 7\<rparr>"

definition demo_boot :: "(nat, nat) Raft" where
  "demo_boot = Make \<lparr>now = 0, rnd = 0\<rparr> 3 0 MakePersister"

definition demo_candidate :: "(nat, nat) Raft" where
  "demo_candidate = fst (prepareElection demo_env demo_boot)"

definition demo_el :: election where
  "demo_el = fst (issueLeaderElection (fst (snd (prepareElection demo_env demo_boot))) demo_candidate)"

definition demo_won :: "election \<times> (nat, nat) Raft \<times> (nat, nat) raft_out list" where
  "demo_won = the (electionReply True \<lparr>rvr_Term = 1, rvr_VoteGranted = True\<rparr> demo_el demo_candidate)"

definition demo_leader :: "(nat, nat) Raft" where
  "demo_leader = fst (the (Start 7 (fst (snd demo_won))))"

definition demo_args :: "nat AppendEntriesArgs" where
  "demo_args = \<lparr>ae_Term = 1, ae_LeaderId = 0, ae_PrevLogIndex = 0, ae_PrevLogTerm = 0,
     ae_Entries = [\<lparr>e_Command = 7, e_Term = 1, e_Index = 1\<rparr>], ae_LeaderCommit = 0\<rparr>"

lemma demo_steps:
  "ticker demo_env demo_boot = Some (demo_candidate, snd (issueLeaderElection (el_args demo_el) demo_candidate), Some demo_el)"
  "rv_Term (el_args demo_el) = 1"
  "electionReply True \<lparr>rvr_Term = 1, rvr_VoteGranted = True\<rparr> demo_el demo_candidate = Some demo_won"
  "el_done (fst demo_won)"
  "Start 7 (fst (snd demo_won)) = Some (demo_leader, 1, 1, True)"
  "replicateLog 1 1 demo_leader = Some (Some [OutAppendEntries 1 demo_args])"
  "State demo_leader = Leader" "Logs demo_leader = ae_Entries demo_args" "peers demo_leader = 3"
  "MatchIndex demo_leader = [1, 0, 0]"
  by code_simp+

lemma demo_candidate_peer:
  "\<exists>p. peer_reach 3 0 p \<and> peer_rf p = demo_candidate \<and> running p 1 = Some demo_el"
proof -
  have "peer_reach 3 0 (newPeer demo_boot)" unfolding demo_boot_def by (rule peer_reach.boot) simp_all
  then have "peer_reach 3 0 (send_outs (snd (issueLeaderElection (el_args demo_el) demo_candidate))
      ((newPeer demo_boot)\<lparr>peer_rf := demo_candidate, running := (running (newPeer demo_boot))(rv_Term (el_args demo_el) \<mapsto> demo_el)\<rparr>))"
    by (rule peer_reach.local) (rule peer_step.tick_election [where ev = demo_env], simp add: newPeer_def demo_steps)
  then show ?thesis by (intro exI conjI, assumption) (simp_all add: send_outs_def demo_steps)
qed

lemma demo_leader_peer:
  "\<exists>p. peer_reach 3 0 p \<and> peer_rf p = demo_leader \<and> demo_args \<in> ae_sent p"
proof -
  obtain p where p: "peer_reach 3 0 p" "peer_rf p = demo_candidate" "running p 1 = Some demo_el"
    using demo_candidate_peer by blast
  obtain el' rf' outs where won: "demo_won = (el', rf', outs)" by (cases demo_won)
  let ?p = "send_outs outs (p\<lparr>peer_rf := rf', running := (running p)(1 \<mapsto> el')\<rparr>)"
  have "peer_reach 3 0 ?p"
    by (rule peer_reach.local [OF p(1)], rule peer_step.election_reply [OF p(3)]) (use p(2) demo_steps(3) [unfolded won] in simp)
  then have "peer_reach 3 0 (?p\<lparr>peer_rf := demo_leader\<rparr>)"
    by (rule peer_reach.local, intro peer_step.start_command [where command = 7 and res = "(1, 1, True)"]) (use demo_steps(5) [unfolded won] in \<open>simp add: send_outs_def\<close>)
  then have "peer_reach 3 0 (send_outs [OutAppendEntries 1 demo_args] (?p\<lparr>peer_rf := demo_leader\<rparr>))"
    by (rule peer_reach.local, intro peer_step.replicate [where t = 1 and el = el' and server = 1])
      (use demo_steps(4) [unfolded won] demo_steps(6,9) in \<open>simp_all add: send_outs_def\<close>)
  then show ?thesis by (intro exI conjI, assumption) (simp_all add: send_outs_def)
qed


lemma demo_candidate_reach: "raft_reach 3 0 demo_candidate"
  using demo_candidate_peer by (auto simp: raft_reach_def)

text \<open>
  C5: A restart after any run finds on disk the whole log and the snapshot index the peer had, resumes
  delivery after the snapshot, never takes the term forward, and finds the vote of the current term
  whenever one was cast.
\<close>

theorem restart_recovers:
  assumes "raft_reach n i rf" "0 \<le> i" "i < int n"
  shows "let rf' = Make ev n i (persister rf) in
    Logs rf' = Logs rf \<and> SnapshotLastIncludedIndex rf' = SnapshotLastIncludedIndex rf \<and>
    LastApplied rf' = SnapshotLastIncludedIndex rf \<and> CommitIndex rf' = SnapshotLastIncludedIndex rf \<and>
    CurrentTerm rf' \<le> CurrentTerm rf \<and>
    (VotedFor rf \<noteq> -1 \<longrightarrow> CurrentTerm rf' = CurrentTerm rf \<and> VotedFor rf' = VotedFor rf)"
  using raft_reach_inv [OF assms(1)]
  by (cases "savedState (persister rf)") (simp add: Make_eq disk_inv_def)

theorem restart_recovers_witness:
  "VotedFor demo_candidate = 0 \<and> CurrentTerm demo_candidate = 1 \<and>
   VotedFor (Make demo_env 3 0 (persister demo_candidate)) = 0 \<and>
   CurrentTerm (Make demo_env 3 0 (persister demo_candidate)) = 1"
proof -
  have "VotedFor demo_candidate = 0" "CurrentTerm demo_candidate = 1"
    by (simp_all add: demo_candidate_def prepareElection_def demo_boot_def Make_eq Let_def)
  with restart_recovers [OF demo_candidate_reach, of demo_env] show ?thesis by (simp add: Let_def)
qed

text \<open>
  C6: No run-time panic. In every reachable state, whatever the arguments are, the RPC handlers, the
  calls of the service, the ticker, the vote goroutines, the commit loop, the replication loop of a
  leader and the handling of an \<open>InstallSnapshot\<close> reply return. The three places where an index can
  leave the log are characterised exactly: the apply loop when \<open>CommitIndex\<close> lies beyond the end of
  the log, the replication loop of a peer that has stepped down within its term while its \<open>NextIndex\<close>
  points beyond a log that was cut, and the back-up of \<open>NextIndex\<close> after a conflict when the entries
  of the conflicting term run to the end of the leader's log.
\<close>

theorem reachable_no_panic:
  assumes "raft_reach n i rf"
  shows "AppendEntries ev args rf \<noteq> None \<and> InstallSnapshot ev isArgs rf \<noteq> None \<and>
    Snapshot index snap rf \<noteq> None \<and> Start command rf \<noteq> None \<and> ticker ev rf \<noteq> None \<and>
    electionReply ok rvReply el rf \<noteq> None \<and> updateCommitIndex leaderTerm rf \<noteq> None \<and>
    (applyLog_collect rf = None \<longleftrightarrow>
       LastApplied rf < CommitIndex rf \<and> SnapshotLastIncludedIndex rf + len (Logs rf) < CommitIndex rf) \<and>
    (0 \<le> server \<longrightarrow> server < int (peers rf) \<longrightarrow>
       sendInstallSnapshot server isArgs isReply ok rf \<noteq> None \<and>
       (replicateLog server leaderTerm rf = None \<longleftrightarrow> State rf \<noteq> Leader \<and> CurrentTerm rf = leaderTerm \<and>
          NextIndex rf ! nat server \<noteq> NextIndex rf ! nat (me rf) \<and>
          SnapshotLastIncludedIndex rf + len (Logs rf) + 1 < NextIndex rf ! nat server) \<and>
       (sendAppendEntries server args reply ok rf = None \<longleftrightarrow>
          aer_Term reply = CurrentTerm rf \<and> CurrentTerm rf = ae_Term args \<and> \<not> aer_Success reply \<and>
          aer_Conflict reply \<and> aer_ConflictTerm reply \<noteq> 0 \<and> NextIndex rf ! nat server = ae_PrevLogIndex args + 1 \<and>
          (let run = dropWhile (\<lambda>e. e_Term e \<noteq> aer_ConflictTerm reply) (Logs rf)
           in run \<noteq> [] \<and> (\<forall>e \<in> set run. e_Term e = aer_ConflictTerm reply))))"
proof (intro conjI impI)
  from raft_reach_inv [OF assms] have inv: "raft_inv rf" by simp
  note wf = raft_invD(1) [OF inv]
  show "AppendEntries ev args rf \<noteq> None"
    by (cases rule: AppendEntries_outcome [of args rf ev]) auto
  show "InstallSnapshot ev isArgs rf \<noteq> None"
    using InstallSnapshot_eq [OF wf, of isArgs ev] by (cases "CurrentTerm rf \<le> is_Term isArgs") (auto simp: InstallSnapshot_def)
  show "Snapshot index snap rf \<noteq> None"
    using Snapshot_eq [OF wf, of index snap] by (cases "SnapshotLastIncludedIndex rf \<le> index") (auto simp: Snapshot_def)
  show "Start command rf \<noteq> None"
    using Start_leader [OF inv, of command] by (cases "State rf = Leader") (auto simp: Start_def)
  show "ticker ev rf \<noteq> None" using inv by (cases rule: ticker_cases [of rf ev]) auto
  show "electionReply ok rvReply el rf \<noteq> None" using inv by (cases rule: electionReply_cases [of rf ok rvReply el]) auto
  show "updateCommitIndex leaderTerm rf \<noteq> None" by (rule updateCommitIndex_total [OF inv])
qed (use raft_reach_inv [OF assms] in \<open>auto simp: applyLog_collect_None replicateLog_None sendAppendEntries_None
    sendInstallSnapshot_total backUp_None Let_def\<close>)

theorem reachable_no_panic_witness:
  "raft_reach 3 0 demo_leader \<and> AppendEntries demo_env demo_args demo_leader \<noteq> None \<and> applyLog_collect demo_leader \<noteq> None \<and>
   replicateLog 1 1 demo_leader \<noteq> None"
proof -
  have reach: "raft_reach 3 0 demo_leader" using demo_leader_peer by (auto simp: raft_reach_def)
  have "CommitIndex demo_leader = 0" "LastApplied demo_leader = 0" by code_simp+
  with reachable_no_panic [OF reach, of demo_env demo_args, where server = 1 and leaderTerm = 1] reach demo_steps(7,9)
  show ?thesis by simp
qed

end
