(* ===== verification/Raft_Election.thy ===== *)
theory Raft_Election
  imports Raft_Votes Raft_Steps
begin

text \<open>
  Election safety of raft.go: a cluster of peers whose vote requests travel over a network that may
  delay and drop them, but hands each request to its receiver at most once (theory \<open>Labrpc_Correct\<close>). The peers run
  the definitions of \<open>Raft\<close>; the cluster refines the abstract protocol of \<open>Raft_Votes\<close>, hence
  elects at most one leader per term as long as no peer restarts. With restarts it does not: a
  restarted peer forgets that it has met the leader of its term and votes twice.
\<close>

section \<open>The cluster\<close>

text \<open>The call of \<open>sendRequestVote\<close> by one goroutine of an election.\<close>

datatype vcall = Requested | Answered RequestVoteReply | Counted | Lost

record ('c, 'w) cluster =
  nodes :: "nat \<Rightarrow> ('c, 'w) Raft"
  elections :: "nat \<times> int \<Rightarrow> election option"
  calls :: "nat \<times> int \<times> nat \<Rightarrow> vcall option"
  cl_granted :: "(int \<times> nat \<times> nat) set"
  cl_leaders :: "(int \<times> nat) set"

text \<open>Operations that send or receive nothing.\<close>

inductive local_op :: "('c, 'w) Raft \<Rightarrow> ('c, 'w) Raft \<Rightarrow> bool" where
  "Start command rf = Some (rf', res) \<Longrightarrow> local_op rf rf'"
| "Snapshot index snap rf = Some rf' \<Longrightarrow> local_op rf rf'"
| "applyLog_collect rf = Some (rf', logs, msgs) \<Longrightarrow> local_op rf rf'"
| "local_op rf (applyLog_finish logs rf)"
| "updateCommitIndex leaderTerm rf = Some (rf', goOn) \<Longrightarrow> local_op rf rf'"
| "local_op rf (Kill rf)"

inductive cluster_step :: "nat \<Rightarrow> ('c, 'w) cluster \<Rightarrow> ('c, 'w) cluster \<Rightarrow> bool" for n where
  timeout: "i < n \<Longrightarrow> ticker ev (nodes s i) = Some (rf', outs, Some el) \<Longrightarrow>
    cluster_step n s (s\<lparr>nodes := (nodes s)(i := rf'),
      elections := (elections s)((i, CurrentTerm rf') \<mapsto> el),
      calls := (\<lambda>(a, t, j). if a = i \<and> t = CurrentTerm rf' \<and> j < n \<and> j \<noteq> i then Some Requested else calls s (a, t, j)),
      cl_granted := insert (CurrentTerm rf', i, i) (cl_granted s)\<rparr>)"
| deliver: "calls s (i, t, j) = Some Requested \<Longrightarrow> elections s (i, t) = Some el \<Longrightarrow>
    RequestVote ev (el_args el) (nodes s j) = (rf', reply) \<Longrightarrow>
    cluster_step n s (s\<lparr>nodes := (nodes s)(j := rf'), calls := (calls s)((i, t, j) \<mapsto> Answered reply),
      cl_granted := (if rvr_VoteGranted reply then insert (t, j, i) (cl_granted s) else cl_granted s)\<rparr>)"
| answer: "calls s (i, t, j) = Some (Answered reply) \<Longrightarrow> elections s (i, t) = Some el \<Longrightarrow>
    electionReply True reply el (nodes s i) = Some (el', rf', outs) \<Longrightarrow>
    cluster_step n s (s\<lparr>nodes := (nodes s)(i := rf'), elections := (elections s)((i, t) \<mapsto> el'),
      calls := (calls s)((i, t, j) \<mapsto> (if rvr_VoteGranted reply then Counted else Lost)),
      cl_leaders := (if el_done el' \<and> \<not> el_done el then insert (t, i) (cl_leaders s) else cl_leaders s)\<rparr>)"
| lose: "calls s (i, t, j) = Some c \<Longrightarrow> c \<noteq> Counted \<Longrightarrow>
    cluster_step n s (s\<lparr>calls := (calls s)((i, t, j) \<mapsto> Lost)\<rparr>)"
| append: "j < n \<Longrightarrow> (ae_Term args, l) \<in> cl_leaders s \<Longrightarrow> j \<noteq> l \<Longrightarrow>
    AppendEntries ev args (nodes s j) = Some (rf', aer) \<Longrightarrow> cluster_step n s (s\<lparr>nodes := (nodes s)(j := rf')\<rparr>)"
| install: "j < n \<Longrightarrow> (is_Term isArgs, l) \<in> cl_leaders s \<Longrightarrow> j \<noteq> l \<Longrightarrow>
    InstallSnapshot ev isArgs (nodes s j) = Some (rf', isr) \<Longrightarrow> cluster_step n s (s\<lparr>nodes := (nodes s)(j := rf')\<rparr>)"
| append_reply: "j < n \<Longrightarrow> sendAppendEntries server args aer ok (nodes s j) = Some (rf', r) \<Longrightarrow>
    cluster_step n s (s\<lparr>nodes := (nodes s)(j := rf')\<rparr>)"
| install_reply: "j < n \<Longrightarrow> sendInstallSnapshot server isArgs isr ok (nodes s j) = Some (rf', r) \<Longrightarrow>
    cluster_step n s (s\<lparr>nodes := (nodes s)(j := rf')\<rparr>)"
| local_step: "j < n \<Longrightarrow> local_op (nodes s j) rf' \<Longrightarrow> cluster_step n s (s\<lparr>nodes := (nodes s)(j := rf')\<rparr>)"

definition cluster_init :: "nat \<Rightarrow> (nat \<Rightarrow> env) \<Rightarrow> ('c, 'w) cluster" where
  "cluster_init n ev = \<lparr>nodes = (\<lambda>i. Make (ev i) n (int i) MakePersister), elections = Map.empty,
     calls = Map.empty, cl_granted = {}, cl_leaders = {}\<rparr>"

section \<open>What the operations do to term, vote and role\<close>

definition view :: "('c, 'w) Raft \<Rightarrow> int \<times> int \<times> int \<times> Role \<times> int \<times> int" where
  "view rf = (CurrentTerm rf, VotedFor rf, LeaderTerm rf, State rf, Half rf, me rf)"

lemma view_persist [simp]: "view (persist rf) = view rf"
  by (simp add: view_def)

lemma view_stepDown [simp]: "view (stepDown t rf) = (t, -1, t, Follower, Half rf, me rf)"
  by (simp add: stepDown_def view_def)

lemma local_op_view: "local_op rf rf' \<Longrightarrow> view rf' = view rf"
proof (induction rule: local_op.induct)
  case (5 leaderTerm rf rf' goOn)
  have "commitScan lt rf k = Some rf' \<Longrightarrow> view rf' = view rf" for lt k
    by (induction k) (auto simp: view_def Option.bind_eq_Some_conv split: if_splits)
  with 5 show ?case by (auto simp: updateCommitIndex_def Option.bind_eq_Some_conv split: if_splits)
qed (auto simp: view_def Start_def Snapshot_def makeRaftState_def applyLog_collect_def applyLog_finish_def Kill_def Let_def
    Option.bind_eq_Some_conv split: if_splits)

lemma sendAppendEntries_view:
  assumes "sendAppendEntries server args reply ok rf = Some (rf', r)"
  shows "view rf' = view rf \<or> (\<exists>t > CurrentTerm rf. rf' = stepDown t rf)"
  using assms by (cases rule: sendAppendEntries_cases) (auto simp: view_def)

lemma sendInstallSnapshot_view:
  assumes "sendInstallSnapshot server args reply ok rf = Some (rf', r)"
  shows "view rf' = view rf \<or> (\<exists>t > CurrentTerm rf. rf' = stepDown t rf)"
  using assms by (cases rule: sendInstallSnapshot_cases) (auto simp: view_def)

definition leader_view :: "int \<Rightarrow> ('c, 'w) Raft \<Rightarrow> int \<times> int \<times> int \<times> Role \<times> int \<times> int" where
  "leader_view t rf = (t, if newLeader t rf then -1 else VotedFor rf, t, Follower, Half rf, me rf)"

lemma AppendEntries_view:
  assumes "AppendEntries ev args rf = Some (rf', reply)"
  shows "view rf' = view rf \<or> CurrentTerm rf \<le> ae_Term args \<and> view rf' = leader_view (ae_Term args) rf"
  by (cases rule: AppendEntries_outcome [of args rf ev])
    (use assms in \<open>auto simp: view_def leader_view_def acceptLeader_eq\<close>)

lemma InstallSnapshot_view:
  assumes "InstallSnapshot ev args rf = Some (rf', reply)"
  shows "view rf' = view rf \<or> CurrentTerm rf \<le> is_Term args \<and> view rf' = leader_view (is_Term args) rf"
proof (cases "CurrentTerm rf \<le> is_Term args")
  case True
  then have "view (fst (acceptLeader ev (is_Term args) rf)) = leader_view (is_Term args) rf"
    by (simp add: view_def leader_view_def acceptLeader_eq)
  moreover have "view rf' = view (fst (acceptLeader ev (is_Term args) rf))"
    using assms True
    by (auto simp: InstallSnapshot_def Let_def Option.bind_eq_Some_conv view_def split: if_splits)
  ultimately show ?thesis using True by simp
next
  case False
  with assms show ?thesis by (simp add: InstallSnapshot_def)
qed

text \<open>A vote request: possibly a step down, then possibly a vote.\<close>

definition asked :: "RequestVoteArgs \<Rightarrow> ('c, 'w) Raft \<Rightarrow> ('c, 'w) Raft" where
  "asked args rf = (if rv_Term args > CurrentTerm rf then stepDown (rv_Term args) rf else rf)"

lemma RequestVote_view:
  assumes "RequestVote ev args rf = (rf', reply)"
  obtains (refused) "\<not> rvr_VoteGranted reply" "view rf' = view rf \<or> view rf' = view (asked args rf)"
  | (granted) "rvr_VoteGranted reply" "CurrentTerm (asked args rf) = rv_Term args"
      "VotedFor (asked args rf) = -1 \<or> VotedFor (asked args rf) = rv_CandidateId args"
      "view rf' = view ((asked args rf)\<lparr>VotedFor := rv_CandidateId args\<rparr>)"
proof -
  have "CurrentTerm (asked args rf) = rv_Term args" if "\<not> rv_Term args < CurrentTerm rf"
    using that by (auto simp: asked_def stepDown_def)
  with assms show ?thesis
    by (cases "rvr_VoteGranted reply")
      (auto simp: RequestVote_def Let_def asked_def [symmetric] view_def split: if_splits intro: refused granted)
qed

lemma initIndices_view: "initIndices is rf = Some rf' \<Longrightarrow> view rf' = view rf"
  by (induction "is" arbitrary: rf) (auto simp: Option.bind_eq_Some_conv view_def)

lemma electionReply_view:
  assumes "electionReply True reply el rf = Some (el', rf', outs)"
  obtains (none) "view rf' = view rf" "el_done el' \<longleftrightarrow> el_done el"
      "el_args el' = el_args el" "votes el' = votes el + (if rvr_VoteGranted reply then 1 else 0)"
  | (won) "rvr_VoteGranted reply" "\<not> el_done el" "el_done el'" "Half rf < votes el + 1"
      "CurrentTerm rf = rv_Term (el_args el)" "view rf' = view (rf\<lparr>State := Leader\<rparr>)"
      "el_args el' = el_args el" "votes el' = votes el + 1"
  | (down) "\<not> rvr_VoteGranted reply" "el' = el" "CurrentTerm rf < rvr_Term reply" "rf' = stepDown (rvr_Term reply) rf"
proof (cases "rvr_VoteGranted reply \<and> \<not> el_done el \<and> Half rf < votes el + 1 \<and> CurrentTerm rf = rv_Term (el_args el)")
  case True
  with assms have "el' = el\<lparr>votes := votes el + 1, el_done := True\<rparr>" "view rf' = view (rf\<lparr>State := Leader\<rparr>)"
    by (auto simp: electionReply_def Option.bind_eq_Some_conv becomeLeader_def dest: initIndices_view)
  with True show ?thesis by (intro won) simp_all
next
  case False
  show ?thesis
  proof (cases "\<not> rvr_VoteGranted reply \<and> CurrentTerm rf < rvr_Term reply")
    case True
    with assms have "el' = el" "rf' = stepDown (rvr_Term reply) rf" by (auto simp: electionReply_def)
    with True show ?thesis by (intro down) simp_all
  next
    case notdown: False
    with False assms show ?thesis
      by (intro none) (auto simp: electionReply_def Let_def split: if_splits)
  qed
qed

lemma ticker_view:
  assumes "ticker ev rf = Some (rf', outs, Some el)"
  shows "State rf \<noteq> Leader" "view rf' = (CurrentTerm rf + 1, me rf, LeaderTerm rf, Candidate, Half rf, me rf)"
    "rv_Term (el_args el) = CurrentTerm rf + 1" "rv_CandidateId (el_args el) = me rf" "votes el = 1" "\<not> el_done el"
proof -
  show "State rf \<noteq> Leader" using assms by (auto simp: ticker_def Option.bind_eq_Some_conv)
  then have *: "rf' = fst (prepareElection ev rf)"
      "el = fst (issueLeaderElection (fst (snd (prepareElection ev rf))) rf')"
    using assms by (cases "State rf"; simp add: ticker_def case_prod_beta split: if_splits)+
  then show "view rf' = (CurrentTerm rf + 1, me rf, LeaderTerm rf, Candidate, Half rf, me rf)"
    by (simp add: prepareElection_def Let_def view_def)
  from * show "rv_Term (el_args el) = CurrentTerm rf + 1" "rv_CandidateId (el_args el) = me rf"
    "votes el = 1" "\<not> el_done el"
    by (simp_all add: prepareElection_def issueLeaderElection_def Let_def)
qed

section \<open>Refinement of the abstract protocol\<close>

definition abs_votes :: "('c, 'w) cluster \<Rightarrow> vote_state" where
  "abs_votes s = \<lparr>ct = (\<lambda>v. CurrentTerm (nodes s v)), vf = (\<lambda>v. VotedFor (nodes s v)),
     lt = (\<lambda>v. LeaderTerm (nodes s v)), granted = cl_granted s, leaders = cl_leaders s\<rparr>"

definition peers_inv :: "nat \<Rightarrow> ('c, 'w) cluster \<Rightarrow> bool" where
  "peers_inv n s \<longleftrightarrow> (\<forall>i. Half (nodes s i) = int n div 2 \<and> me (nodes s i) = int i \<and>
     (State (nodes s i) = Leader \<longrightarrow> (CurrentTerm (nodes s i), i) \<in> cl_leaders s))"

definition elections_inv :: "nat \<Rightarrow> ('c, 'w) cluster \<Rightarrow> bool" where
  "elections_inv n s \<longleftrightarrow> (\<forall>i t el. elections s (i, t) = Some el \<longrightarrow> i < n \<and> (t, i, i) \<in> cl_granted s \<and>
     rv_Term (el_args el) = t \<and> rv_CandidateId (el_args el) = int i \<and>
     votes el = 1 + int (card {j. calls s (i, t, j) = Some Counted}))"

definition calls_inv :: "nat \<Rightarrow> ('c, 'w) cluster \<Rightarrow> bool" where
  "calls_inv n s \<longleftrightarrow> (\<forall>i t j c. calls s (i, t, j) = Some c \<longrightarrow> j < n \<and> j \<noteq> i \<and> elections s (i, t) \<noteq> None \<and>
     (c = Counted \<or> (\<exists>r. c = Answered r \<and> rvr_VoteGranted r) \<longrightarrow> (t, j, i) \<in> cl_granted s))"

definition cluster_inv :: "nat \<Rightarrow> ('c, 'w) cluster \<Rightarrow> bool" where
  "cluster_inv n s \<longleftrightarrow> peers_inv n s \<and> elections_inv n s \<and> calls_inv n s \<and> vote_inv n (abs_votes s)"

lemma abs_votes_simps [simp]:
  "ct (abs_votes s) v = CurrentTerm (nodes s v)" "vf (abs_votes s) v = VotedFor (nodes s v)"
  "lt (abs_votes s) v = LeaderTerm (nodes s v)" "granted (abs_votes s) = cl_granted s"
  "leaders (abs_votes s) = cl_leaders s"
  by (simp_all add: abs_votes_def)

lemma abs_votes_eqI:
  assumes "\<And>v. CurrentTerm (nodes s v) = ct a v" "\<And>v. VotedFor (nodes s v) = vf a v"
    "\<And>v. LeaderTerm (nodes s v) = lt a v" "cl_granted s = granted a" "cl_leaders s = leaders a"
  shows "abs_votes s = a"
  using assms by (cases a) (simp add: abs_votes_def)

lemma node_same: "view rf' = view (nodes s j) \<Longrightarrow> abs_votes (s\<lparr>nodes := (nodes s)(j := rf')\<rparr>) = abs_votes s"
  by (rule abs_votes_eqI) (auto simp: view_def)

lemma node_down:
  assumes "CurrentTerm (nodes s j) < t" "view rf' = (t, -1, t, x)"
  shows "vote_step n (abs_votes s) (abs_votes (s\<lparr>nodes := (nodes s)(j := rf')\<rparr>))"
proof -
  have "abs_votes (s\<lparr>nodes := (nodes s)(j := rf')\<rparr>) = (abs_votes s)\<lparr>ct := (ct (abs_votes s))(j := t),
      vf := (vf (abs_votes s))(j := -1), lt := (lt (abs_votes s))(j := t)\<rparr>"
    using assms(2) by (intro abs_votes_eqI) (auto simp: view_def)
  with vote_step.newer [of "abs_votes s" j t n] assms(1) show ?thesis by simp
qed

lemma node_follow:
  assumes "(t, l) \<in> cl_leaders s" "j \<noteq> l" "CurrentTerm (nodes s j) \<le> t" "view rf' = leader_view t (nodes s j)"
  shows "vote_step n (abs_votes s) (abs_votes (s\<lparr>nodes := (nodes s)(j := rf')\<rparr>))"
proof -
  let ?a = "abs_votes s"
  have "abs_votes (s\<lparr>nodes := (nodes s)(j := rf')\<rparr>) = ?a\<lparr>ct := (ct ?a)(j := t),
      vf := (if lt ?a j \<noteq> t \<or> ct ?a j < t then (vf ?a)(j := -1) else vf ?a), lt := (lt ?a)(j := t)\<rparr>"
    using assms(4) by (intro abs_votes_eqI) (auto simp: view_def leader_view_def newLeader_def)
  with vote_step.follow [of t l ?a j n] assms(1-3) show ?thesis by simp
qed

lemma node_vote:
  assumes "1 \<le> CurrentTerm (nodes s j)" "VotedFor (nodes s j) = -1 \<or> VotedFor (nodes s j) = int i"
    "view rf' = view ((nodes s j)\<lparr>VotedFor := int i\<rparr>)" "t = CurrentTerm (nodes s j)"
  shows "vote_step n (abs_votes s) (abs_votes (s\<lparr>nodes := (nodes s)(j := rf'), cl_granted := insert (t, j, i) (cl_granted s)\<rparr>))"
proof -
  let ?a = "abs_votes s"
  have "abs_votes (s\<lparr>nodes := (nodes s)(j := rf'), cl_granted := insert (t, j, i) (cl_granted s)\<rparr>) =
      ?a\<lparr>vf := (vf ?a)(j := int i), granted := insert (ct ?a j, j, i) (granted ?a)\<rparr>"
    using assms(3,4) by (intro abs_votes_eqI) (auto simp: view_def)
  with vote_step.vote [of ?a j i n] assms(1,2) show ?thesis by simp
qed

lemma abs_votes_frame [simp]:
  "abs_votes (s\<lparr>elections := e\<rparr>) = abs_votes s" "abs_votes (s\<lparr>calls := c\<rparr>) = abs_votes s"
  by (simp_all add: abs_votes_def)

lemma deliver_sim:
  assumes el: "rv_Term (el_args el) = t" "rv_CandidateId (el_args el) = int i" "1 \<le> t"
    and rv: "RequestVote ev (el_args el) (nodes s j) = (rf', reply)"
  shows "(vote_step n)\<^sup>*\<^sup>* (abs_votes s) (abs_votes (s\<lparr>nodes := (nodes s)(j := rf'),
      cl_granted := (if rvr_VoteGranted reply then insert (t, j, i) (cl_granted s) else cl_granted s)\<rparr>))"
proof -
  let ?rf = "asked (el_args el) (nodes s j)"
  let ?s = "s\<lparr>nodes := (nodes s)(j := ?rf)\<rparr>"
  have asked: "(vote_step n)\<^sup>*\<^sup>* (abs_votes s) (abs_votes ?s)"
  proof (cases "t > CurrentTerm (nodes s j)")
    case True
    with el have "vote_step n (abs_votes s) (abs_votes ?s)"
      by (intro node_down [of s j t _ "(Follower, Half (nodes s j), me (nodes s j))"]) (simp_all add: asked_def)
    then show ?thesis by blast
  next
    case False
    with el node_same [of ?rf s j] show ?thesis by (simp add: asked_def)
  qed
  from rv show ?thesis
  proof (cases rule: RequestVote_view)
    case refused
    have "abs_votes (s\<lparr>nodes := (nodes s)(j := rf')\<rparr>) = abs_votes s \<or> abs_votes (s\<lparr>nodes := (nodes s)(j := rf')\<rparr>) = abs_votes ?s"
      using refused(2) node_same [of rf' s j] node_same [of rf' ?s j] by auto
    with asked refused(1) show ?thesis by auto
  next
    case granted
    have "vote_step n (abs_votes ?s) (abs_votes (?s\<lparr>nodes := (nodes ?s)(j := rf'), cl_granted := insert (t, j, i) (cl_granted ?s)\<rparr>))"
      using granted el by (intro node_vote) simp_all
    with asked granted(1) show ?thesis by (simp add: rtranclp.rtrancl_into_rtrancl)
  qed
qed

lemma electionsD:
  assumes "elections_inv n s" "elections s (i, t) = Some el"
  shows "i < n" "(t, i, i) \<in> cl_granted s" "rv_Term (el_args el) = t" "rv_CandidateId (el_args el) = int i"
    "votes el = 1 + int (card {j. calls s (i, t, j) = Some Counted})"
  using assms by (auto simp: elections_inv_def)

lemma callsD:
  assumes "calls_inv n s" "calls s (i, t, j) = Some c"
  shows "j < n" "j \<noteq> i" "elections s (i, t) \<noteq> None" "c = Counted \<Longrightarrow> (t, j, i) \<in> cl_granted s"
    "c = Answered r \<Longrightarrow> rvr_VoteGranted r \<Longrightarrow> (t, j, i) \<in> cl_granted s"
  using assms unfolding calls_inv_def by blast+

lemma granted_term:
  assumes "cluster_inv n s" "(t, v, c) \<in> cl_granted s"
  shows "1 \<le> t" "t \<le> CurrentTerm (nodes s v)"
  using assms term_invD(3,4) [of "abs_votes s" t v c] by (simp_all add: cluster_inv_def vote_inv_def)

lemma finite_counted: "calls_inv n s \<Longrightarrow> finite {j. calls s (i, t, j) = Some c}"
  by (rule finite_subset [of _ "{..<n}"]) (auto dest: callsD(1))

text \<open>The votes that make a leader come from a majority.\<close>

lemma won_majority:
  assumes inv: "cluster_inv n s" and call: "calls s (i, t, j) = Some (Answered reply)" "rvr_VoteGranted reply"
    and el: "elections s (i, t) = Some el" and won: "Half (nodes s i) < votes el + 1"
  defines "Q \<equiv> insert i (insert j {k. calls s (i, t, k) = Some Counted})"
  shows "majority n Q" "\<forall>v \<in> Q. (t, v, i) \<in> cl_granted s"
proof -
  from inv have e: "elections_inv n s" and c: "calls_inv n s" by (simp_all add: cluster_inv_def)
  note fin = finite_counted [OF c, of i t Counted]
  have "i \<notin> insert j {k. calls s (i, t, k) = Some Counted}" using callsD(2) [OF c] call by blast
  moreover have "j \<notin> {k. calls s (i, t, k) = Some Counted}" using call by simp
  ultimately have "card Q = 2 + card {k. calls s (i, t, k) = Some Counted}"
    using fin by (simp add: Q_def)
  moreover have "Half (nodes s i) = int n div 2" using inv by (simp add: cluster_inv_def peers_inv_def)
  moreover have "Q \<subseteq> {..<n}" using electionsD(1) [OF e el] callsD(1) [OF c] call by (auto simp: Q_def)
  ultimately show "majority n Q" using won electionsD(5) [OF e el] by (simp add: majority_def)
  show "\<forall>v \<in> Q. (t, v, i) \<in> cl_granted s"
    using electionsD(2) [OF e el] callsD(4) [OF c] callsD(5) [OF c call(1)] call(2) by (auto simp: Q_def)
qed

lemma node_down_sim:
  assumes "view rf' = view (nodes s j) \<or> (\<exists>t > CurrentTerm (nodes s j). rf' = stepDown t (nodes s j))"
  shows "(vote_step n)\<^sup>*\<^sup>* (abs_votes s) (abs_votes (s\<lparr>nodes := (nodes s)(j := rf')\<rparr>))"
  using assms node_same [of rf' s j] node_down [of s j _ rf' _ n] by (auto intro: r_into_rtranclp)

lemma cluster_sim:
  assumes step: "cluster_step n s s'" and inv: "cluster_inv n s"
  shows "(vote_step n)\<^sup>*\<^sup>* (abs_votes s) (abs_votes s')"
proof -
  from inv have e: "elections_inv n s" and c: "calls_inv n s" by (simp_all add: cluster_inv_def)
  from step show ?thesis
  proof cases
    case (timeout i ev rf' outs el)
    let ?a = "abs_votes s"
    have "me (nodes s i) = int i" using inv by (simp add: cluster_inv_def peers_inv_def)
    then have "abs_votes s' = ?a\<lparr>ct := (ct ?a)(i := ct ?a i + 1), vf := (vf ?a)(i := int i),
        granted := insert (ct ?a i + 1, i, i) (granted ?a)\<rparr>"
      using timeout ticker_view(2) [OF timeout(3)] by (intro abs_votes_eqI) (auto simp: view_def)
    with vote_step.candidate [of n ?a i] show ?thesis by (simp add: r_into_rtranclp)
  next
    case (deliver i t j el ev rf' reply)
    note d = electionsD [OF e deliver(3)]
    from deliver_sim [OF d(3,4) _ deliver(4)] granted_term(1) [OF inv d(2)] deliver(1) show ?thesis
      by (simp add: abs_votes_def)
  next
    case (answer i t j reply el el' rf' outs)
    note d = electionsD [OF e answer(3)]
    from answer(4) show ?thesis
    proof (cases rule: electionReply_view)
      case none
      with answer node_same [of rf' s i] show ?thesis by (simp add: abs_votes_def)
    next
      case won
      let ?Q = "insert i (insert j {k. calls s (i, t, k) = Some Counted})"
      let ?a = "abs_votes s"
      have "CurrentTerm (nodes s i) = t" using won(5) d(3) by simp
      moreover from this have "abs_votes s' = ?a\<lparr>leaders := insert (ct ?a i, i) (leaders ?a)\<rparr>"
        using answer(1) won by (intro abs_votes_eqI) (auto simp: view_def)
      ultimately show ?thesis
        using vote_step.lead [of n ?Q ?a i] won_majority [OF inv answer(2) won(1) answer(3) won(4)]
        by (simp add: r_into_rtranclp)
    next
      case down
      then have "(vote_step n)\<^sup>*\<^sup>* (abs_votes s) (abs_votes (s\<lparr>nodes := (nodes s)(i := rf')\<rparr>))"
        by (intro node_down_sim) auto
      with answer(1) down(2) show ?thesis by (simp add: abs_votes_def)
    qed
  next
    case (lose i t j c)
    then show ?thesis by simp
  next
    case (append j args l ev rf' aer)
    with AppendEntries_view [OF append(5)] show ?thesis
      by (auto simp: node_same intro: r_into_rtranclp node_follow)
  next
    case (install j isArgs l ev rf' isr)
    with InstallSnapshot_view [OF install(5)] show ?thesis
      by (auto simp: node_same intro: r_into_rtranclp node_follow)
  next
    case (append_reply j server args aer ok rf' r)
    with node_down_sim [OF sendAppendEntries_view [OF append_reply(3)]] show ?thesis by simp
  next
    case (install_reply j server isArgs isr ok rf' r)
    with node_down_sim [OF sendInstallSnapshot_view [OF install_reply(3)]] show ?thesis by simp
  next
    case (local_step j rf')
    with node_same [OF local_op_view [OF local_step(3)]] show ?thesis by simp
  qed
qed

section \<open>The invariant of the cluster\<close>

lemma peers_update:
  assumes "peers_inv n s" "nodes s' = (nodes s)(j := rf')" "cl_leaders s \<subseteq> cl_leaders s'"
    "Half rf' = Half (nodes s j)" "me rf' = me (nodes s j)"
    "State rf' = Leader \<longrightarrow> (CurrentTerm rf', j) \<in> cl_leaders s'"
  shows "peers_inv n s'"
  using assms by (auto simp: peers_inv_def)

lemma peers_view:
  assumes "peers_inv n s" "nodes s' = (nodes s)(j := rf')" "cl_leaders s \<subseteq> cl_leaders s'"
    "view rf' = view (nodes s j) \<or> (\<exists>t v l r. r \<noteq> Leader \<and> view rf' = (t, v, l, r, Half (nodes s j), me (nodes s j)))"
  shows "peers_inv n s'"
  using assms(1) by (intro peers_update [OF assms(1-3)]) (use assms(3,4) in \<open>auto simp: view_def peers_inv_def\<close>)

lemma peers_inv_step:
  assumes step: "cluster_step n s s'" and inv: "cluster_inv n s"
  shows "peers_inv n s'"
proof -
  from inv have p: "peers_inv n s" by (simp add: cluster_inv_def)
  from step show ?thesis
  proof cases
    case (timeout i ev rf' outs el)
    with ticker_view(2) [OF timeout(3)] show ?thesis by (intro peers_view [OF p]) auto
  next
    case (deliver i t j el ev rf' reply)
    have "view rf' = view (nodes s j) \<or> (\<exists>t v l r. r \<noteq> Leader \<and> view rf' = (t, v, l, r, Half (nodes s j), me (nodes s j))) \<or>
        view rf' = view ((nodes s j)\<lparr>VotedFor := rv_CandidateId (el_args el)\<rparr>)"
      using deliver(4) by (cases rule: RequestVote_view) (auto simp: asked_def view_def stepDown_def split: if_splits)
    with deliver p show ?thesis
      by (intro peers_update [OF p, of s' j rf']) (auto simp: view_def peers_inv_def)
  next
    case (answer i t j reply el el' rf' outs)
    from inv have e: "elections_inv n s" by (simp add: cluster_inv_def)
    note d = electionsD [OF e answer(3)]
    from answer(4) show ?thesis
    proof (cases rule: electionReply_view)
      case won
      with answer(1) d(3) show ?thesis by (intro peers_update [OF p, of s' i rf']) (auto simp: view_def)
    next
      case none
      with answer(1) show ?thesis by (intro peers_view [OF p, of s' i rf']) auto
    next
      case down
      with answer(1) show ?thesis by (intro peers_view [OF p, of s' i rf']) auto
    qed
  next
    case (append j args l ev rf' aer)
    with AppendEntries_view [OF append(5)] show ?thesis
      by (intro peers_view [OF p, of s' j rf']) (auto simp: leader_view_def)
  next
    case (install j isArgs l ev rf' isr)
    with InstallSnapshot_view [OF install(5)] show ?thesis
      by (intro peers_view [OF p, of s' j rf']) (auto simp: leader_view_def)
  next
    case (append_reply j server args aer ok rf' r)
    with sendAppendEntries_view [OF append_reply(3)] show ?thesis
      by (intro peers_view [OF p, of s' j rf']) auto
  next
    case (install_reply j server isArgs isr ok rf' r)
    with sendInstallSnapshot_view [OF install_reply(3)] show ?thesis
      by (intro peers_view [OF p, of s' j rf']) auto
  next
    case (local_step j rf')
    with local_op_view [OF local_step(3)] show ?thesis by (intro peers_view [OF p, of s' j rf']) auto
  qed (use p in \<open>simp add: peers_inv_def\<close>)
qed

lemma fresh_term:
  assumes inv: "cluster_inv n s" and "CurrentTerm (nodes s i) < t"
  shows "elections s (i, t) = None" "calls s (i, t, j) = None"
proof -
  from inv have e: "elections_inv n s" and c: "calls_inv n s" by (simp_all add: cluster_inv_def)
  show none: "elections s (i, t) = None"
  proof (rule ccontr)
    assume "elections s (i, t) \<noteq> None"
    then obtain el where "elections s (i, t) = Some el" by blast
    from granted_term(2) [OF inv electionsD(2) [OF e this]] assms(2) show False by simp
  qed
  show "calls s (i, t, j) = None"
    using callsD(3) [OF c, of i t j] none by (cases "calls s (i, t, j)") auto
qed

lemma nodes_frame [simp]:
  "elections_inv n (s\<lparr>nodes := x\<rparr>) = elections_inv n s" "calls_inv n (s\<lparr>nodes := x\<rparr>) = calls_inv n s"
  by (simp_all add: elections_inv_def calls_inv_def)

lemma timeout_inv:
  assumes inv: "cluster_inv n s" and i: "i < n" and tick: "ticker ev (nodes s i) = Some (rf', outs, Some el)"
    and s': "s' = s\<lparr>nodes := (nodes s)(i := rf'),
      elections := (elections s)((i, CurrentTerm rf') \<mapsto> el),
      calls := (\<lambda>(a, t, j). if a = i \<and> t = CurrentTerm rf' \<and> j < n \<and> j \<noteq> i then Some Requested else calls s (a, t, j)),
      cl_granted := insert (CurrentTerm rf', i, i) (cl_granted s)\<rparr>"
  shows "elections_inv n s' \<and> calls_inv n s'"
proof -
  from inv have p: "peers_inv n s" and e: "elections_inv n s" and c: "calls_inv n s" by (simp_all add: cluster_inv_def)
  note v = ticker_view [OF tick]
  let ?t = "CurrentTerm (nodes s i) + 1"
  have t: "CurrentTerm rf' = ?t" using v(2) by (simp add: view_def)
  have none: "calls s (i, ?t, j) = None" for j by (rule fresh_term [OF inv]) simp
  have counted: "{j. calls s' (a, t', j) = Some Counted} = {j. calls s (a, t', j) = Some Counted}" for a t'
    unfolding s' t by (auto simp: none)
  have "me (nodes s i) = int i" using p by (simp add: peers_inv_def)
  then have "elections_inv n s'"
    using e v i none unfolding elections_inv_def counted by (auto simp: s' t)
  moreover have "calls_inv n s'"
    using c i unfolding calls_inv_def by (auto simp: s' t none)
  ultimately show ?thesis by blast
qed

lemma deliver_inv:
  assumes e: "elections_inv n s" and c: "calls_inv n s"
    and call: "calls s (i, t, j) = Some Requested"
    and s': "s' = s\<lparr>nodes := x, calls := (calls s)((i, t, j) \<mapsto> Answered reply),
      cl_granted := (if rvr_VoteGranted reply then insert (t, j, i) (cl_granted s) else cl_granted s)\<rparr>"
  shows "elections_inv n s' \<and> calls_inv n s'"
proof -
  have "{k. calls s' (a, t', k) = Some Counted} = {k. calls s (a, t', k) = Some Counted}" for a t'
    unfolding s' using call by auto
  then have "elections_inv n s'" using e unfolding elections_inv_def by (auto simp: s')
  moreover have "calls_inv n s'" using c call unfolding calls_inv_def by (auto simp: s')
  ultimately show ?thesis by blast
qed

lemma lose_inv:
  assumes e: "elections_inv n s" and c: "calls_inv n s" and call: "calls s (i, t, j) = Some k" "k \<noteq> Counted"
    and s': "s' = s\<lparr>calls := (calls s)((i, t, j) \<mapsto> Lost)\<rparr>"
  shows "elections_inv n s' \<and> calls_inv n s'"
proof -
  have "{m. calls s' (a, t', m) = Some Counted} = {m. calls s (a, t', m) = Some Counted}" for a t'
    unfolding s' using call by auto
  then have "elections_inv n s'" using e unfolding elections_inv_def by (auto simp: s')
  moreover have "calls_inv n s'" using c call unfolding calls_inv_def by (auto simp: s')
  ultimately show ?thesis by blast
qed

lemma answer_inv:
  assumes e: "elections_inv n s" and c: "calls_inv n s"
    and call: "calls s (i, t, j) = Some (Answered reply)" and el: "elections s (i, t) = Some el"
    and el': "el_args el' = el_args el" "votes el' = votes el + (if rvr_VoteGranted reply then 1 else 0)"
    and s': "s' = s\<lparr>nodes := x, elections := (elections s)((i, t) \<mapsto> el'),
      calls := (calls s)((i, t, j) \<mapsto> (if rvr_VoteGranted reply then Counted else Lost)), cl_leaders := L\<rparr>"
  shows "elections_inv n s' \<and> calls_inv n s'"
proof -
  have other: "{k. calls s' (a, t', k) = Some Counted} = {k. calls s (a, t', k) = Some Counted}" if "(a, t') \<noteq> (i, t)" for a t'
    using that unfolding s' by auto
  have own: "{k. calls s' (i, t, k) = Some Counted} =
      (if rvr_VoteGranted reply then insert j {k. calls s (i, t, k) = Some Counted} else {k. calls s (i, t, k) = Some Counted})"
    unfolding s' using call by auto
  have votes: "votes el' = 1 + int (card {k. calls s' (i, t, k) = Some Counted})"
    using el'(2) electionsD(5) [OF e el] finite_counted [OF c, of i t Counted] call by (simp add: own)
  have "elections_inv n s'"
    unfolding elections_inv_def
  proof (intro allI impI)
    fix a t' m
    assume m: "elections s' (a, t') = Some m"
    show "a < n \<and> (t', a, a) \<in> cl_granted s' \<and> rv_Term (el_args m) = t' \<and> rv_CandidateId (el_args m) = int a \<and>
        votes m = 1 + int (card {k. calls s' (a, t', k) = Some Counted})"
    proof (cases "(a, t') = (i, t)")
      case True
      with m electionsD(1-4) [OF e el] el'(1) votes show ?thesis by (auto simp: s')
    next
      case False
      with m have "elections s (a, t') = Some m" by (simp add: s' split: if_splits)
      with electionsD [OF e this] other [OF False] show ?thesis by (simp add: s')
    qed
  qed
  moreover have "calls_inv n s'"
    using callsD [OF c] call el unfolding calls_inv_def by (auto simp: s' split: if_splits)
  ultimately show ?thesis by blast
qed

lemma cluster_inv_step:
  assumes step: "cluster_step n s s'" and inv: "cluster_inv n s"
  shows "cluster_inv n s'"
proof -
  from inv have e: "elections_inv n s" and c: "calls_inv n s" by (simp_all add: cluster_inv_def)
  from step have "elections_inv n s' \<and> calls_inv n s'"
  proof cases
    case (timeout i ev rf' outs el)
    from timeout_inv [OF inv timeout(2,3,1)] show ?thesis .
  next
    case (deliver i t j el ev rf' reply)
    from deliver_inv [OF e c deliver(2,1)] show ?thesis .
  next
    case (answer i t j reply el el' rf' outs)
    from answer(4) have "el_args el' = el_args el" "votes el' = votes el + (if rvr_VoteGranted reply then 1 else 0)"
      by (cases rule: electionReply_view; simp)+
    from answer_inv [OF e c answer(2,3) this answer(1)] show ?thesis .
  next
    case (lose i t j c')
    from lose_inv [OF e c lose(2,3,1)] show ?thesis .
  qed (use e c in simp_all)
  moreover have "vote_inv n (abs_votes s')"
    using vote_inv_run [OF cluster_sim [OF step inv]] inv by (simp add: cluster_inv_def)
  ultimately show ?thesis
    using peers_inv_step [OF step inv] by (simp add: cluster_inv_def)
qed

lemma cluster_inv_init: "cluster_inv n (cluster_init n ev)"
  by (simp add: cluster_inv_def cluster_init_def peers_inv_def elections_inv_def calls_inv_def vote_inv_def
      term_inv_def free_inv_def lead_inv_def Make_eq)

lemma cluster_inv_run: "(cluster_step n)\<^sup>*\<^sup>* (cluster_init n ev) s \<Longrightarrow> cluster_inv n s"
  by (induction rule: rtranclp_induct) (auto intro: cluster_inv_init cluster_inv_step)

text \<open>
  C1: Election safety. In every run of a cluster without restarts, whatever messages are delayed or
  lost, two peers that are leaders of the same term are the same peer.
\<close>

theorem election_safety:
  assumes "(cluster_step n)\<^sup>*\<^sup>* (cluster_init n ev) s"
    and "State (nodes s i) = Leader" "State (nodes s j) = Leader"
    and "CurrentTerm (nodes s i) = CurrentTerm (nodes s j)"
  shows "i = j"
proof -
  from cluster_inv_run [OF assms(1)] have "peers_inv n s" "lead_inv n (abs_votes s)"
    by (simp_all add: cluster_inv_def vote_inv_def)
  moreover from this assms(2-4) have "(CurrentTerm (nodes s j), i) \<in> cl_leaders s" "(CurrentTerm (nodes s j), j) \<in> cl_leaders s"
    by (metis peers_inv_def)+
  ultimately show ?thesis using lead_unique [of n "abs_votes s" "CurrentTerm (nodes s j)" i j] by simp
qed

text \<open>A run of two peers in which peer 0 is elected with the vote of peer 1.\<close>

definition late :: env where
  "late = \<lparr>now = 1000, rnd = 0\<rparr>"

definition elect_init :: "(nat, nat) cluster" where
  "elect_init = cluster_init 2 (\<lambda>_. \<lparr>now = 0, rnd = 0\<rparr>)"

definition elect_request :: "(nat, nat) cluster" where
  "elect_request = (let (rf, args, _) = prepareElection late (nodes elect_init 0) in
     elect_init\<lparr>nodes := (nodes elect_init)(0 := rf),
       elections := (elections elect_init)((0, CurrentTerm rf) \<mapsto> fst (issueLeaderElection args rf)),
       calls := (\<lambda>(a, t, j). if a = 0 \<and> t = CurrentTerm rf \<and> j < 2 \<and> j \<noteq> 0 then Some Requested else calls elect_init (a, t, j)),
       cl_granted := insert (CurrentTerm rf, 0, 0) (cl_granted elect_init)\<rparr>)"

definition elect_el :: election where
  "elect_el = \<lparr>el_args = \<lparr>rv_Term = 1, rv_CandidateId = 0, rv_LastLogIndex = 0, rv_LastLogTerm = 0\<rparr>, votes = 1, el_done = False\<rparr>"

lemma elect_request_step: "cluster_step 2 elect_init elect_request"
proof -
  let ?rf = "fst (prepareElection late (nodes elect_init 0))" and ?args = "fst (snd (prepareElection late (nodes elect_init 0)))"
  have "ticker late (nodes elect_init 0) = Some (?rf, snd (issueLeaderElection ?args ?rf), Some (fst (issueLeaderElection ?args ?rf)))"
    by (simp add: ticker_def elect_init_def cluster_init_def Make_eq electionExpired_def late_def randElectionTimeout_def case_prod_beta)
  from cluster_step.timeout [OF _ this, of 2] show ?thesis
    by (simp add: elect_request_def case_prod_beta)
qed

lemma elect_request_eq:
  "nodes elect_request 1 = Make \<lparr>now = 0, rnd = 0\<rparr> 2 1 MakePersister"
  "calls elect_request (0, 1, 1) = Some Requested" "elections elect_request (0, 1) = Some elect_el"
  "nodes elect_request 0 = fst (prepareElection late (Make \<lparr>now = 0, rnd = 0\<rparr> 2 0 MakePersister))"
  by (simp_all add: elect_request_def elect_init_def cluster_init_def prepareElection_def Make_eq Let_def
      issueLeaderElection_def elect_el_def lastLogIndex_def lastLogTerm_def)

text \<open>The vote of peer 1 and the answer that reaches peer 0.\<close>

definition elect_vote :: "(nat, nat) Raft \<times> RequestVoteReply" where
  "elect_vote = RequestVote late (el_args elect_el) (Make \<lparr>now = 0, rnd = 0\<rparr> 2 1 MakePersister)"

lemma elect_vote_granted: "rvr_VoteGranted (snd elect_vote)"
  by code_simp

lemma elect_won:
  "map_option (\<lambda>(el, rf, outs). (State rf, CurrentTerm rf)) (electionReply True (snd elect_vote) elect_el
     (fst (prepareElection late (Make \<lparr>now = 0, rnd = 0\<rparr> 2 0 MakePersister :: (nat, nat) Raft)))) = Some (Leader, 1)"
  by code_simp

theorem election_safety_witness:
  "\<exists>s. (cluster_step 2)\<^sup>*\<^sup>* elect_init s \<and> {j. State (nodes s j) = Leader \<and> CurrentTerm (nodes s j) = 1} = {0}"
proof -
  obtain rf' reply where vote: "RequestVote late (el_args elect_el) (nodes elect_request 1) = (rf', reply)"
    and granted: "rvr_VoteGranted reply" and reply: "reply = snd elect_vote"
    using elect_vote_granted unfolding elect_request_eq elect_vote_def by (metis prod.collapse)
  note d = cluster_step.deliver [OF elect_request_eq(2,3) vote, of 2]
  let ?s = "elect_request\<lparr>nodes := (nodes elect_request)(1 := rf'), calls := (calls elect_request)((0, 1, 1) \<mapsto> Answered reply),
      cl_granted := (if rvr_VoteGranted reply then insert (1, 1, 0) (cl_granted elect_request) else cl_granted elect_request)\<rparr>"
  from elect_won reply obtain el' rf0 outs where won: "electionReply True reply elect_el (nodes ?s 0) = Some (el', rf0, outs)"
    and lead: "State rf0 = Leader" "CurrentTerm rf0 = 1"
    by (auto simp: elect_request_eq)
  from cluster_step.answer [OF _ _ won, of 1 1 2] elect_request_eq(3) obtain s where
    a: "cluster_step 2 ?s s" "nodes s 0 = rf0" by fastforce
  have run: "(cluster_step 2)\<^sup>*\<^sup>* (cluster_init 2 (\<lambda>_. \<lparr>now = 0, rnd = 0\<rparr>)) s"
    using elect_request_step d a(1) unfolding elect_init_def [symmetric] by (meson converse_rtranclp_into_rtranclp rtranclp.rtrancl_refl)
  have "{j. State (nodes s j) = Leader \<and> CurrentTerm (nodes s j) = 1} = {0}"
    using election_safety [OF run, of _ 0] lead a(2) by auto
  with run show ?thesis unfolding elect_init_def by blast
qed

section \<open>A restart forgets the leader, and with it the vote\<close>

lemma heartbeat_follower:
  assumes "newLeader (ae_Term args) rf" "CurrentTerm rf \<le> ae_Term args" "ae_Entries args = []"
    and step: "AppendEntries ev args rf = Some (rf', reply)"
  shows "VotedFor rf' = -1" "CurrentTerm rf' = ae_Term args" "Logs rf' = Logs rf"
    "SnapshotLastIncludedIndex rf' = SnapshotLastIncludedIndex rf" "SnapshotLastIncludedTerm rf' = SnapshotLastIncludedTerm rf"
proof -
  have "VotedFor rf' = -1 \<and> CurrentTerm rf' = ae_Term args \<and> Logs rf' = Logs rf \<and>
    SnapshotLastIncludedIndex rf' = SnapshotLastIncludedIndex rf \<and> SnapshotLastIncludedTerm rf' = SnapshotLastIncludedTerm rf"
    by (cases rule: AppendEntries_outcome [of args rf ev])
      (use assms in \<open>auto simp: acceptLeader_eq mergedLog_def\<close>)
  then show "VotedFor rf' = -1" "CurrentTerm rf' = ae_Term args" "Logs rf' = Logs rf"
    "SnapshotLastIncludedIndex rf' = SnapshotLastIncludedIndex rf" "SnapshotLastIncludedTerm rf' = SnapshotLastIncludedTerm rf"
    by simp_all
qed

lemma RequestVote_grants:
  assumes "VotedFor rf = -1" "rv_Term rv = CurrentTerm rf"
    "lastLogTerm rf < rv_LastLogTerm rv \<or> lastLogTerm rf = rv_LastLogTerm rv \<and> lastLogIndex rf \<le> rv_LastLogIndex rv"
  shows "rvr_VoteGranted (snd (RequestVote ev rv rf))" "VotedFor (fst (RequestVote ev rv rf)) = rv_CandidateId rv"
  using assms by (auto simp: RequestVote_def Let_def)

text \<open>
  C37: The vote that a restart reads back from disk does not survive the next heartbeat. \<open>Make\<close> sets
  \<open>LeaderTerm\<close> to \<open>-1\<close>, so after a restart every heartbeat of the current term looks like the first one
  of a new leader and resets \<open>VotedFor\<close>; from then on the peer grants its vote to any candidate of
  the same term whose log is up to date, whomever it has voted for before. This is why election
  safety is stated for runs without restarts.
\<close>

theorem restart_forgets_vote:
  assumes reach: "raft_reach n i rf" and voted: "VotedFor rf \<noteq> -1" and "0 \<le> CurrentTerm rf"
    and beat: "ae_Term args = CurrentTerm rf" "ae_Entries args = []"
    and rv: "rv_Term rv = CurrentTerm rf"
      "let rf0 = Make ev n i (persister rf) in lastLogTerm rf0 < rv_LastLogTerm rv \<or>
         lastLogTerm rf0 = rv_LastLogTerm rv \<and> lastLogIndex rf0 \<le> rv_LastLogIndex rv"
  shows "VotedFor (Make ev n i (persister rf)) = VotedFor rf \<and> CurrentTerm (Make ev n i (persister rf)) = CurrentTerm rf \<and>
    (\<exists>rf1 reply. AppendEntries ev1 args (Make ev n i (persister rf)) = Some (rf1, reply) \<and>
      VotedFor rf1 = -1 \<and> rvr_VoteGranted (snd (RequestVote ev2 rv rf1)) \<and>
      VotedFor (fst (RequestVote ev2 rv rf1)) = rv_CandidateId rv)"
proof -
  let ?rf0 = "Make ev n i (persister rf)"
  from raft_reach_inv [OF reach] have "disk_inv rf" by simp
  with voted have rf0: "VotedFor ?rf0 = VotedFor rf" "CurrentTerm ?rf0 = CurrentTerm rf" "LeaderTerm ?rf0 = -1"
    by (cases "savedState (persister rf)", simp add: Make_eq disk_inv_def)+
  have new: "newLeader (ae_Term args) ?rf0" "CurrentTerm ?rf0 \<le> ae_Term args"
    using rf0 assms(3) beat(1) by (auto simp: newLeader_def)
  obtain rf1 reply where step: "AppendEntries ev1 args ?rf0 = Some (rf1, reply)"
    by (cases rule: AppendEntries_outcome [of args ?rf0 ev1]) auto
  note rf1 = heartbeat_follower [OF new beat(2) step]
  have "lastLogTerm rf1 = lastLogTerm ?rf0" "lastLogIndex rf1 = lastLogIndex ?rf0"
    using rf1(3-5) by (simp_all only: lastLogTerm_def lastLogIndex_def)
  then have "lastLogTerm rf1 < rv_LastLogTerm rv \<or> lastLogTerm rf1 = rv_LastLogTerm rv \<and> lastLogIndex rf1 \<le> rv_LastLogIndex rv"
    using rv(2) by (simp only: Let_def)
  note grants = RequestVote_grants [OF rf1(1) _ this, of ev2]
  have "rv_Term rv = CurrentTerm rf1" using rv(1) beat(1) rf1(2) by simp
  with rf0 step rf1(1) grants show ?thesis by blast
qed

text \<open>The candidate of \<open>Raft_Steps\<close>, which has voted for itself in term 1, votes for peer 2 in that term.\<close>

definition forget_beat :: "nat AppendEntriesArgs" where
  "forget_beat = \<lparr>ae_Term = 1, ae_LeaderId = 1, ae_PrevLogIndex = 0, ae_PrevLogTerm = 0, ae_Entries = [], ae_LeaderCommit = 0\<rparr>"

definition forget_rv :: RequestVoteArgs where
  "forget_rv = \<lparr>rv_Term = 1, rv_CandidateId = 2, rv_LastLogIndex = 0, rv_LastLogTerm = 0\<rparr>"

theorem restart_forgets_vote_witness:
  "VotedFor demo_candidate = 0 \<and> CurrentTerm demo_candidate = 1 \<and>
   (\<exists>rf1 reply. AppendEntries late forget_beat (Make late 3 0 (persister demo_candidate)) = Some (rf1, reply) \<and>
      VotedFor (fst (RequestVote late forget_rv rf1)) = 2)"
proof -
  let ?rf0 = "Make late 3 0 (persister demo_candidate)"
  have c: "VotedFor demo_candidate = 0" "CurrentTerm demo_candidate = 1" "lastLogTerm ?rf0 = 0" "lastLogIndex ?rf0 = 0"
    by code_simp+
  have "ae_Term forget_beat = 1" "ae_Entries forget_beat = []" "rv_Term forget_rv = 1" "rv_CandidateId forget_rv = 2"
    "rv_LastLogTerm forget_rv = 0" "rv_LastLogIndex forget_rv = 0"
    by (simp_all add: forget_beat_def forget_rv_def)
  with c restart_forgets_vote [OF demo_candidate_reach, of forget_beat forget_rv late late late] show ?thesis
    by (simp add: Let_def) blast
qed

end
