(* ===== verification/Service.thy ===== *)
theory Service
  imports Prelude
begin

text \<open>
  What the replicated services of kvraft, shardctrler and shardkv have in common: a state machine
  that skips a command whose request number its client has already completed. The laws are the
  \<open>assumes\<close> of the locale \<open>dedup\<close> for a service whose commands may panic and of \<open>at_most_once\<close>, a
  sublocale of it, for one whose commands do not; each service interprets one on its own transition.
\<close>

lemma mget_upd: "mget d (m(k \<mapsto> v)) = (mget d m)(k := v)"
  by (simp add: fun_eq_iff)

section \<open>Commands that take effect\<close>

text \<open>
  The commands of a log that are not duplicates, given the request number completed per client.
\<close>

fun fresh_ops :: "('op \<Rightarrow> int) \<Rightarrow> ('op \<Rightarrow> int) \<Rightarrow> (int \<Rightarrow> int) \<Rightarrow> 'op list \<Rightarrow> 'op list" where
  "fresh_ops client reqno completed [] = []"
| "fresh_ops client reqno completed (op # ops) =
     (if reqno op \<le> completed (client op) then fresh_ops client reqno completed ops
      else op # fresh_ops client reqno (completed(client op := reqno op)) ops)"

lemma fresh_ops_above:
  "op \<in> set (fresh_ops client reqno completed ops) \<Longrightarrow> completed (client op) < reqno op"
  by (induction ops arbitrary: completed) (fastforce split: if_splits)+

lemma fresh_ops_subset: "set (fresh_ops client reqno completed ops) \<subseteq> set ops"
  by (induction ops arbitrary: completed) (auto split: if_splits)

text \<open>No request takes effect twice.\<close>

lemma fresh_ops_distinct:
  "distinct (map (\<lambda>op. (client op, reqno op)) (fresh_ops client reqno completed ops))"
proof (induction ops arbitrary: completed)
  case (Cons op ops)
  have "(client op, reqno op) \<notin> (\<lambda>op. (client op, reqno op)) ` set (fresh_ops client reqno (completed(client op := reqno op)) ops)"
    using fresh_ops_above [of _ client reqno "completed(client op := reqno op)" ops] by fastforce
  with Cons show ?case by simp
qed simp

text \<open>The requests of one client take effect in increasing order.\<close>

lemma fresh_ops_increasing:
  "sorted_wrt (\<lambda>a b. client a = client b \<longrightarrow> reqno a < reqno b) (fresh_ops client reqno completed ops)"
proof (induction ops arbitrary: completed)
  case (Cons op ops)
  then show ?case
    using fresh_ops_above [of _ client reqno "completed(client op := reqno op)" ops] by fastforce
qed simp

section \<open>The interface of a service\<close>

text \<open>Running commands that may panic, one after the other.\<close>

fun run_opt :: "('op \<Rightarrow> 'st \<Rightarrow> 'st option) \<Rightarrow> 'op list \<Rightarrow> 'st \<Rightarrow> 'st option" where
  "run_opt exec [] st = Some st"
| "run_opt exec (op # ops) st = Option.bind (exec op st) (run_opt exec ops)"

lemma run_opt_append: "run_opt exec (xs @ ys) st = Option.bind (run_opt exec xs st) (run_opt exec ys)"
  by (induction xs arbitrary: st) (auto split: bind_split)

lemma run_opt_Some: "run_opt (\<lambda>op st. Some (exec op st)) ops st = Some (fold exec ops st)"
  by (induction ops arbitrary: st) simp_all

lemma run_opt_invariant:
  "run_opt exec ops st = Some st' \<Longrightarrow> P st \<Longrightarrow>
   (\<And>op s s'. P s \<Longrightarrow> exec op s = Some s' \<Longrightarrow> P s') \<Longrightarrow> P st'"
  by (induction ops arbitrary: st) (auto simp: Option.bind_eq_Some_conv)

locale dedup =
  fixes step :: "'op \<Rightarrow> 'st \<Rightarrow> 'st option"
    and client :: "'op \<Rightarrow> int"
    and reqno :: "'op \<Rightarrow> int"
    and completed :: "'st \<Rightarrow> int \<Rightarrow> int"
  assumes step_old: "reqno op \<le> completed st (client op) \<Longrightarrow> step op st = Some st"
    and completed_step_new: "completed st (client op) < reqno op \<Longrightarrow> step op st = Some st' \<Longrightarrow>
      completed st' = (completed st)(client op := reqno op)"
begin

lemma completed_step_le:
  assumes "step op st = Some st'"
  shows "completed st c \<le> completed st' c" "reqno op \<le> completed st' (client op)"
proof -
  have "completed st c \<le> completed st' c \<and> reqno op \<le> completed st' (client op)"
  proof (cases "reqno op \<le> completed st (client op)")
    case True
    with step_old [OF True] assms show ?thesis by simp
  next
    case False
    then have "completed st' = (completed st)(client op := reqno op)" using assms by (intro completed_step_new) simp_all
    with False show ?thesis by simp
  qed
  then show "completed st c \<le> completed st' c" "reqno op \<le> completed st' (client op)" by simp_all
qed

lemma completed_run_le: "run_opt step ops st = Some st' \<Longrightarrow> completed st c \<le> completed st' c"
  by (induction ops arbitrary: st) (auto simp: Option.bind_eq_Some_conv dest: completed_step_le(1) order_trans)

lemma completed_run_in:
  "run_opt step ops st = Some st' \<Longrightarrow> op \<in> set ops \<Longrightarrow> reqno op \<le> completed st' (client op)"
proof (induction ops arbitrary: st)
  case (Cons a ops)
  then obtain s where s: "step a st = Some s" "run_opt step ops s = Some st'" by (auto simp: Option.bind_eq_Some_conv)
  show ?case
  proof (cases "op = a")
    case True
    then show ?thesis using completed_step_le(2) [OF s(1)] completed_run_le [OF s(2)] order_trans by blast
  qed (use Cons s in simp)
qed simp

text \<open>Running a log is running the commands that take effect; one that is in the log has no further effect.\<close>

lemma run_opt_fresh: "run_opt step ops st = run_opt step (fresh_ops client reqno (completed st) ops) st"
proof (induction ops arbitrary: st)
  case (Cons op ops)
  show ?case
  proof (cases "reqno op \<le> completed st (client op)")
    case True
    then show ?thesis using Cons [of st] by (simp add: step_old)
  next
    case False
    show ?thesis
    proof (cases "step op st")
      case (Some a)
      have "completed a = (completed st)(client op := reqno op)" using False Some by (intro completed_step_new) simp_all
      with False Some Cons [of a] show ?thesis by (simp only: run_opt.simps fresh_ops.simps if_False Option.bind.bind_lunit)
    qed (use False in simp)
  qed
qed simp

lemma run_opt_duplicate: "run_opt step ops st = Some st' \<Longrightarrow> op \<in> set ops \<Longrightarrow> step op st' = Some st'"
  by (rule step_old) (rule completed_run_in)

end

text \<open>A service that never panics.\<close>

locale at_most_once =
  fixes exec :: "'op \<Rightarrow> 'st \<Rightarrow> 'st"
    and client :: "'op \<Rightarrow> int"
    and reqno :: "'op \<Rightarrow> int"
    and completed :: "'st \<Rightarrow> int \<Rightarrow> int"
  assumes exec_old: "reqno op \<le> completed st (client op) \<Longrightarrow> exec op st = st"
    and completed_exec: "completed st (client op) < reqno op \<Longrightarrow>
      completed (exec op st) = (completed st)(client op := reqno op)"
begin

lemma exec_twice: "exec op (exec op st) = exec op st"
  by (cases "reqno op \<le> completed st (client op)") (simp_all add: exec_old completed_exec)

lemma completed_step: "completed (exec op st) c = (if c = client op then max (completed st c) (reqno op) else completed st c)"
  by (cases "reqno op \<le> completed st (client op)") (auto simp: exec_old completed_exec)

lemma completed_mono: "completed st c \<le> completed (fold exec ops st) c"
proof (induction ops arbitrary: st)
  case (Cons op ops)
  have "completed st c \<le> completed (exec op st) c" by (simp add: completed_step)
  also have "\<dots> \<le> completed (fold exec ops (exec op st)) c" by (rule Cons)
  finally show ?case by simp
qed simp

lemma completed_run:
  "completed (fold exec ops st) c = fold (\<lambda>op m. if client op = c then max m (reqno op) else m) ops (completed st c)"
  by (induction ops arbitrary: st) (auto simp: completed_step)

end

sublocale at_most_once \<subseteq> partial: dedup "\<lambda>op st. Some (exec op st)" client reqno completed
  by unfold_locales (auto simp: exec_old completed_exec)

context at_most_once
begin

lemma run_fresh: "fold exec ops st = fold exec (fresh_ops client reqno (completed st) ops) st"
  using partial.run_opt_fresh [of ops st] by (simp add: run_opt_Some)

lemma completed_after: "op \<in> set ops \<Longrightarrow> reqno op \<le> completed (fold exec ops st) (client op)"
  using partial.completed_run_in [of ops st _ op] by (simp add: run_opt_Some)

lemma run_duplicate: "op \<in> set ops \<Longrightarrow> exec op (fold exec ops st) = fold exec ops st"
  using partial.run_opt_duplicate [of ops st _ op] by (simp add: run_opt_Some)

end

end
