(* ===== verification/KVRaft.thy ===== *)
theory KVRaft
  imports Raft_Persist Service
begin

text \<open>
  The key/value service of src/src/kvraft: its messages (common.go), the server (server.go) on top of
  a Raft peer, and the clerk (client.go).

  \<^item> A handler that waits on a condition variable is cut at \<open>Wait\<close>: \<open>kv_Get\<close> and \<open>kv_PutAppend\<close> run
    up to the first \<open>Wait\<close> and give either the reply or the term to wait in; \<open>kv_Get_wake\<close> and
    \<open>kv_PutAppend_wake\<close> run from a wake-up to the reply or to the next \<open>Wait\<close> (\<open>None\<close>).
  \<^item> A condition variable is a number, \<open>c\<close> is the one that \<open>sync.NewCond\<close> returns; a broadcast is an
    output.
  \<^item> The outer \<open>option\<close> of an operation is the panic that a call into Raft may end in.
\<close>

section \<open>Messages\<close>

record GetArgs =
  g_Key :: string
  g_ClientId :: int
  g_ReqNo :: int

record GetReply =
  gr_Err :: string
  gr_Value :: string
  gr_Success :: bool

record PutAppendArgs =
  pa_Key :: string
  pa_Value :: string
  pa_Op :: string
  pa_ClientId :: int
  pa_ReqNo :: int

record PutAppendReply =
  par_Err :: string
  par_Success :: bool

definition GetReply0 :: GetReply where
  "GetReply0 = \<lparr>gr_Err = [], gr_Value = [], gr_Success = False\<rparr>"

definition PutAppendReply0 :: PutAppendReply where
  "PutAppendReply0 = \<lparr>par_Err = [], par_Success = False\<rparr>"

definition T_PUT :: string where
  "T_PUT = ''Put''"

definition T_APPEND :: string where
  "T_APPEND = ''Append''"

section \<open>The server\<close>

record Op =
  IsGetOp :: bool
  GetArg :: GetArgs
  PutAppendArg :: PutAppendArgs
  op_ClientId :: int
  op_ReqNo :: int

definition GetArgs0 :: GetArgs where
  "GetArgs0 = \<lparr>g_Key = [], g_ClientId = 0, g_ReqNo = 0\<rparr>"

definition PutAppendArgs0 :: PutAppendArgs where
  "PutAppendArgs0 = \<lparr>pa_Key = [], pa_Value = [], pa_Op = [], pa_ClientId = 0, pa_ReqNo = 0\<rparr>"

text \<open>The values in a snapshot of the service.\<close>

datatype kv_gob = KInt int | KPool "int \<rightharpoonup> int" | KMap "string \<rightharpoonup> string"

fun as_kint :: "kv_gob \<Rightarrow> int option" where
  "as_kint (KInt i) = Some i"
| "as_kint _ = None"

fun as_kpool :: "kv_gob \<Rightarrow> (int \<rightharpoonup> int) option" where
  "as_kpool (KPool p) = Some p"
| "as_kpool _ = None"

fun as_kmap :: "kv_gob \<Rightarrow> (string \<rightharpoonup> string) option" where
  "as_kmap (KMap m) = Some m"
| "as_kmap _ = None"

record KVServer =
  kv_me :: int
  kv_rf :: "(Op, kv_gob) Raft"
  kv_dead :: int
  maxraftstate :: int
  KVMap :: "string \<rightharpoonup> string"
  CompletedPool :: "int \<rightharpoonup> int"
  CompletedCondPool :: "int \<rightharpoonup> nat"
  CommitedId :: int

definition kv_Get :: "nat \<Rightarrow> GetArgs \<Rightarrow> KVServer \<Rightarrow> (KVServer \<times> (GetReply + int)) option" where
  "kv_Get c args kv =
     (if \<not> snd (GetState (kv_rf kv)) then Some (kv, Inl (GetReply0\<lparr>gr_Success := False\<rparr>))
      else if g_ReqNo args \<le> mget 0 (CompletedPool kv) (g_ClientId args)
      then Some (kv, Inl (GetReply0\<lparr>gr_Success := True, gr_Value := mget [] (KVMap kv) (g_Key args)\<rparr>))
      else do {
        let op = \<lparr>IsGetOp = True, GetArg = args, PutAppendArg = PutAppendArgs0,
                  op_ClientId = g_ClientId args, op_ReqNo = g_ReqNo args\<rparr>;
        (rf, index, startTerm, isLeader) \<leftarrow> Start op (kv_rf kv);
        let kv = kv\<lparr>kv_rf := rf\<rparr>;
        if \<not> isLeader then Some (kv, Inl (GetReply0\<lparr>gr_Success := False\<rparr>))
        else Some (kv\<lparr>CompletedCondPool := (CompletedCondPool kv)(g_ClientId args \<mapsto> c)\<rparr>, Inr startTerm)
      })"

definition kv_Get_wake :: "int \<Rightarrow> GetArgs \<Rightarrow> KVServer \<Rightarrow> GetReply option" where
  "kv_Get_wake startTerm args kv =
     (let (curTerm, isLeader) = GetState (kv_rf kv)
      in if curTerm \<noteq> startTerm \<or> \<not> isLeader then Some (GetReply0\<lparr>gr_Success := False\<rparr>)
         else if CompletedPool kv (g_ClientId args) = Some (g_ReqNo args)
         then Some (GetReply0\<lparr>gr_Success := True, gr_Value := mget [] (KVMap kv) (g_Key args)\<rparr>)
         else None)"

definition kv_PutAppend :: "nat \<Rightarrow> PutAppendArgs \<Rightarrow> KVServer \<Rightarrow> (KVServer \<times> (PutAppendReply + int)) option" where
  "kv_PutAppend c args kv =
     (if \<not> snd (GetState (kv_rf kv)) then Some (kv, Inl (PutAppendReply0\<lparr>par_Success := False\<rparr>))
      else if pa_ReqNo args \<le> mget 0 (CompletedPool kv) (pa_ClientId args)
      then Some (kv, Inl (PutAppendReply0\<lparr>par_Success := True\<rparr>))
      else do {
        let op = \<lparr>IsGetOp = False, GetArg = GetArgs0, PutAppendArg = args,
                  op_ClientId = pa_ClientId args, op_ReqNo = pa_ReqNo args\<rparr>;
        (rf, index, startTerm, isLeader) \<leftarrow> Start op (kv_rf kv);
        let kv = kv\<lparr>kv_rf := rf\<rparr>;
        if \<not> isLeader then Some (kv, Inl (PutAppendReply0\<lparr>par_Success := False\<rparr>))
        else Some (kv\<lparr>CompletedCondPool := (CompletedCondPool kv)(pa_ClientId args \<mapsto> c)\<rparr>, Inr startTerm)
      })"

definition kv_PutAppend_wake :: "int \<Rightarrow> PutAppendArgs \<Rightarrow> KVServer \<Rightarrow> PutAppendReply option" where
  "kv_PutAppend_wake startTerm args kv =
     (let (curTerm, isLeader) = GetState (kv_rf kv)
      in if curTerm \<noteq> startTerm \<or> \<not> isLeader then Some (PutAppendReply0\<lparr>par_Success := False\<rparr>)
         else if CompletedPool kv (pa_ClientId args) = Some (pa_ReqNo args)
         then Some (PutAppendReply0\<lparr>par_Success := True\<rparr>)
         else None)"

text \<open>One round of \<open>BroadcastAllPeoridly\<close>: the condition variables that are signalled.\<close>

definition BroadcastAllPeoridly :: "KVServer \<Rightarrow> nat set" where
  "BroadcastAllPeoridly kv = ran (CompletedCondPool kv)"

definition kv_Kill :: "KVServer \<Rightarrow> KVServer" where
  "kv_Kill kv = kv\<lparr>kv_dead := 1, kv_rf := Kill (kv_rf kv)\<rparr>"

definition kv_killed :: "KVServer \<Rightarrow> bool" where
  "kv_killed kv \<longleftrightarrow> kv_dead kv = 1"

section \<open>Snapshots of the service\<close>

definition kv_decode :: "kv_gob list \<Rightarrow> (int \<times> (int \<rightharpoonup> int) \<times> (string \<rightharpoonup> string)) option" where
  "kv_decode data = do {
     (commitedId, r) \<leftarrow> Decode as_kint data;
     (pool, r) \<leftarrow> Decode as_kpool r;
     (m, r) \<leftarrow> Decode as_kmap r;
     Some (commitedId, pool, m)
   }"

definition kv_ReadSnapshot :: "kv_gob list \<Rightarrow> KVServer \<Rightarrow> KVServer option" where
  "kv_ReadSnapshot data kv =
     (if data = [] then Some kv
      else case kv_decode data of
        None \<Rightarrow> Some kv
      | Some (commitedId, pool, m) \<Rightarrow> do {
          let kv = kv\<lparr>CommitedId := commitedId, KVMap := m, CompletedPool := pool\<rparr>;
          rf \<leftarrow> Snapshot (CommitedId kv) data (kv_rf kv);
          Some (kv\<lparr>kv_rf := rf\<rparr>)
        })"

definition kv_stream :: "int \<Rightarrow> (int \<rightharpoonup> int) \<Rightarrow> (string \<rightharpoonup> string) \<Rightarrow> kv_gob list" where
  "kv_stream commitedId pool m = Encode (KMap m) (Encode (KPool pool) (Encode (KInt commitedId) []))"

text \<open>One round of the goroutine \<open>Snapshot\<close>.\<close>

definition kv_Snapshot :: "(Op raft_gob list \<Rightarrow> int) \<Rightarrow> KVServer \<Rightarrow> KVServer option" where
  "kv_Snapshot size_of kv =
     (if maxraftstate kv = -1 \<or> GetRaftStateSize size_of (kv_rf kv) < maxraftstate kv then Some kv
      else do {
        rf \<leftarrow> Snapshot (CommitedId kv) (kv_stream (CommitedId kv) (CompletedPool kv) (KVMap kv)) (kv_rf kv);
        Some (kv\<lparr>kv_rf := rf\<rparr>)
      })"

section \<open>Applying the log\<close>

text \<open>The effect of a committed command on the map and on the completed requests (lines 266-277).\<close>

type_synonym kv_state = "(string \<rightharpoonup> string) \<times> (int \<rightharpoonup> int)"

definition kv_write :: "PutAppendArgs \<Rightarrow> (string \<rightharpoonup> string) \<Rightarrow> (string \<rightharpoonup> string)" where
  "kv_write args m =
     (if pa_Op args = T_PUT then m(pa_Key args \<mapsto> pa_Value args)
      else if pa_Op args = T_APPEND then m(pa_Key args \<mapsto> mget [] m (pa_Key args) @ pa_Value args)
      else m)"

definition kv_exec :: "Op \<Rightarrow> kv_state \<Rightarrow> kv_state" where
  "kv_exec msg = (\<lambda>(m, pool).
     if op_ReqNo msg > mget 0 pool (op_ClientId msg)
     then (if \<not> IsGetOp msg then kv_write (PutAppendArg msg) m else m,
           pool(op_ClientId msg \<mapsto> op_ReqNo msg))
     else (m, pool))"

text \<open>One round of \<open>applyLog\<close>: the new state and the condition variable it signals.\<close>

definition kv_applyLog :: "(Op, kv_gob) ApplyMsg \<Rightarrow> KVServer \<Rightarrow> (KVServer \<times> nat option) option" where
  "kv_applyLog applyMsg kv =
     (if am_CommandValid applyMsg then do {
        msg \<leftarrow> am_Command applyMsg;
        let (m, pool) = kv_exec msg (KVMap kv, CompletedPool kv);
        let kv = kv\<lparr>KVMap := m, CompletedPool := pool\<rparr>;
        Some (kv\<lparr>CommitedId := max_int (CommitedId kv) (am_CommandIndex applyMsg)\<rparr>,
              CompletedCondPool kv (op_ClientId msg))
      }
      else if am_SnapshotIndex applyMsg > CommitedId kv
      then map_option (\<lambda>kv. (kv, None)) (kv_ReadSnapshot (am_Snapshot applyMsg) kv)
      else Some (kv, None))"

definition StartKVServer ::
  "env \<Rightarrow> nat \<Rightarrow> int \<Rightarrow> (Op raft_gob, kv_gob) Persister \<Rightarrow> int \<Rightarrow> KVServer option" where
  "StartKVServer ev n i ps maxstate =
     kv_ReadSnapshot (ReadSnapshot ps)
       \<lparr>kv_me = i, kv_rf = Make ev n i ps, kv_dead = 0, maxraftstate = maxstate,
        KVMap = Map.empty, CompletedPool = Map.empty, CompletedCondPool = Map.empty, CommitedId = 0\<rparr>"

section \<open>The clerk\<close>

record Clerk =
  servers :: nat
  ck_me :: int
  recentLeader :: int
  ck_reqNo :: int

text \<open>\<open>seq\<close> is the package variable that numbers the clerks; the new value is returned with the clerk.\<close>

definition MakeClerk :: "nat \<Rightarrow> int \<Rightarrow> Clerk \<times> int" where
  "MakeClerk n seq = (\<lparr>servers = n, ck_me = seq + 1, recentLeader = 0, ck_reqNo = 0\<rparr>, seq + 1)"

text \<open>
  The network is a function \<open>call k i\<close>: the outcome of the \<open>k\<close>-th call, made to server \<open>i\<close>; \<open>None\<close> is
  a call that returned \<open>false\<close>, \<open>Some r\<close> one that filled in the reply \<open>r\<close>. The inner loop of lines
  71-78 gives the reply and the server, or the number of calls made.
\<close>

fun tryServers :: "(nat \<Rightarrow> nat \<Rightarrow> 'r option) \<Rightarrow> ('r \<Rightarrow> bool) \<Rightarrow> nat \<Rightarrow> nat list \<Rightarrow> ('r \<times> nat) + nat" where
  "tryServers call success k [] = Inr k"
| "tryServers call success k (i # is) =
     (case call k i of
        Some r \<Rightarrow> if success r then Inl (r, i) else tryServers call success (Suc k) is
      | None \<Rightarrow> tryServers call success (Suc k) is)"

text \<open>
  The retry loop of \<open>Get\<close> and \<open>PutAppend\<close>; the result is the reply and the new \<open>recentLeader\<close>. \<open>None\<close>
  is a loop that never ends (or the index panic of a clerk without servers).
\<close>

partial_function (option) clerkLoop ::
  "(nat \<Rightarrow> nat \<Rightarrow> 'r option) \<Rightarrow> ('r \<Rightarrow> bool) \<Rightarrow> nat \<Rightarrow> int \<Rightarrow> nat \<Rightarrow> ('r \<times> int) option" where
  "clerkLoop call success n leader k =
     (if 0 \<le> leader \<and> leader < int n then
        (case call k (nat leader) of
           Some r \<Rightarrow>
             if success r then Some (r, leader)
             else (case tryServers call success (Suc k) [0..<n] of
                     Inl (r, i) \<Rightarrow> Some (r, int i)
                   | Inr k' \<Rightarrow> clerkLoop call success n leader k')
         | None \<Rightarrow>
             (case tryServers call success (Suc k) [0..<n] of
                Inl (r, i) \<Rightarrow> Some (r, int i)
              | Inr k' \<Rightarrow> clerkLoop call success n leader k'))
      else None)"

definition ck_Get ::
  "(GetArgs \<Rightarrow> nat \<Rightarrow> nat \<Rightarrow> GetReply option) \<Rightarrow> string \<Rightarrow> Clerk \<Rightarrow> (string \<times> Clerk) option" where
  "ck_Get call key ck = do {
     let ck = ck\<lparr>ck_reqNo := ck_reqNo ck + 1\<rparr>;
     let args = \<lparr>g_Key = key, g_ClientId = ck_me ck, g_ReqNo = ck_reqNo ck\<rparr>;
     (reply, leader) \<leftarrow> clerkLoop (call args) gr_Success (servers ck) (recentLeader ck) 0;
     Some (gr_Value reply, ck\<lparr>recentLeader := leader\<rparr>)
   }"

definition ck_PutAppend ::
  "(PutAppendArgs \<Rightarrow> nat \<Rightarrow> nat \<Rightarrow> PutAppendReply option) \<Rightarrow> string \<Rightarrow> string \<Rightarrow> string \<Rightarrow> Clerk \<Rightarrow> Clerk option" where
  "ck_PutAppend call key v op ck = do {
     let ck = ck\<lparr>ck_reqNo := ck_reqNo ck + 1\<rparr>;
     let args = \<lparr>pa_Key = key, pa_Value = v, pa_Op = op, pa_ClientId = ck_me ck, pa_ReqNo = ck_reqNo ck\<rparr>;
     (reply, leader) \<leftarrow> clerkLoop (call args) par_Success (servers ck) (recentLeader ck) 0;
     Some (ck\<lparr>recentLeader := leader\<rparr>)
   }"

definition ck_Put :: "(PutAppendArgs \<Rightarrow> nat \<Rightarrow> nat \<Rightarrow> PutAppendReply option) \<Rightarrow> string \<Rightarrow> string \<Rightarrow> Clerk \<Rightarrow> Clerk option" where
  "ck_Put call key v = ck_PutAppend call key v ''Put''"

definition ck_Append :: "(PutAppendArgs \<Rightarrow> nat \<Rightarrow> nat \<Rightarrow> PutAppendReply option) \<Rightarrow> string \<Rightarrow> string \<Rightarrow> Clerk \<Rightarrow> Clerk option" where
  "ck_Append call key v = ck_PutAppend call key v ''Append''"

end
