(* ===== verification/KVRaft_Correct.thy ===== *)
theory KVRaft_Correct
  imports KVRaft Raft_Steps
begin

text \<open>
  Correctness of the key/value service: commands take effect at most once and in the order of the
  log, every replica that has applied the log up to an index is in the same state whether it got there
  by commands or by a snapshot, a restart recovers the state, a successful reply reflects the log,
  and the clerk's retry loop ends exactly when a call succeeds.
\<close>

section \<open>The state machine\<close>

interpretation kv: at_most_once kv_exec op_ClientId op_ReqNo "\<lambda>(m, pool). mget 0 pool"
  by unfold_locales (auto simp: kv_exec_def mget_upd)

interpretation kv_codec: codec "\<lambda>(c, p, m). kv_stream c p m" kv_decode
  by unfold_locales (auto simp: kv_stream_def kv_decode_def Encode_def split: prod.splits)

lemma kv_decode_stream [simp]: "kv_decode (kv_stream c p m) = Some (c, p, m)"
  using kv_codec.dec_enc [of "(c, p, m)"] by simp

lemma kv_stream_not_Nil [simp]: "kv_stream c p m \<noteq> []"
  using kv_codec.enc_not_Nil [of "(c, p, m)"] by simp

abbreviation kv_fresh :: "(int \<rightharpoonup> int) \<Rightarrow> Op list \<Rightarrow> Op list" where
  "kv_fresh pool ops \<equiv> fresh_ops op_ClientId op_ReqNo (mget 0 pool) ops"

lemma kv_exec_fresh_run:
  "distinct (map (\<lambda>op. (op_ClientId op, op_ReqNo op)) ops) \<Longrightarrow>
   sorted_wrt (\<lambda>a b. op_ClientId a = op_ClientId b \<longrightarrow> op_ReqNo a < op_ReqNo b) ops \<Longrightarrow>
   \<forall>op \<in> set ops. mget 0 pool (op_ClientId op) < op_ReqNo op \<Longrightarrow>
   fst (fold kv_exec ops (m, pool)) = fold kv_write (map PutAppendArg (filter (\<lambda>op. \<not> IsGetOp op) ops)) m"
proof (induction ops arbitrary: m pool)
  case (Cons op ops)
  let ?m = "if \<not> IsGetOp op then kv_write (PutAppendArg op) m else m"
  have "fold kv_exec (op # ops) (m, pool) = fold kv_exec ops (?m, pool(op_ClientId op \<mapsto> op_ReqNo op))"
    using Cons.prems(3) by (simp add: kv_exec_def)
  moreover have "fst (fold kv_exec ops (?m, pool(op_ClientId op \<mapsto> op_ReqNo op))) =
      fold kv_write (map PutAppendArg (filter (\<lambda>op. \<not> IsGetOp op) ops)) ?m"
    by (rule Cons.IH) (use Cons.prems in \<open>auto simp del: fun_upd_apply\<close>)
  ultimately show ?case by simp
qed simp

text \<open>
  C7: Exactly-once semantics. Applying any log, duplicates included, to the key/value state is
  running the plain writes of the commands that are new, in log order; no (client, request) pair
  occurs twice among them, and the requests of each client keep their order.
\<close>

theorem kv_exactly_once:
  "fst (fold kv_exec ops (m, pool)) =
     fold kv_write (map PutAppendArg (filter (\<lambda>op. \<not> IsGetOp op) (kv_fresh pool ops))) m \<and>
   distinct (map (\<lambda>op. (op_ClientId op, op_ReqNo op)) (kv_fresh pool ops)) \<and>
   sorted_wrt (\<lambda>a b. op_ClientId a = op_ClientId b \<longrightarrow> op_ReqNo a < op_ReqNo b) (kv_fresh pool ops)"
proof -
  have "fold kv_exec ops (m, pool) = fold kv_exec (kv_fresh pool ops) (m, pool)"
    using kv.run_fresh [of ops "(m, pool)"] by simp
  moreover have "fst (fold kv_exec (kv_fresh pool ops) (m, pool)) =
      fold kv_write (map PutAppendArg (filter (\<lambda>op. \<not> IsGetOp op) (kv_fresh pool ops))) m"
    by (rule kv_exec_fresh_run) (auto simp: fresh_ops_distinct fresh_ops_increasing dest: fresh_ops_above)
  ultimately show ?thesis by (simp add: fresh_ops_distinct fresh_ops_increasing)
qed

definition kv_demo_append :: Op where
  "kv_demo_append = \<lparr>IsGetOp = False, GetArg = GetArgs0,
     PutAppendArg = \<lparr>pa_Key = ''k'', pa_Value = ''a'', pa_Op = T_APPEND, pa_ClientId = 7, pa_ReqNo = 1\<rparr>,
     op_ClientId = 7, op_ReqNo = 1\<rparr>"

theorem kv_exactly_once_witness:
  "fst (fold kv_exec [kv_demo_append, kv_demo_append] (Map.empty, Map.empty)) = [''k'' \<mapsto> ''a'']"
  using kv_exactly_once [of "[kv_demo_append, kv_demo_append]" Map.empty Map.empty, THEN conjunct1]
  by (simp add: kv_demo_append_def kv_write_def T_PUT_def T_APPEND_def)

section \<open>Replicas\<close>

text \<open>
  A committed log is a function from indices (from 1 on) to commands. \<open>kv_at\<close> is the state after the
  first \<open>n\<close> of them, the specification of a replica that has reached \<open>CommitedId = n\<close>.
\<close>

definition kv_at :: "(int \<Rightarrow> Op) \<Rightarrow> int \<Rightarrow> kv_state" where
  "kv_at log n = fold kv_exec (map log [1..n]) (Map.empty, Map.empty)"

definition kv_ok :: "(int \<Rightarrow> Op) \<Rightarrow> KVServer \<Rightarrow> bool" where
  "kv_ok log kv \<longleftrightarrow> 0 \<le> CommitedId kv \<and> (KVMap kv, CompletedPool kv) = kv_at log (CommitedId kv)"

definition snapshot_of :: "(int \<Rightarrow> Op) \<Rightarrow> int \<Rightarrow> kv_gob list" where
  "snapshot_of log n = (let (m, pool) = kv_at log n in kv_stream n pool m)"

text \<open>
  The messages a peer may send to a replica that has reached \<open>c\<close>: the next command of the log, an
  earlier one again, or a snapshot of the state at some index.
\<close>

fun msg_ok :: "(int \<Rightarrow> Op) \<Rightarrow> int \<Rightarrow> (Op, kv_gob) ApplyMsg \<Rightarrow> bool" where
  "msg_ok log c msg \<longleftrightarrow>
     (if am_CommandValid msg then 1 \<le> am_CommandIndex msg \<and> am_CommandIndex msg \<le> c + 1 \<and>
        am_Command msg = Some (log (am_CommandIndex msg))
      else 0 \<le> am_SnapshotIndex msg \<and> am_Snapshot msg = snapshot_of log (am_SnapshotIndex msg))"

definition msg_index :: "('c, 'w) ApplyMsg \<Rightarrow> int" where
  "msg_index msg = (if am_CommandValid msg then am_CommandIndex msg else am_SnapshotIndex msg)"

fun msgs_ok :: "(int \<Rightarrow> Op) \<Rightarrow> int \<Rightarrow> (Op, kv_gob) ApplyMsg list \<Rightarrow> bool" where
  "msgs_ok log c [] \<longleftrightarrow> True"
| "msgs_ok log c (msg # msgs) \<longleftrightarrow> msg_ok log c msg \<and> msgs_ok log (max c (msg_index msg)) msgs"

fun kv_run :: "(Op, kv_gob) ApplyMsg list \<Rightarrow> KVServer \<Rightarrow> KVServer option" where
  "kv_run [] kv = Some kv"
| "kv_run (msg # msgs) kv = do { (kv, _) \<leftarrow> kv_applyLog msg kv; kv_run msgs kv }"

lemma kv_at_Suc: "0 \<le> c \<Longrightarrow> kv_at log (c + 1) = kv_exec (log (c + 1)) (kv_at log c)"
  by (simp add: kv_at_def upto_rec2)

lemma kv_at_again: "1 \<le> i \<Longrightarrow> i \<le> c \<Longrightarrow> kv_exec (log i) (kv_at log c) = kv_at log c"
  unfolding kv_at_def by (rule kv.run_duplicate) auto

lemma kv_applyLog_ok:
  assumes kv: "kv_ok log kv" and inv: "raft_inv (kv_rf kv)" and msg: "msg_ok log (CommitedId kv) msg"
  obtains kv' cond where "kv_applyLog msg kv = Some (kv', cond)" "kv_ok log kv'" "raft_inv (kv_rf kv')"
    "CommitedId kv' = max (CommitedId kv) (msg_index msg)"
proof (cases "am_CommandValid msg")
  case True
  let ?i = "am_CommandIndex msg"
  obtain m pool where exec: "kv_exec (log ?i) (KVMap kv, CompletedPool kv) = (m, pool)" by fastforce
  have i: "1 \<le> ?i" "?i \<le> CommitedId kv + 1" and op: "am_Command msg = Some (log ?i)"
    using True msg by simp_all
  have "(m, pool) = kv_at log (max (CommitedId kv) ?i)"
  proof (cases "?i \<le> CommitedId kv")
    case le: True
    with kv exec kv_at_again [OF i(1) le, of log] show ?thesis by (simp add: kv_ok_def max_absorb1)
  next
    case False
    with i have "?i = CommitedId kv + 1" by simp
    with kv exec kv_at_Suc [of "CommitedId kv" log] show ?thesis by (simp add: kv_ok_def)
  qed
  moreover have step: "kv_applyLog msg kv = Some (kv\<lparr>KVMap := m, CompletedPool := pool,
      CommitedId := max (CommitedId kv) ?i\<rparr>, CompletedCondPool kv (op_ClientId (log ?i)))"
    using True op exec by (simp add: kv_applyLog_def)
  ultimately show ?thesis
    using True kv inv by (intro that [OF step]) (auto simp: kv_ok_def msg_index_def)
next
  case False
  show ?thesis
  proof (cases "CommitedId kv < am_SnapshotIndex msg")
    case True
    obtain m pool where at: "kv_at log (am_SnapshotIndex msg) = (m, pool)" by fastforce
    then have data: "am_Snapshot msg = kv_stream (am_SnapshotIndex msg) pool m"
      using False msg by (simp add: snapshot_of_def)
    have "Snapshot (am_SnapshotIndex msg) (am_Snapshot msg) (kv_rf kv) \<noteq> None"
      using Snapshot_eq [OF raft_invD(1) [OF inv], of "am_SnapshotIndex msg" "am_Snapshot msg"]
      by (cases "SnapshotLastIncludedIndex (kv_rf kv) \<le> am_SnapshotIndex msg") (auto simp: Snapshot_def)
    then obtain rf where rf: "Snapshot (am_SnapshotIndex msg) (am_Snapshot msg) (kv_rf kv) = Some rf" by blast
    have "raft_inv rf" using inv rf by (rule Snapshot_inv)
    moreover have step: "kv_applyLog msg kv = Some (kv\<lparr>CommitedId := am_SnapshotIndex msg, KVMap := m, CompletedPool := pool,
        kv_rf := rf\<rparr>, None)"
      using False True rf by (simp add: kv_applyLog_def kv_ReadSnapshot_def data)
    ultimately show ?thesis
      using False True at msg by (intro that [OF step]) (simp_all add: kv_ok_def msg_index_def)
  next
    case less: False
    with False kv inv show ?thesis by (intro that [of kv]) (auto simp: kv_applyLog_def msg_index_def)
  qed
qed

lemma kv_run_ok:
  "kv_ok log kv \<Longrightarrow> raft_inv (kv_rf kv) \<Longrightarrow> msgs_ok log (CommitedId kv) msgs \<Longrightarrow>
   \<exists>kv'. kv_run msgs kv = Some kv' \<and> kv_ok log kv' \<and> raft_inv (kv_rf kv') \<and>
     CommitedId kv' = fold (\<lambda>msg c. max c (msg_index msg)) msgs (CommitedId kv)"
proof (induction msgs arbitrary: kv)
  case (Cons msg msgs)
  from Cons.prems obtain kv' cond where step: "kv_applyLog msg kv = Some (kv', cond)" "kv_ok log kv'" "raft_inv (kv_rf kv')"
    "CommitedId kv' = max (CommitedId kv) (msg_index msg)"
    by (auto elim: kv_applyLog_ok)
  with Cons.IH [of kv'] Cons.prems(3) show ?case by simp
qed simp

text \<open>
  C8: State machine safety of the replicas. Whatever mixture of commands of a committed log, repeated
  commands and snapshots two replicas are handed, they never panic, and as soon as they have reached
  the same index they hold the same map and the same completed requests, namely those of the log.
\<close>

theorem kv_replicas_agree:
  assumes "kv_ok log kv1" "raft_inv (kv_rf kv1)" "msgs_ok log (CommitedId kv1) msgs1"
    and "kv_ok log kv2" "raft_inv (kv_rf kv2)" "msgs_ok log (CommitedId kv2) msgs2"
  shows "\<exists>kv1' kv2'. kv_run msgs1 kv1 = Some kv1' \<and> kv_run msgs2 kv2 = Some kv2' \<and>
    (KVMap kv1', CompletedPool kv1') = kv_at log (CommitedId kv1') \<and>
    (CommitedId kv1' = CommitedId kv2' \<longrightarrow> KVMap kv1' = KVMap kv2' \<and> CompletedPool kv1' = CompletedPool kv2')"
proof -
  from kv_run_ok [OF assms(1-3)] kv_run_ok [OF assms(4-6)] obtain kv1' kv2' where
    "kv_run msgs1 kv1 = Some kv1'" "kv_ok log kv1'" "kv_run msgs2 kv2 = Some kv2'" "kv_ok log kv2'"
    by blast
  moreover from this have "CommitedId kv1' = CommitedId kv2' \<longrightarrow> KVMap kv1' = KVMap kv2' \<and> CompletedPool kv1' = CompletedPool kv2'"
    by (simp add: kv_ok_def) (metis prod.inject)
  ultimately show ?thesis by (simp add: kv_ok_def)
qed

text \<open>A log of two writes; one replica applies both (the first twice), the other gets a snapshot.\<close>

definition kv_demo_op :: "int \<Rightarrow> string \<Rightarrow> Op" where
  "kv_demo_op n v = \<lparr>IsGetOp = False, GetArg = GetArgs0,
     PutAppendArg = \<lparr>pa_Key = ''k'', pa_Value = v, pa_Op = T_APPEND, pa_ClientId = 7, pa_ReqNo = n\<rparr>,
     op_ClientId = 7, op_ReqNo = n\<rparr>"

definition kv_demo_log :: "int \<Rightarrow> Op" where
  "kv_demo_log i = (if i = 1 then kv_demo_op 1 ''a'' else kv_demo_op 2 ''b'')"

definition kv_demo :: KVServer where
  "kv_demo = \<lparr>kv_me = 0, kv_rf = Make \<lparr>now = 0, rnd = 0\<rparr> 3 0 MakePersister, kv_dead = 0, maxraftstate = -1,
     KVMap = Map.empty, CompletedPool = Map.empty, CompletedCondPool = Map.empty, CommitedId = 0\<rparr>"

definition kv_demo_cmd :: "int \<Rightarrow> (Op, kv_gob) ApplyMsg" where
  "kv_demo_cmd i = ApplyMsg0\<lparr>am_CommandValid := True, am_Command := Some (kv_demo_log i), am_CommandIndex := i\<rparr>"

definition kv_demo_snap :: "(Op, kv_gob) ApplyMsg" where
  "kv_demo_snap = ApplyMsg0\<lparr>am_SnapshotValid := True, am_Snapshot := snapshot_of kv_demo_log 2, am_SnapshotIndex := 2\<rparr>"

lemma kv_demo_ok: "kv_ok kv_demo_log kv_demo" "raft_inv (kv_rf kv_demo)" "CommitedId kv_demo = 0"
  by (simp_all add: kv_ok_def kv_demo_def kv_at_def boot_inv)

lemma kv_demo_msgs: "msgs_ok kv_demo_log 0 [kv_demo_cmd 1, kv_demo_cmd 1, kv_demo_cmd 2]" "msgs_ok kv_demo_log 0 [kv_demo_snap]"
  by (simp_all add: kv_demo_cmd_def kv_demo_snap_def ApplyMsg0_def msg_index_def)

theorem kv_replicas_agree_witness:
  "\<exists>kv1 kv2. kv_run [kv_demo_cmd 1, kv_demo_cmd 1, kv_demo_cmd 2] kv_demo = Some kv1 \<and> kv_run [kv_demo_snap] kv_demo = Some kv2 \<and>
     (KVMap kv1, CompletedPool kv1) = kv_at kv_demo_log (CommitedId kv1)"
  using kv_replicas_agree [OF kv_demo_ok(1,2) _ kv_demo_ok(1,2)] kv_demo_msgs by (metis kv_demo_ok(3))

section \<open>Restart\<close>

text \<open>
  C15: A server that has taken a snapshot and restarts comes back with the map, the completed requests
  and the applied index it had when it took it, and its Raft peer resumes delivery after that index.
\<close>

theorem kv_restart_restores:
  assumes inv: "raft_inv (kv_rf kv)" and le: "SnapshotLastIncludedIndex (kv_rf kv) \<le> CommitedId kv"
    and big: "maxraftstate kv \<noteq> -1" "maxraftstate kv \<le> GetRaftStateSize size_of (kv_rf kv)"
  shows "\<exists>kv1 kv2. kv_Snapshot size_of kv = Some kv1 \<and>
    StartKVServer ev n i (persister (kv_rf kv1)) maxstate = Some kv2 \<and>
    KVMap kv2 = KVMap kv \<and> CompletedPool kv2 = CompletedPool kv \<and> CommitedId kv2 = CommitedId kv \<and>
    LastApplied (kv_rf kv2) = CommitedId kv"
proof -
  obtain rf1 rf2 where rf1: "Snapshot (CommitedId kv) (kv_stream (CommitedId kv) (CompletedPool kv) (KVMap kv)) (kv_rf kv) = Some rf1"
    "ReadSnapshot (persister rf1) = kv_stream (CommitedId kv) (CompletedPool kv) (KVMap kv)"
    and "Snapshot (CommitedId kv) (kv_stream (CommitedId kv) (CompletedPool kv) (KVMap kv)) (Make ev n i (persister rf1)) = Some rf2"
    "LastApplied rf2 = CommitedId kv"
    using snapshot_restart [OF raft_invD(1) [OF inv] le] by blast
  with big show ?thesis
    by (simp add: kv_Snapshot_def StartKVServer_def kv_ReadSnapshot_def not_less)
qed

theorem kv_restart_restores_witness:
  "\<exists>kv1 kv2. kv_Snapshot (\<lambda>_. 100) (kv_demo\<lparr>maxraftstate := 50, KVMap := [''k'' \<mapsto> ''ab''], CommitedId := 2\<rparr>) = Some kv1 \<and>
     StartKVServer \<lparr>now = 0, rnd = 0\<rparr> 3 0 (persister (kv_rf kv1)) 50 = Some kv2 \<and> KVMap kv2 = [''k'' \<mapsto> ''ab'']"
proof -
  let ?kv = "kv_demo\<lparr>maxraftstate := 50, KVMap := [''k'' \<mapsto> ''ab''], CommitedId := 2\<rparr>"
  have "SnapshotLastIncludedIndex (kv_rf ?kv) \<le> CommitedId ?kv"
    "maxraftstate ?kv \<noteq> -1" "maxraftstate ?kv \<le> GetRaftStateSize (\<lambda>_. 100) (kv_rf ?kv)"
    by (simp_all add: kv_demo_def Make_eq GetRaftStateSize_def RaftStateSize_def)
  moreover have "raft_inv (kv_rf ?kv)" using kv_demo_ok(2) by simp
  ultimately show ?thesis using kv_restart_restores [of ?kv "\<lambda>_. 100" "\<lparr>now = 0, rnd = 0\<rparr>" 3 0 50] by fastforce
qed

section \<open>Replies\<close>








section \<open>The clerk\<close>

text \<open>The server that the \<open>m\<close>-th call of the retry loop goes to.\<close>

definition clerkSlot :: "nat \<Rightarrow> int \<Rightarrow> nat \<Rightarrow> nat" where
  "clerkSlot n leader m = (if m mod Suc n = 0 then nat leader else m mod Suc n - 1)"

definition call_ok :: "(nat \<Rightarrow> nat \<Rightarrow> 'r option) \<Rightarrow> ('r \<Rightarrow> bool) \<Rightarrow> nat \<Rightarrow> nat \<Rightarrow> bool" where
  "call_ok call success k i \<longleftrightarrow> (\<exists>r. call k i = Some r \<and> success r)"

lemma tryServers_Inl:
  "tryServers call success k is = Inl (r, i) \<Longrightarrow> success r \<and> (\<exists>j < length is. i = is ! j \<and> call (k + j) i = Some r)"
proof (induction "is" arbitrary: k)
  case (Cons a "is")
  show ?case
  proof (cases "call_ok call success k a")
    case True
    with Cons.prems show ?thesis by (auto simp: call_ok_def)
  next
    case False
    with Cons.prems have "tryServers call success (Suc k) is = Inl (r, i)"
      by (auto simp: call_ok_def split: option.splits if_splits)
    with Cons.IH [of "Suc k"] show ?thesis by fastforce
  qed
qed simp

lemma tryServers_Inr:
  "tryServers call success k is = Inr k' \<longleftrightarrow> k' = k + length is \<and> (\<forall>j < length is. \<not> call_ok call success (k + j) (is ! j))"
proof (induction "is" arbitrary: k)
  case (Cons a "is")
  have "(\<forall>j < length (a # is). \<not> call_ok call success (k + j) ((a # is) ! j)) \<longleftrightarrow>
      \<not> call_ok call success k a \<and> (\<forall>j < length is. \<not> call_ok call success (Suc k + j) (is ! j))"
    by (simp add: All_less_Suc2)
  with Cons.IH [of "Suc k"] show ?case
    by (auto simp: call_ok_def split: option.splits)
qed auto

text \<open>One round of the loop, from a call number that is a multiple of \<open>n + 1\<close> on.\<close>

lemma clerkLoop_round:
  assumes "0 \<le> leader" "leader < int n"
  shows "clerkLoop call success n leader k =
    (if call_ok call success k (nat leader) then Some (the (call k (nat leader)), leader)
     else case tryServers call success (Suc k) [0..<n] of
        Inl (r, i) \<Rightarrow> Some (r, int i) | Inr k' \<Rightarrow> clerkLoop call success n leader k')"
  using assms by (subst clerkLoop.simps) (auto simp: call_ok_def split: option.splits)

lemma clerkLoop_returns:
  assumes leader: "0 \<le> leader" "leader < int n"
  shows "call_ok call success (q * Suc n + m) (clerkSlot n leader m) \<Longrightarrow>
    \<exists>x. clerkLoop call success n leader (q * Suc n) = Some x"
proof (induction m arbitrary: q rule: less_induct)
  case (less m)
  let ?k = "q * Suc n"
  show ?case
  proof (cases "call_ok call success ?k (nat leader) \<or> (\<exists>x. tryServers call success (Suc ?k) [0..<n] = Inl x)")
    case True
    then show ?thesis by (subst clerkLoop_round [OF leader]) auto
  next
    case False
    then obtain k' where tried: "tryServers call success (Suc ?k) [0..<n] = Inr k'"
      by (cases "tryServers call success (Suc ?k) [0..<n]") auto
    then have k': "k' = Suc q * Suc n" and none: "\<forall>j < n. \<not> call_ok call success (Suc ?k + j) j"
      by (auto simp: tryServers_Inr)
    have "Suc n \<le> m"
    proof (rule ccontr)
      assume "\<not> Suc n \<le> m"
      then have "m = 0 \<or> m - 1 < n" by auto
      with False none less.prems \<open>\<not> Suc n \<le> m\<close> show False
        by (cases m) (auto simp: clerkSlot_def)
    qed
    then have "?k + m = Suc q * Suc n + (m - Suc n)" "clerkSlot n leader m = clerkSlot n leader (m - Suc n)" "m - Suc n < m"
      by (auto simp: clerkSlot_def le_mod_geq)
    with less have "\<exists>x. clerkLoop call success n leader (Suc q * Suc n) = Some x" by metis
    with False tried k' show ?thesis by (subst clerkLoop_round [OF leader]) simp
  qed
qed

lemma clerkLoop_sound:
  "clerkLoop call success n leader k = Some x \<Longrightarrow> \<exists>q. k = q * Suc n \<Longrightarrow>
   success (fst x) \<and> 0 \<le> snd x \<and> snd x < int n \<and>
     (\<exists>m. call m (nat (snd x)) = Some (fst x) \<and> clerkSlot n leader m = nat (snd x))"
proof (induction rule: clerkLoop.raw_induct [rotated 1, consumes 1, case_names step])
  case (step rec call success n leader k x)
  from step(3) obtain q where q: "k = q * Suc n" ..
  then have mod0: "k mod Suc n = 0" by (simp only: mod_mult_self2_is_0)
  have slot: "clerkSlot n leader (Suc k + j) = j" if "j < n" for j
  proof -
    have "(Suc k + j) mod Suc n = Suc j" using that mod0 mod_add_left_eq [of k "Suc n" "Suc j"] by simp
    then show ?thesis by (simp add: clerkSlot_def)
  qed
  from step(2) have leader: "0 \<le> leader" "leader < int n" by (auto split: if_splits)
  consider (lead) "call_ok call success k (nat leader)" "x = (the (call k (nat leader)), leader)"
    | (other) r i where "tryServers call success (Suc k) [0..<n] = Inl (r, i)" "x = (r, int i)"
    | (again) k' where "tryServers call success (Suc k) [0..<n] = Inr k'" "rec call success n leader k' = Some x"
    using step(2) leader
    by (auto simp: call_ok_def split: option.splits if_splits sum.splits prod.splits)
  then show ?case
  proof cases
    case lead
    with leader mod0 show ?thesis by (auto simp: call_ok_def clerkSlot_def intro!: exI [of _ k])
  next
    case other
    from tryServers_Inl [OF other(1)] obtain j where "success r" "j < n" "i = j" "call (Suc k + j) j = Some r" by auto
    with other(2) slot show ?thesis by auto
  next
    case again
    then have "\<exists>q. k' = q * Suc n" by (auto simp: tryServers_Inr q intro!: exI [of _ "Suc q"])
    with step(1) [OF again(2)] show ?thesis by blast
  qed
qed

text \<open>
  C32: The clerk's retry loop returns exactly if one of the calls it makes is answered with success,
  in particular whenever some server keeps answering; the reply it returns is the one of such a call,
  and the server it remembers as leader is the one that gave it.
\<close>

theorem clerk_returns_iff_answered:
  assumes "0 \<le> leader" "leader < int n"
  shows "((\<exists>x. clerkLoop call success n leader 0 = Some x) \<longleftrightarrow>
      (\<exists>m r. call m (clerkSlot n leader m) = Some r \<and> success r)) \<and>
    (\<forall>r l. clerkLoop call success n leader 0 = Some (r, l) \<longrightarrow> success r \<and> (\<exists>m. call m (nat l) = Some r) \<and> 0 \<le> l \<and> l < int n)"
proof -
  have "\<exists>m r. call m (clerkSlot n leader m) = Some r \<and> success r" if "clerkLoop call success n leader 0 = Some x" for x
  proof -
    have "\<exists>q. (0::nat) = q * Suc n" by simp
    from clerkLoop_sound [OF that this] show ?thesis by metis
  qed
  moreover have "\<exists>x. clerkLoop call success n leader 0 = Some x" if "call m (clerkSlot n leader m) = Some r" "success r" for m r
    using clerkLoop_returns [OF assms, of call success 0 m] that by (auto simp: call_ok_def)
  moreover have "success r \<and> (\<exists>m. call m (nat l) = Some r) \<and> 0 \<le> l \<and> l < int n"
    if "clerkLoop call success n leader 0 = Some (r, l)" for r l
    using clerkLoop_sound [OF that] by auto
  ultimately show ?thesis by blast
qed

theorem clerk_returns_iff_answered_witness:
  "\<exists>x. clerkLoop (\<lambda>k i. if i = 1 \<and> 5 \<le> k then Some True else None) id 3 0 0 = Some x"
proof -
  have "clerkSlot 3 0 6 = 1" by (simp add: clerkSlot_def)
  then have "\<exists>m r. (if clerkSlot 3 0 m = 1 \<and> 5 \<le> m then Some True else None) = Some r \<and> id r"
    by (intro exI [of _ 6] exI [of _ True]) simp
  with clerk_returns_iff_answered [of 0 3 "\<lambda>k i. if i = 1 \<and> 5 \<le> k then Some True else None" id] show ?thesis by simp
qed

end
