(* ===== verification/ShardCtrler.thy ===== *)
theory ShardCtrler
  imports Raft_Persist Service "HOL-Library.Product_Lexorder"
begin

text \<open>
  The shard controller of src/src/shardctrler: configurations (common.go), how Join, Leave and Move
  make a new one (server.go), the replicated server and the clerk (client.go).

  \<^item> A configuration assigns the \<open>NShards\<close> shards to groups; \<open>Shards\<close> is the array, as a list.
  \<^item> A loop over a Go map takes the order in which it visits the keys as an argument (\<open>ord\<close>); the
    theory \<open>ShardCtrler_Correct\<close> shows that it does not matter. \<open>sort.Slice\<close> with a comparison that is
    a total order on the elements is \<open>sort_key\<close>.
  \<^item> \<open>None\<close> is a panic: a division by zero or an index out of range.
  \<^item> The four handlers are cut at \<open>Wait\<close> like those of \<open>KVRaft\<close>.
\<close>

section \<open>Configurations\<close>

definition NShards :: int where
  "NShards = 10"

record Config =
  Num :: int
  Shards :: "int list"
  Groups :: "int \<rightharpoonup> string list"

definition Config0 :: Config where
  "Config0 = \<lparr>Num = 0, Shards = replicate (nat NShards) 0, Groups = Map.empty\<rparr>"

definition deepCopy :: "int list \<Rightarrow> Config \<Rightarrow> Config" where
  "deepCopy ord cfg = Config0\<lparr>Shards := Shards cfg,
     Groups := go_range ord (Groups cfg) (\<lambda>k v m. m(k \<mapsto> mget [] m k @ v)) Map.empty\<rparr>"

definition removeDuplicate :: "string list \<Rightarrow> string list \<Rightarrow> string list" where
  "removeDuplicate ord strs =
     (let mp = fold (\<lambda>str m. m(str \<mapsto> True)) strs Map.empty
      in go_range ord mp (\<lambda>str _ result. result @ [str]) [])"

definition initConfifg :: "int list \<Rightarrow> (int \<rightharpoonup> string list) \<Rightarrow> Config \<Rightarrow> Config option" where
  "initConfifg ord srvs cfg = do {
     let cfg = cfg\<lparr>Groups := srvs\<rparr>;
     let gids = sort (go_range ord (Groups cfg) (\<lambda>gid _ gids. gids @ [gid]) []);
     let gNum = len gids;
     shards \<leftarrow> fold (\<lambda>i shards. do {
         shards \<leftarrow> shards;
         gid \<leftarrow> (if gNum = 0 then None else go_nth gids (i mod gNum));
         go_set shards i gid
       }) [0..NShards - 1] (Some (Shards cfg));
     Some (cfg\<lparr>Shards := shards\<rparr>)
   }"

section \<open>Rebalancing\<close>

text \<open>The shards of every group, in increasing order (lines 85-88).\<close>

definition groupShards :: "int list \<Rightarrow> (int \<rightharpoonup> int list)" where
  "groupShards shards = fold (\<lambda>(shardId, gid) m. m(gid \<mapsto> mget [] m gid @ [shardId]))
     (zip [0..len shards - 1] shards) Map.empty"

definition glen :: "(int \<rightharpoonup> int list) \<Rightarrow> int \<Rightarrow> int" where
  "glen gid2shards gid = len (mget [] gid2shards gid)"

text \<open>The list of \<open>GidPair\<close>s (gid, count) of lines 89-105, sorted by count and then by gid.\<close>

definition gidPairs :: "int list \<Rightarrow> int list \<Rightarrow> (int \<rightharpoonup> int list) \<Rightarrow> (int \<rightharpoonup> string list) \<Rightarrow> (int \<times> int) list" where
  "gidPairs ord1 ord2 gid2shards groups =
     (let gids = go_range ord1 gid2shards (\<lambda>gid ids gids. gids @ [(gid, len ids)]) [];
          gids = go_range ord2 groups
            (\<lambda>gid _ gids. if gid2shards gid = None then gids @ [(gid, 0)] else gids) gids
      in sort_key (\<lambda>(gid, count). (count, gid)) gids)"

text \<open>The body of the loop of lines 109-123: \<open>part\<close> shards go from group \<open>gj\<close> to group \<open>gi\<close>.\<close>

definition moveShards :: "int \<Rightarrow> int \<Rightarrow> int \<Rightarrow> (int \<rightharpoonup> int list) \<Rightarrow> (int \<rightharpoonup> int list) option" where
  "moveShards part gi gj gid2shards = do {
     moved \<leftarrow> go_slice (mget [] gid2shards gj) 0 part;
     let gid2shards = gid2shards(gi \<mapsto> mget [] gid2shards gi @ moved);
     rest \<leftarrow> go_from (mget [] gid2shards gj) part;
     Some (gid2shards(gj \<mapsto> rest))
   }"

text \<open>One test of the loop condition and, if it holds, one round; \<open>Some None\<close> is the exit of the loop.\<close>

definition rebalanceRound ::
  "(int \<times> int) list \<Rightarrow> int \<Rightarrow> int \<Rightarrow> int \<Rightarrow> (int \<rightharpoonup> int list) \<Rightarrow> (int \<times> int \<times> (int \<rightharpoonup> int list)) option option" where
  "rebalanceRound gids avg i j gid2shards =
     (if i < j then do {
        (gi, _) \<leftarrow> go_nth gids i;
        (gj, _) \<leftarrow> go_nth gids j;
        if glen gid2shards gi < avg \<and> glen gid2shards gj > avg then do {
          let need = avg - glen gid2shards gi;
          let extra = glen gid2shards gj - avg;
          gid2shards \<leftarrow> moveShards (min_int need extra) gi gj gid2shards;
          Some (Some (if extra = need then (i + 1, j - 1, gid2shards)
                      else if extra > need then (i + 1, j, gid2shards)
                      else (i, j - 1, gid2shards)))
        } else Some None
      } else Some None)"

lemma rebalanceRound_decreases:
  "rebalanceRound gids avg i j m = Some (Some (i', j', m')) \<Longrightarrow> i < j \<and> j' - i' < j - i"
  by (auto simp: rebalanceRound_def Let_def Option.bind_eq_Some_conv split: if_splits prod.splits)

function rebalanceLoop ::
  "(int \<times> int) list \<Rightarrow> int \<Rightarrow> int \<Rightarrow> int \<Rightarrow> (int \<rightharpoonup> int list) \<Rightarrow> (int \<rightharpoonup> int list) option" where
  "rebalanceLoop gids avg i j gid2shards =
     (case rebalanceRound gids avg i j gid2shards of
        None \<Rightarrow> None
      | Some None \<Rightarrow> Some gid2shards
      | Some (Some (i', j', gid2shards')) \<Rightarrow> rebalanceLoop gids avg i' j' gid2shards')"
  by pat_completeness auto

termination
  by (relation "measure (\<lambda>(gids, avg, i, j, m). nat (j - i))") (auto dest: rebalanceRound_decreases)

declare rebalanceLoop.simps [simp del]

text \<open>The assignment of lines 124-128.\<close>

definition assignShards :: "int list \<Rightarrow> (int \<rightharpoonup> int list) \<Rightarrow> int list \<Rightarrow> int list option" where
  "assignShards ord gid2shards shards =
     go_range ord gid2shards
       (\<lambda>gid ids shards. fold (\<lambda>shardId shards. do { shards \<leftarrow> shards; go_set shards shardId gid }) ids shards)
       (Some shards)"

text \<open>The orders in which one command visits its maps.\<close>

record orders =
  ord_copy :: "int list"
  ord_join :: "int list"
  ord_count :: "int list"
  ord_origin :: "int list"
  ord_newcome :: "int list"
  ord_assign :: "int list"

text \<open>\<open>len(cfg.Groups)\<close> is the number of keys that a loop over \<open>cfg.Groups\<close> visits.\<close>

definition rebalanceConfig :: "orders \<Rightarrow> Config \<Rightarrow> Config option" where
  "rebalanceConfig ord cfg =
     (let n = len (ord_newcome ord)
      in if n = 0 then Some cfg
      else do {
        let gid2shards = groupShards (Shards cfg);
        let gids = gidPairs (ord_origin ord) (ord_newcome ord) gid2shards (Groups cfg);
        let avg = max_int 1 (NShards div n);
        gid2shards \<leftarrow> rebalanceLoop gids avg 0 (len gids - 1) gid2shards;
        shards \<leftarrow> assignShards (ord_assign ord) gid2shards (Shards cfg);
        Some (cfg\<lparr>Shards := shards\<rparr>)
      })"

section \<open>The commands\<close>

record JoinArgs =
  j_ClientId :: int
  j_ReqNo :: int
  Servers :: "int \<rightharpoonup> string list"

record LeaveArgs =
  l_ClientId :: int
  l_ReqNo :: int
  GIDs :: "int list"

record MoveArgs =
  m_ClientId :: int
  m_ReqNo :: int
  Shard :: int
  GID :: int

record QueryArgs =
  q_ClientId :: int
  q_ReqNo :: int
  q_Num :: int

record JoinReply =
  jr_WrongLeader :: bool
  jr_Err :: string

record QueryReply =
  qr_WrongLeader :: bool
  qr_Err :: string
  qr_Config :: Config

text \<open>\<open>LeaveReply\<close> and \<open>MoveReply\<close> have the fields of \<open>JoinReply\<close>.\<close>

type_synonym LeaveReply = JoinReply

type_synonym MoveReply = JoinReply

definition lastConfig :: "Config list \<Rightarrow> Config option" where
  "lastConfig configs = go_nth configs (len configs - 1)"

definition doJoin :: "orders \<Rightarrow> JoinArgs \<Rightarrow> Config list \<Rightarrow> Config list option" where
  "doJoin ord args configs = do {
     cfg \<leftarrow> lastConfig configs;
     let ncfg = (deepCopy (ord_copy ord) cfg)\<lparr>Num := len configs\<rparr>;
     shard0 \<leftarrow> go_nth (Shards ncfg) 0;
     ncfg \<leftarrow> (if shard0 = 0 then initConfifg (ord_join ord) (Servers args) ncfg
       else rebalanceConfig ord (ncfg\<lparr>Groups :=
              go_range (ord_join ord) (Servers args) (\<lambda>gid names m. m(gid \<mapsto> mget [] m gid @ names)) (Groups ncfg)\<rparr>));
     Some (configs @ [ncfg])
   }"

text \<open>Lines 172-186: the shards counted per group that stays, and the group that has most of them.\<close>

definition shardNum :: "(int \<rightharpoonup> bool) \<Rightarrow> int list \<Rightarrow> (int \<rightharpoonup> int)" where
  "shardNum deletedGid shards =
     fold (\<lambda>gid m. if \<not> mget False deletedGid gid then m(gid \<mapsto> mget 0 m gid + 1) else m) shards Map.empty"

definition pickGid :: "int list \<Rightarrow> (int \<rightharpoonup> int) \<Rightarrow> int" where
  "pickGid ord gid2ShardNum =
     go_range ord gid2ShardNum
       (\<lambda>gid _ tGid. if mget 0 gid2ShardNum gid > mget 0 gid2ShardNum tGid then gid
          else if mget 0 gid2ShardNum gid = mget 0 gid2ShardNum tGid then min_int tGid gid else tGid) 0"

definition doLeave :: "orders \<Rightarrow> LeaveArgs \<Rightarrow> Config list \<Rightarrow> Config list option" where
  "doLeave ord args configs = do {
     cfg \<leftarrow> lastConfig configs;
     let ncfg = (deepCopy (ord_copy ord) cfg)\<lparr>Num := len configs\<rparr>;
     let ncfg = ncfg\<lparr>Groups := fold (\<lambda>gid m. m(gid := None)) (GIDs args) (Groups ncfg)\<rparr>;
     let deletedGid = fold (\<lambda>gid m. m(gid \<mapsto> True)) (GIDs args) Map.empty;
     let tGid = pickGid (ord_count ord) (shardNum deletedGid (Shards ncfg));
     let ncfg = ncfg\<lparr>Shards := map (\<lambda>gid. if deletedGid gid \<noteq> None then tGid else gid) (Shards ncfg)\<rparr>;
     ncfg \<leftarrow> rebalanceConfig ord ncfg;
     Some (configs @ [ncfg])
   }"

definition doMove :: "orders \<Rightarrow> MoveArgs \<Rightarrow> Config list \<Rightarrow> Config list option" where
  "doMove ord args configs = do {
     cfg \<leftarrow> lastConfig configs;
     let ncfg = (deepCopy (ord_copy ord) cfg)\<lparr>Num := len configs\<rparr>;
     shards \<leftarrow> go_set (Shards ncfg) (Shard args) (GID args);
     Some (configs @ [ncfg\<lparr>Shards := shards\<rparr>])
   }"

definition doQuery :: "QueryArgs \<Rightarrow> Config list \<Rightarrow> Config list option" where
  "doQuery args configs = Some configs"

section \<open>The replicated server\<close>

datatype ReqType = JOIN | MOVE | LEAVE | QUERY

record sc_Op =
  sc_ClientId :: int
  sc_ReqNo :: int
  sc_ReqType :: ReqType
  sc_JoinArgs :: JoinArgs
  sc_LeaveArgs :: LeaveArgs
  sc_MoveArgs :: MoveArgs
  sc_QueryArgs :: QueryArgs

definition JoinArgs0 :: JoinArgs where
  "JoinArgs0 = \<lparr>j_ClientId = 0, j_ReqNo = 0, Servers = Map.empty\<rparr>"

definition LeaveArgs0 :: LeaveArgs where
  "LeaveArgs0 = \<lparr>l_ClientId = 0, l_ReqNo = 0, GIDs = []\<rparr>"

definition MoveArgs0 :: MoveArgs where
  "MoveArgs0 = \<lparr>m_ClientId = 0, m_ReqNo = 0, Shard = 0, GID = 0\<rparr>"

definition QueryArgs0 :: QueryArgs where
  "QueryArgs0 = \<lparr>q_ClientId = 0, q_ReqNo = 0, q_Num = 0\<rparr>"

definition JoinReply0 :: JoinReply where
  "JoinReply0 = \<lparr>jr_WrongLeader = False, jr_Err = []\<rparr>"

definition QueryReply0 :: QueryReply where
  "QueryReply0 = \<lparr>qr_WrongLeader = False, qr_Err = [], qr_Config = Config0\<rparr>"

definition sc_op :: "ReqType \<Rightarrow> int \<Rightarrow> int \<Rightarrow> sc_Op" where
  "sc_op ty client req = \<lparr>sc_ClientId = client, sc_ReqNo = req, sc_ReqType = ty, sc_JoinArgs = JoinArgs0,
     sc_LeaveArgs = LeaveArgs0, sc_MoveArgs = MoveArgs0, sc_QueryArgs = QueryArgs0\<rparr>"

record ShardCtrler =
  sc_me :: int
  sc_rf :: "(sc_Op, unit) Raft"
  configs :: "Config list"
  sc_CompletedPool :: "int \<rightharpoonup> int"
  sc_CompletedCondPool :: "int \<rightharpoonup> nat"
  sc_CommitedId :: int

text \<open>
  What the handlers share: up to the first \<open>Wait\<close> (the term to wait in, or whether the leader was
  wrong), and from a wake-up on (\<open>None\<close> goes back to \<open>Wait\<close>, \<open>Some wrongLeader\<close> leaves the loop).
\<close>

definition sc_begin :: "nat \<Rightarrow> sc_Op \<Rightarrow> ShardCtrler \<Rightarrow> (ShardCtrler \<times> (bool + int)) option" where
  "sc_begin c op sc =
     (if \<not> snd (GetState (sc_rf sc)) then Some (sc, Inl True)
      else if sc_ReqNo op \<le> mget 0 (sc_CompletedPool sc) (sc_ClientId op) then Some (sc, Inl False)
      else do {
        (rf, index, startTerm, isLeader) \<leftarrow> Start op (sc_rf sc);
        let sc = sc\<lparr>sc_rf := rf\<rparr>;
        if \<not> isLeader then Some (sc, Inl True)
        else Some (sc\<lparr>sc_CompletedCondPool := (sc_CompletedCondPool sc)(sc_ClientId op \<mapsto> c)\<rparr>, Inr startTerm)
      })"

definition sc_wake :: "int \<Rightarrow> int \<Rightarrow> int \<Rightarrow> ShardCtrler \<Rightarrow> bool option" where
  "sc_wake startTerm client req sc =
     (let (curTerm, isLeader) = GetState (sc_rf sc)
      in if curTerm \<noteq> startTerm \<or> \<not> isLeader then Some True
         else if sc_CompletedPool sc client = Some req then Some False
         else None)"

definition Join :: "nat \<Rightarrow> JoinArgs \<Rightarrow> ShardCtrler \<Rightarrow> (ShardCtrler \<times> (JoinReply + int)) option" where
  "Join c args sc = map_option (map_prod id (map_sum (\<lambda>w. JoinReply0\<lparr>jr_WrongLeader := w\<rparr>) id))
     (sc_begin c ((sc_op JOIN (j_ClientId args) (j_ReqNo args))\<lparr>sc_JoinArgs := args\<rparr>) sc)"

definition Join_wake :: "int \<Rightarrow> JoinArgs \<Rightarrow> ShardCtrler \<Rightarrow> JoinReply option" where
  "Join_wake startTerm args sc = map_option (\<lambda>w. JoinReply0\<lparr>jr_WrongLeader := w\<rparr>)
     (sc_wake startTerm (j_ClientId args) (j_ReqNo args) sc)"

definition Leave :: "nat \<Rightarrow> LeaveArgs \<Rightarrow> ShardCtrler \<Rightarrow> (ShardCtrler \<times> (LeaveReply + int)) option" where
  "Leave c args sc = map_option (map_prod id (map_sum (\<lambda>w. JoinReply0\<lparr>jr_WrongLeader := w\<rparr>) id))
     (sc_begin c ((sc_op LEAVE (l_ClientId args) (l_ReqNo args))\<lparr>sc_LeaveArgs := args\<rparr>) sc)"

definition Leave_wake :: "int \<Rightarrow> LeaveArgs \<Rightarrow> ShardCtrler \<Rightarrow> LeaveReply option" where
  "Leave_wake startTerm args sc = map_option (\<lambda>w. JoinReply0\<lparr>jr_WrongLeader := w\<rparr>)
     (sc_wake startTerm (l_ClientId args) (l_ReqNo args) sc)"

definition Move :: "nat \<Rightarrow> MoveArgs \<Rightarrow> ShardCtrler \<Rightarrow> (ShardCtrler \<times> (MoveReply + int)) option" where
  "Move c args sc = map_option (map_prod id (map_sum (\<lambda>w. JoinReply0\<lparr>jr_WrongLeader := w\<rparr>) id))
     (sc_begin c ((sc_op MOVE (m_ClientId args) (m_ReqNo args))\<lparr>sc_MoveArgs := args\<rparr>) sc)"

definition Move_wake :: "int \<Rightarrow> MoveArgs \<Rightarrow> ShardCtrler \<Rightarrow> MoveReply option" where
  "Move_wake startTerm args sc = map_option (\<lambda>w. JoinReply0\<lparr>jr_WrongLeader := w\<rparr>)
     (sc_wake startTerm (m_ClientId args) (m_ReqNo args) sc)"

definition Query :: "nat \<Rightarrow> QueryArgs \<Rightarrow> ShardCtrler \<Rightarrow> (ShardCtrler \<times> (QueryReply + int)) option" where
  "Query c args sc = map_option (map_prod id (map_sum (\<lambda>w. QueryReply0\<lparr>qr_WrongLeader := w\<rparr>) id))
     (sc_begin c ((sc_op QUERY (q_ClientId args) (q_ReqNo args))\<lparr>sc_QueryArgs := args\<rparr>) sc)"

text \<open>The configuration a \<open>Query\<close> picks (lines 355-359), and the rest of the handler; the outer option is the panic.\<close>

definition pickConfig :: "int \<Rightarrow> Config list \<Rightarrow> Config option" where
  "pickConfig num cfgs = (if num = -1 \<or> num \<ge> len cfgs then lastConfig cfgs else go_nth cfgs num)"

definition Query_wake :: "int \<Rightarrow> QueryArgs \<Rightarrow> ShardCtrler \<Rightarrow> QueryReply option option" where
  "Query_wake startTerm args sc =
     (case sc_wake startTerm (q_ClientId args) (q_ReqNo args) sc of
        None \<Rightarrow> Some None
      | Some True \<Rightarrow> Some (Some (QueryReply0\<lparr>qr_WrongLeader := True\<rparr>))
      | Some False \<Rightarrow> do {
          cfg \<leftarrow> pickConfig (q_Num args) (configs sc);
          Some (Some (QueryReply0\<lparr>qr_Config := cfg\<rparr>))
        })"

definition sc_Kill :: "ShardCtrler \<Rightarrow> ShardCtrler" where
  "sc_Kill sc = sc\<lparr>sc_rf := Kill (sc_rf sc)\<rparr>"

text \<open>The effect of a committed command (lines 413-426).\<close>

definition sc_do :: "orders \<Rightarrow> sc_Op \<Rightarrow> Config list \<Rightarrow> Config list option" where
  "sc_do ord msg cfgs =
     (case sc_ReqType msg of
        JOIN \<Rightarrow> doJoin ord (sc_JoinArgs msg) cfgs
      | LEAVE \<Rightarrow> doLeave ord (sc_LeaveArgs msg) cfgs
      | MOVE \<Rightarrow> doMove ord (sc_MoveArgs msg) cfgs
      | QUERY \<Rightarrow> doQuery (sc_QueryArgs msg) cfgs)"

type_synonym sc_state = "Config list \<times> (int \<rightharpoonup> int)"

definition sc_exec :: "orders \<Rightarrow> sc_Op \<Rightarrow> sc_state \<Rightarrow> sc_state option" where
  "sc_exec ord msg = (\<lambda>(cfgs, pool).
     if sc_ReqNo msg > mget 0 pool (sc_ClientId msg)
     then do {
       cfgs \<leftarrow> sc_do ord msg cfgs;
       Some (cfgs, pool(sc_ClientId msg \<mapsto> sc_ReqNo msg))
     }
     else Some (cfgs, pool))"

definition sc_applyLog :: "orders \<Rightarrow> (sc_Op, unit) ApplyMsg \<Rightarrow> ShardCtrler \<Rightarrow> (ShardCtrler \<times> nat option) option" where
  "sc_applyLog ord applyMsg sc =
     (if am_CommandValid applyMsg then do {
        msg \<leftarrow> am_Command applyMsg;
        (cfgs, pool) \<leftarrow> sc_exec ord msg (configs sc, sc_CompletedPool sc);
        let sc = sc\<lparr>configs := cfgs, sc_CompletedPool := pool\<rparr>;
        Some (sc\<lparr>sc_CommitedId := max_int (sc_CommitedId sc) (am_CommandIndex applyMsg)\<rparr>,
              sc_CompletedCondPool sc (sc_ClientId msg))
      }
      else Some (sc, None))"

definition sc_BroadcastAllPeoridly :: "ShardCtrler \<Rightarrow> nat set" where
  "sc_BroadcastAllPeoridly sc = ran (sc_CompletedCondPool sc)"

definition StartServer :: "env \<Rightarrow> nat \<Rightarrow> int \<Rightarrow> (sc_Op raft_gob, unit) Persister \<Rightarrow> ShardCtrler" where
  "StartServer ev n i ps =
     \<lparr>sc_me = i, sc_rf = Make ev n i ps, configs = [Config0], sc_CompletedPool = Map.empty,
      sc_CompletedCondPool = Map.empty, sc_CommitedId = 0\<rparr>"

section \<open>The clerk\<close>

text \<open>
  \<open>call k i\<close> is the outcome of the \<open>k\<close>-th call of the clerk, made to server \<open>i\<close>. One round tries the
  servers in turn, the loop repeats rounds.
\<close>

fun sc_tryServers :: "(nat \<Rightarrow> nat \<Rightarrow> 'r option) \<Rightarrow> ('r \<Rightarrow> bool) \<Rightarrow> nat \<Rightarrow> nat list \<Rightarrow> 'r + nat" where
  "sc_tryServers call wrongLeader k [] = Inr k"
| "sc_tryServers call wrongLeader k (i # is) =
     (case call k i of
        Some r \<Rightarrow> if \<not> wrongLeader r then Inl r else sc_tryServers call wrongLeader (Suc k) is
      | None \<Rightarrow> sc_tryServers call wrongLeader (Suc k) is)"

partial_function (option) sc_clerkLoop :: "(nat \<Rightarrow> nat \<Rightarrow> 'r option) \<Rightarrow> ('r \<Rightarrow> bool) \<Rightarrow> nat \<Rightarrow> nat \<Rightarrow> 'r option" where
  "sc_clerkLoop call wrongLeader n k =
     (case sc_tryServers call wrongLeader k [0..<n] of
        Inl r \<Rightarrow> Some r
      | Inr k' \<Rightarrow> sc_clerkLoop call wrongLeader n k')"

record sc_Clerk =
  sck_servers :: nat
  sck_me :: int

text \<open>\<open>id\<close> and \<open>seq\<close> are the package variables; the operations return their new values.\<close>

definition sc_MakeClerk :: "nat \<Rightarrow> int \<Rightarrow> sc_Clerk \<times> int" where
  "sc_MakeClerk n ident = (\<lparr>sck_servers = n, sck_me = ident + 1\<rparr>, ident + 1)"

definition sck_Query :: "(QueryArgs \<Rightarrow> nat \<Rightarrow> nat \<Rightarrow> QueryReply option) \<Rightarrow> int \<Rightarrow> int \<Rightarrow> sc_Clerk \<Rightarrow> (Config \<times> int) option" where
  "sck_Query call num seq ck = do {
     let args = \<lparr>q_ClientId = sck_me ck, q_ReqNo = seq + 1, q_Num = num\<rparr>;
     reply \<leftarrow> sc_clerkLoop (call args) qr_WrongLeader (sck_servers ck) 0;
     Some (qr_Config reply, seq + 1)
   }"

definition sck_Join ::
  "(JoinArgs \<Rightarrow> nat \<Rightarrow> nat \<Rightarrow> JoinReply option) \<Rightarrow> (int \<rightharpoonup> string list) \<Rightarrow> int \<Rightarrow> sc_Clerk \<Rightarrow> int option" where
  "sck_Join call srvs seq ck = do {
     let args = \<lparr>j_ClientId = sck_me ck, j_ReqNo = seq + 1, Servers = srvs\<rparr>;
     reply \<leftarrow> sc_clerkLoop (call args) jr_WrongLeader (sck_servers ck) 0;
     Some (seq + 1)
   }"

definition sck_Leave :: "(LeaveArgs \<Rightarrow> nat \<Rightarrow> nat \<Rightarrow> LeaveReply option) \<Rightarrow> int list \<Rightarrow> int \<Rightarrow> sc_Clerk \<Rightarrow> int option" where
  "sck_Leave call gids seq ck = do {
     let args = \<lparr>l_ClientId = sck_me ck, l_ReqNo = seq + 1, GIDs = gids\<rparr>;
     reply \<leftarrow> sc_clerkLoop (call args) jr_WrongLeader (sck_servers ck) 0;
     Some (seq + 1)
   }"

definition sck_Move :: "(MoveArgs \<Rightarrow> nat \<Rightarrow> nat \<Rightarrow> MoveReply option) \<Rightarrow> int \<Rightarrow> int \<Rightarrow> int \<Rightarrow> sc_Clerk \<Rightarrow> int option" where
  "sck_Move call shard gid seq ck = do {
     let args = \<lparr>m_ClientId = sck_me ck, m_ReqNo = seq + 1, Shard = shard, GID = gid\<rparr>;
     reply \<leftarrow> sc_clerkLoop (call args) jr_WrongLeader (sck_servers ck) 0;
     Some (seq + 1)
   }"

end
