(* ===== verification/ShardCtrler_Rebalance.thy ===== *)
theory ShardCtrler_Rebalance
  imports ShardCtrler
begin

text \<open>
  Rebalancing in the shard controller (\<open>rebalanceConfig\<close> of src/src/shardctrler/server.go): it keeps
  every shard in exactly one group, moves shards only from groups above the average to groups below
  it, leaves no such pair behind, and does not depend on the order in which Go visits its maps.
\<close>

section \<open>The shards of a group\<close>

definition shardsOf :: "int list \<Rightarrow> int \<Rightarrow> int list" where
  "shardsOf shards g = filter (\<lambda>s. shards ! nat s = g) [0..len shards - 1]"

lemma shardsOf_snoc: "shardsOf (shards @ [x]) g = shardsOf shards g @ (if x = g then [len shards] else [])"
proof -
  have "[0..len (shards @ [x]) - 1] = [0..len shards - 1] @ [len shards]"
    using upto_rec2 [of 0 "len shards"] by simp
  moreover have "filter (\<lambda>s. (shards @ [x]) ! nat s = g) [0..len shards - 1] = filter (\<lambda>s. shards ! nat s = g) [0..len shards - 1]"
    by (intro filter_cong) (auto simp: nth_append len_def)
  moreover have "(shards @ [x]) ! nat (len shards) = x" by (simp add: len_def)
  ultimately show ?thesis by (simp add: shardsOf_def)
qed

lemma set_shardsOf: "s \<in> set (shardsOf shards g) \<longleftrightarrow> 0 \<le> s \<and> s < len shards \<and> shards ! nat s = g"
  by (auto simp: shardsOf_def)

lemma distinct_shardsOf: "distinct (shardsOf shards g)"
  by (simp add: shardsOf_def)

lemma shardsOf_Nil_iff: "shardsOf shards g = [] \<longleftrightarrow> g \<notin> set shards"
proof -
  have "\<exists>s. s \<in> set (shardsOf shards g)" if "i < length shards" "shards ! i = g" for i
    using that by (intro exI [of _ "int i"]) (simp add: set_shardsOf len_def)
  moreover have "g \<in> set shards" if "s \<in> set (shardsOf shards g)" for s
    using that by (auto simp: set_shardsOf len_def intro: nth_mem)
  ultimately have "g \<in> set shards \<longleftrightarrow> (\<exists>s. s \<in> set (shardsOf shards g))" by (auto simp: in_set_conv_nth [of g])
  then show ?thesis by (metis list.set_intros(1) neq_Nil_conv empty_iff list.set(1))
qed

lemma zip_upto_snoc:
  "zip [0..len (xs @ [x]) - 1] (xs @ [x]) = zip [0..len xs - 1] xs @ [(len xs, x)]"
proof -
  have "[0..len (xs @ [x]) - 1] = [0..len xs - 1] @ [len xs]"
    using upto_rec2 [of 0 "len xs"] by simp
  then show ?thesis by (simp add: len_def)
qed

lemma groupShards_eq:
  "groupShards shards = (\<lambda>g. if g \<in> set shards then Some (shardsOf shards g) else None)"
proof (induction shards rule: rev_induct)
  case Nil
  then show ?case by (simp add: groupShards_def)
next
  case (snoc x xs)
  have "groupShards (xs @ [x]) = (groupShards xs)(x \<mapsto> mget [] (groupShards xs) x @ [len xs])"
    unfolding groupShards_def zip_upto_snoc by simp
  moreover have "mget [] (groupShards xs) x = shardsOf xs x"
    using shardsOf_Nil_iff [of xs x] by (auto simp: snoc mget_def)
  ultimately show ?case
    by (auto simp: snoc shardsOf_snoc fun_eq_iff)
qed

lemma mget_groupShards: "mget [] (groupShards shards) g = shardsOf shards g"
  using shardsOf_Nil_iff [of shards g] by (auto simp: groupShards_eq mget_def)

section \<open>Partitions\<close>

text \<open>Every shard below \<open>n\<close> is listed exactly once, under exactly one group.\<close>

definition shard_part :: "int \<Rightarrow> (int \<rightharpoonup> int list) \<Rightarrow> bool" where
  "shard_part n m \<longleftrightarrow> (\<forall>g. distinct (mget [] m g) \<and> set (mget [] m g) \<subseteq> {0..<n}) \<and>
     (\<forall>s. 0 \<le> s \<and> s < n \<longrightarrow> (\<exists>g. s \<in> set (mget [] m g))) \<and>
     (\<forall>s g h. s \<in> set (mget [] m g) \<longrightarrow> s \<in> set (mget [] m h) \<longrightarrow> g = h)"

lemma shard_part_groupShards: "shard_part (len shards) (groupShards shards)"
  by (auto simp: shard_part_def mget_groupShards set_shardsOf distinct_shardsOf)

text \<open>What one round does: the first \<open>part\<close> shards of \<open>gj\<close> go to \<open>gi\<close>.\<close>

definition moved :: "nat \<Rightarrow> int \<Rightarrow> int \<Rightarrow> (int \<rightharpoonup> int list) \<Rightarrow> (int \<rightharpoonup> int list)" where
  "moved k gi gj m = m(gi \<mapsto> mget [] m gi @ take k (mget [] m gj), gj \<mapsto> drop k (mget [] m gj))"

lemma moveShards_eq:
  assumes "gi \<noteq> gj" "0 \<le> part" "part \<le> glen m gj"
  shows "moveShards part gi gj m = Some (moved (nat part) gi gj m)"
  using assms by (simp add: moveShards_def moved_def go_slice_0 go_from_Some glen_def)

lemma mget_moved:
  "gi \<noteq> gj \<Longrightarrow> mget [] (moved k gi gj m) g =
     (if g = gi then mget [] m gi @ take k (mget [] m gj) else if g = gj then drop k (mget [] m gj) else mget [] m g)"
  by (simp add: moved_def)

lemma shard_part_moved:
  assumes part: "shard_part n m" and ne: "gi \<noteq> gj"
  shows "shard_part n (moved k gi gj m)"
proof -
  let ?old = "mget [] m" and ?new = "mget [] (moved k gi gj m)"
  have split: "set (?old gj) = set (take k (?old gj)) \<union> set (drop k (?old gj))"
    by (metis append_take_drop_id set_append)
  have disj: "set (take k (?old gj)) \<inter> set (drop k (?old gj)) = {}"
    using part by (simp add: shard_part_def set_take_disj_set_drop_if_distinct)
  have mem: "s \<in> set (?new g) \<longleftrightarrow>
      (if s \<in> set (take k (?old gj)) then g = gi else s \<in> set (?old g))" for s g
  proof -
    have uniq: "s \<in> set (?old g) \<Longrightarrow> s \<in> set (?old gj) \<Longrightarrow> g = gj" for g
      using part unfolding shard_part_def by blast
    show ?thesis
      using ne uniq [of g] uniq [of gi] split disj by (auto simp: mget_moved [OF ne])
  qed
  have sub: "set (?new g) \<subseteq> {0..<n}" for g
  proof
    fix s
    assume "s \<in> set (?new g)"
    then have "s \<in> set (?old gj) \<or> s \<in> set (?old g)" using mem [of s g] split by (auto split: if_splits)
    with part show "s \<in> {0..<n}" unfolding shard_part_def by blast
  qed
  have "distinct (?new g)" for g
  proof -
    have "set (?old gi) \<inter> set (?old gj) = {}" using part ne unfolding shard_part_def by blast
    with part split show ?thesis by (auto simp: mget_moved [OF ne] shard_part_def)
  qed
  moreover have "\<exists>g. s \<in> set (?new g)" if "0 \<le> s" "s < n" for s
    using part that mem [of s] unfolding shard_part_def by (cases "s \<in> set (take k (?old gj))") auto
  moreover have "g = h" if "s \<in> set (?new g)" "s \<in> set (?new h)" for s g h
    using that part unfolding mem shard_part_def by (auto split: if_splits)
  ultimately show ?thesis using sub unfolding shard_part_def by blast
qed

section \<open>The rebalancing loop\<close>

text \<open>Groups move towards the average: a group above it only gives, one below it only takes.\<close>

definition toward :: "int \<Rightarrow> (int \<rightharpoonup> int list) \<Rightarrow> (int \<rightharpoonup> int list) \<Rightarrow> bool" where
  "toward avg m m' \<longleftrightarrow> (\<forall>g.
     (avg \<le> glen m g \<longrightarrow> avg \<le> glen m' g \<and> set (mget [] m' g) \<subseteq> set (mget [] m g)) \<and>
     (glen m g \<le> avg \<longrightarrow> glen m' g \<le> avg \<and> set (mget [] m g) \<subseteq> set (mget [] m' g)))"

lemma toward_refl [simp]: "toward avg m m"
  by (simp add: toward_def)

lemma toward_trans:
  assumes "toward avg m1 m2" "toward avg m2 m3"
  shows "toward avg m1 m3"
  unfolding toward_def
proof (intro allI conjI impI)
  fix g
  {
    assume "avg \<le> glen m1 g"
    with assms have "avg \<le> glen m2 g" "set (mget [] m2 g) \<subseteq> set (mget [] m1 g)"
      "avg \<le> glen m3 g" "set (mget [] m3 g) \<subseteq> set (mget [] m2 g)"
      unfolding toward_def by blast+
    then show "avg \<le> glen m3 g" "set (mget [] m3 g) \<subseteq> set (mget [] m1 g)" by auto
  next
    assume "glen m1 g \<le> avg"
    with assms have "glen m2 g \<le> avg" "set (mget [] m1 g) \<subseteq> set (mget [] m2 g)"
      "glen m3 g \<le> avg" "set (mget [] m2 g) \<subseteq> set (mget [] m3 g)"
      unfolding toward_def by blast+
    then show "glen m3 g \<le> avg" "set (mget [] m1 g) \<subseteq> set (mget [] m3 g)" by auto
  }
qed

lemma glen_moved:
  "gi \<noteq> gj \<Longrightarrow> 0 \<le> part \<Longrightarrow> part \<le> glen m gj \<Longrightarrow> glen (moved (nat part) gi gj m) g =
     (if g = gi then glen m gi + part else if g = gj then glen m gj - part else glen m g)"
  by (simp add: glen_def mget_moved len_def)

lemma toward_moved:
  assumes "gi \<noteq> gj" "glen m gi < avg" "avg < glen m gj" "0 \<le> part" "part \<le> avg - glen m gi" "part \<le> glen m gj - avg"
  shows "toward avg m (moved (nat part) gi gj m)"
proof -
  have part: "part \<le> glen m gj" using assms by (simp add: glen_def) (smt (verit) len_nonneg)
  have "set (drop k xs) \<subseteq> set xs" for k and xs :: "int list" by (rule set_drop_subset)
  with assms part show ?thesis
    by (auto simp: toward_def glen_moved mget_moved dest: in_set_dropD)
qed

text \<open>
  The invariant of the loop: groups outside \<open>i..j\<close> have exactly the average, groups strictly inside
  are untouched, and the two at the ends are untouched or still on their side of the average.
\<close>

definition loop_inv :: "int \<Rightarrow> (int \<times> int) list \<Rightarrow> int \<Rightarrow> int \<Rightarrow> int \<Rightarrow> (int \<rightharpoonup> int list) \<Rightarrow> bool" where
  "loop_inv n gids avg i j m \<longleftrightarrow> shard_part n m \<and> dom m \<subseteq> fst ` set gids \<and>
     0 \<le> i \<and> j < len gids \<and>
     (\<forall>k < length gids. (int k < i \<or> j < int k \<longrightarrow> glen m (fst (gids ! k)) = avg) \<and>
        (i < int k \<and> int k < j \<longrightarrow> glen m (fst (gids ! k)) = snd (gids ! k)) \<and>
        (i < j \<and> int k = i \<longrightarrow> glen m (fst (gids ! k)) = snd (gids ! k) \<or> glen m (fst (gids ! k)) < avg) \<and>
        (i < j \<and> int k = j \<longrightarrow> glen m (fst (gids ! k)) = snd (gids ! k) \<or> avg < glen m (fst (gids ! k))))"

lemma nth_fst_eq:
  assumes "distinct (map fst gids)" "k < length gids" "l < length gids"
  shows "fst (gids ! k) = fst (gids ! l) \<longleftrightarrow> k = l"
  using nth_eq_iff_index_eq [OF assms(1), of k l] assms(2,3) by simp

lemma rebalanceRound_inv:
  assumes inv: "loop_inv n gids avg i j m" and dist: "distinct (map fst gids)"
  shows "rebalanceRound gids avg i j m = Some None \<or>
    (\<exists>i' j' m'. rebalanceRound gids avg i j m = Some (Some (i', j', m')) \<and> loop_inv n gids avg i' j' m' \<and> toward avg m m')"
proof (cases "i < j")
  case True
  let ?gi = "fst (gids ! nat i)" and ?gj = "fst (gids ! nat j)"
  from inv have "0 \<le> i" "j < len gids" by (simp_all add: loop_inv_def)
  moreover from this True have "nat i < length gids" "nat j < length gids" by (simp_all add: len_def nat_less_iff)
  ultimately have ij: "0 \<le> i" "j < len gids" "nat i < length gids" "nat j < length gids" .
  then have nth: "go_nth gids i = Some (gids ! nat i)" "go_nth gids j = Some (gids ! nat j)"
    using True by (simp_all add: go_nth_def in_range_def)
  have ne: "?gi \<noteq> ?gj" using nth_fst_eq [OF dist ij(3,4)] True ij(1) by auto
  show ?thesis
  proof (cases "glen m ?gi < avg \<and> avg < glen m ?gj")
    case cond: True
    define need extra where ne_ex: "need = avg - glen m ?gi" "extra = glen m ?gj - avg"
    let ?part = "min need extra" and ?m = "moved (nat (min need extra)) ?gi ?gj m"
    have p: "0 \<le> ?part" "?part \<le> glen m ?gj" "?part \<le> avg - glen m ?gi" "?part \<le> glen m ?gj - avg"
      using cond by (auto simp: ne_ex glen_def) (smt (verit) len_nonneg)
    note glen' = glen_moved [OF ne p(1,2)]
    have part: "shard_part n ?m" using inv ne by (intro shard_part_moved) (simp_all add: loop_inv_def)
    have dom: "dom ?m \<subseteq> fst ` set gids"
      using inv ij(3,4) by (auto simp: loop_inv_def moved_def)
    have tow: "toward avg m ?m" using ne cond p by (intro toward_moved) simp_all
    define i' j' where ij': "i' = (if need \<le> extra then i + 1 else i)" "j' = (if extra \<le> need then j - 1 else j)"
    have keys: "k < length gids \<Longrightarrow> fst (gids ! k) = ?gi \<longleftrightarrow> int k = i" "k < length gids \<Longrightarrow> fst (gids ! k) = ?gj \<longleftrightarrow> int k = j" for k
      using nth_fst_eq [OF dist _ ij(3)] nth_fst_eq [OF dist _ ij(4)] True ij(1) by auto
    have "loop_inv n gids avg i' j' ?m"
      unfolding loop_inv_def
    proof (intro conjI allI impI)
      show "0 \<le> i'" "j' < len gids" using ij True by (auto simp: ij')
      fix k
      assume k: "k < length gids"
      let ?g = "fst (gids ! k)"
      have G: "glen ?m ?g = (if int k = i then glen m ?gi + ?part else if int k = j then glen m ?gj - ?part else glen m ?g)"
        using keys [OF k] True by (auto simp: glen')
      have K: "int k < i \<or> j < int k \<Longrightarrow> glen m ?g = avg" "i < int k \<Longrightarrow> int k < j \<Longrightarrow> glen m ?g = snd (gids ! k)"
        using inv k unfolding loop_inv_def by blast+
      have mid: "glen ?m ?g = snd (gids ! k)" if "i < int k" "int k < j" using G K(2) that by simp
      have end_i: "glen ?m ?g = (if need \<le> extra then avg else glen m ?gi + extra)" if "int k = i"
        using G that by (auto simp: ne_ex min_def)
      have end_j: "glen ?m ?g = (if extra \<le> need then avg else glen m ?gj - need)" if "int k = j"
        using G that True by (auto simp: ne_ex min_def)
      have out: "glen ?m ?g = avg" if "int k < i \<or> j < int k" using G K(1) that True by auto
      have le: "i \<le> i'" "j' \<le> j" by (simp_all add: ij')
      show "glen ?m ?g = avg" if "int k < i' \<or> j' < int k"
      proof -
        from that consider "int k < i \<or> j < int k" | "int k = i" "need \<le> extra" | "int k = j" "extra \<le> need"
          by (fastforce simp: ij' split: if_splits)
        then show ?thesis by cases (use out end_i end_j in simp_all)
      qed
      show "glen ?m ?g = snd (gids ! k)" if "i' < int k \<and> int k < j'" using that le by (intro mid) simp_all
      show "glen ?m ?g = snd (gids ! k) \<or> glen ?m ?g < avg" if k': "i' < j' \<and> int k = i'"
      proof (cases "need \<le> extra")
        case True
        with k' le have "i < int k" "int k < j" by (auto simp: ij'(1))
        then show ?thesis using mid by simp
      next
        case False
        with k' end_i show ?thesis by (simp add: ij'(1) ne_ex)
      qed
      show "glen ?m ?g = snd (gids ! k) \<or> avg < glen ?m ?g" if k': "i' < j' \<and> int k = j'"
      proof (cases "extra \<le> need")
        case True
        with k' le have "i < int k" "int k < j" by (auto simp: ij'(2))
        then show ?thesis using mid by simp
      next
        case False
        with k' end_j show ?thesis by (simp add: ij'(2) ne_ex)
      qed
    qed (use part dom in simp_all)
    moreover have "rebalanceRound gids avg i j m = Some (Some (i', j', ?m))"
      using True cond p ne moveShards_eq [OF ne p(1,2)] nth
      by (simp add: rebalanceRound_def case_prod_beta Let_def ne_ex [symmetric] ij')
    ultimately show ?thesis using tow by blast
  next
    case False
    with True nth show ?thesis by (auto simp: rebalanceRound_def case_prod_beta)
  qed
qed (simp add: rebalanceRound_def)

lemma rebalanceLoop_inv:
  "distinct (map fst gids) \<Longrightarrow> loop_inv n gids avg i j m \<Longrightarrow> \<exists>i' j' m'. rebalanceLoop gids avg i j m = Some m' \<and>
    loop_inv n gids avg i' j' m' \<and> rebalanceRound gids avg i' j' m' = Some None \<and> toward avg m m'"
proof (induction gids avg i j m rule: rebalanceLoop.induct)
  case (1 gids avg i j m)
  from rebalanceRound_inv [OF "1.prems"(2,1)] show ?case
  proof (elim disjE exE conjE)
    assume "rebalanceRound gids avg i j m = Some None"
    with "1.prems"(2) show ?thesis
      by (intro exI [of _ i] exI [of _ j] exI [of _ m]) (simp add: rebalanceLoop.simps [of gids avg i j m])
  next
    fix i1 j1 m1
    assume round: "rebalanceRound gids avg i j m = Some (Some (i1, j1, m1))"
      and inv: "loop_inv n gids avg i1 j1 m1" and tow: "toward avg m m1"
    from "1.IH" [OF round refl refl refl "1.prems"(1) inv] obtain i' j' m' where
      "rebalanceLoop gids avg i1 j1 m1 = Some m'" "loop_inv n gids avg i' j' m'"
      "rebalanceRound gids avg i' j' m' = Some None" "toward avg m1 m'"
      by blast
    with round tow show ?thesis
      by (intro exI [of _ i'] exI [of _ j'] exI [of _ m']) (simp add: rebalanceLoop.simps [of gids avg i j m] toward_trans)
  qed
qed

text \<open>When the loop ends, no group is below the average while another is above it.\<close>

lemma loop_exit:
  assumes inv: "loop_inv n gids avg i j m" and sorted: "sorted (map snd gids)"
    and stop: "rebalanceRound gids avg i j m = Some None"
    and k: "k < length gids" "glen m (fst (gids ! k)) < avg"
    and l: "l < length gids" "avg < glen m (fst (gids ! l))"
  shows False
proof -
  have "i \<le> int k" "int k \<le> j" "i \<le> int l" "int l \<le> j" "k \<noteq> l"
    using inv k l unfolding loop_inv_def by fastforce+
  then have less: "i < j" by linarith
  from inv have i0: "0 \<le> i" "j < len gids" by (simp_all add: loop_inv_def)
  obtain a b where a: "i = int a" "a < length gids" and b: "j = int b" "b < length gids"
    using i0 less by (intro that [of "nat i" "nat j"]) (auto simp: len_def)
  have ab: "a < b" "a \<le> k" "k \<le> b" "a \<le> l" "l \<le> b"
    using less a b \<open>i \<le> int k\<close> \<open>int k \<le> j\<close> \<open>i \<le> int l\<close> \<open>int l \<le> j\<close> by simp_all
  have mid: "glen m (fst (gids ! x)) = snd (gids ! x)" if "a < x" "x < b" for x
    using inv that a b unfolding loop_inv_def by auto
  have ends: "glen m (fst (gids ! a)) = snd (gids ! a) \<or> glen m (fst (gids ! a)) < avg"
    "glen m (fst (gids ! b)) = snd (gids ! b) \<or> avg < glen m (fst (gids ! b))"
    using inv less a b unfolding loop_inv_def by (auto dest: spec [of _ a] spec [of _ b])
  have mono: "snd (gids ! x) \<le> snd (gids ! y)" if "x \<le> y" "y \<le> b" for x y
    using sorted_nth_mono [OF sorted, of x y] that b(2) by simp
  have "\<not> (glen m (fst (gids ! a)) < avg \<and> avg < glen m (fst (gids ! b)))"
    using stop less a b i0 i0
    by (auto simp: rebalanceRound_def go_nth_def in_range_def len_def case_prod_beta Let_def Option.bind_eq_Some_conv)
  then consider "avg \<le> glen m (fst (gids ! a))" | "glen m (fst (gids ! b)) \<le> avg" by linarith
  then show False
  proof cases
    case 1
    then have ca: "avg \<le> snd (gids ! a)" using ends(1) by linarith
    have "avg \<le> snd (gids ! k)" using mono [of a k] ab ca by simp
    moreover have "k \<noteq> a" using 1 k(2) by auto
    ultimately have "avg \<le> glen m (fst (gids ! k))" using mid [of k] ends(2) ab by (cases "k = b") auto
    with k(2) show False by simp
  next
    case 2
    then have cb: "snd (gids ! b) \<le> avg" using ends(2) by linarith
    have "snd (gids ! l) \<le> avg" using mono [of l b] ab cb by simp
    moreover have "l \<noteq> b" using 2 l(2) by auto
    ultimately have "glen m (fst (gids ! l)) \<le> avg" using mid [of l] ends(1) ab by (cases "l = a") auto
    with l(2) show False by simp
  qed
qed

section \<open>The list of groups\<close>

lemma go_range_append:
  "go_range ks m (\<lambda>k v xs. xs @ f k v) xs = xs @ concat (map (\<lambda>k. case m k of None \<Rightarrow> [] | Some v \<Rightarrow> f k v) ks)"
  by (induction ks arbitrary: xs) (auto split: option.split)

text \<open>Before sorting: the groups that own shards, then those that own none.\<close>

definition gidPairs0 :: "int list \<Rightarrow> int list \<Rightarrow> (int \<rightharpoonup> int list) \<Rightarrow> (int \<times> int) list" where
  "gidPairs0 ord1 ord2 m = map (\<lambda>g. (g, glen m g)) (ord1 @ filter (\<lambda>g. m g = None) ord2)"

lemma gidPairs_eq:
  assumes o1: "range_order m ord1" and o2: "range_order groups ord2"
  shows "gidPairs ord1 ord2 m groups = sort_key (\<lambda>(g, c). (c, g)) (gidPairs0 ord1 ord2 m)"
proof -
  have "\<forall>g \<in> set ks. m g \<noteq> None \<Longrightarrow>
      concat (map (\<lambda>k. case m k of None \<Rightarrow> [] | Some v \<Rightarrow> [(k, len v)]) ks) = map (\<lambda>g. (g, glen m g)) ks" for ks
    by (induction ks) (auto simp: glen_def mget_def)
  then have 1: "go_range ord1 m (\<lambda>gid ids gids. gids @ [(gid, len ids)]) [] = map (\<lambda>g. (g, glen m g)) ord1"
    using o1 by (auto simp: go_range_append range_order_def)
  have "\<forall>g \<in> set ks. groups g \<noteq> None \<Longrightarrow>
      go_range ks groups (\<lambda>gid _ gids. if m gid = None then gids @ [(gid, 0)] else gids) xs =
      xs @ map (\<lambda>g. (g, glen m g)) (filter (\<lambda>g. m g = None) ks)" for ks xs
    by (induction ks arbitrary: xs) (auto simp: glen_def mget_def)
  then have 2: "go_range ord2 groups (\<lambda>gid _ gids. if m gid = None then gids @ [(gid, 0)] else gids) xs =
      xs @ map (\<lambda>g. (g, glen m g)) (filter (\<lambda>g. m g = None) ord2)" for xs
    using o2 by (auto simp: range_order_def)
  show ?thesis by (simp add: gidPairs_def 1 2 gidPairs0_def)
qed

lemma gidPairs_props:
  assumes o1: "range_order m ord1" and o2: "range_order groups ord2"
  shows "distinct (map fst (gidPairs ord1 ord2 m groups))"
    "fst ` set (gidPairs ord1 ord2 m groups) = dom m \<union> dom groups"
    "sorted (map snd (gidPairs ord1 ord2 m groups))"
    "\<forall>(g, c) \<in> set (gidPairs ord1 ord2 m groups). c = glen m g"
proof -
  let ?ps = "gidPairs0 ord1 ord2 m" and ?key = "\<lambda>(g, c). (c :: int, g :: int)"
  have fst0: "map fst ?ps = ord1 @ filter (\<lambda>g. m g = None) ord2" by (simp add: gidPairs0_def comp_def)
  have "distinct (map fst ?ps)"
    using o1 o2 unfolding fst0 by (auto simp: range_order_def)
  then show "distinct (map fst (gidPairs ord1 ord2 m groups))"
    unfolding gidPairs_eq [OF o1 o2] by (simp add: distinct_map)
  have "fst ` set ?ps = set (map fst ?ps)" by simp
  also have "\<dots> = dom m \<union> dom groups"
    unfolding fst0 using o1 o2 by (auto simp: range_order_def)
  finally show "fst ` set (gidPairs ord1 ord2 m groups) = dom m \<union> dom groups"
    unfolding gidPairs_eq [OF o1 o2] by simp
  have "sorted (map fst (map ?key xs))" if "sorted (map ?key xs)" for xs
    using that by (auto simp: sorted_map sorted_wrt_map less_eq_prod_def elim!: sorted_wrt_mono_rel [rotated])
  from this [of "sort_key ?key ?ps"] show "sorted (map snd (gidPairs ord1 ord2 m groups))"
    unfolding gidPairs_eq [OF o1 o2] by (simp add: comp_def case_prod_beta)
  show "\<forall>(g, c) \<in> set (gidPairs ord1 ord2 m groups). c = glen m g"
    unfolding gidPairs_eq [OF o1 o2] by (auto simp: gidPairs0_def)
qed

section \<open>Writing the assignment back\<close>

lemma assign_ids:
  "set ids \<subseteq> {0..<len xs} \<Longrightarrow>
   \<exists>ys. fold (\<lambda>s shards. do { shards \<leftarrow> shards; go_set shards s g }) ids (Some xs) = Some ys \<and>
     length ys = length xs \<and> (\<forall>k < length xs. ys ! k = (if int k \<in> set ids then g else xs ! k))"
proof (induction ids arbitrary: xs)
  case (Cons s ids)
  then have s: "0 \<le> s" "s < len xs" and ids: "set ids \<subseteq> {0..<len (xs[nat s := g])}" by auto
  have "go_set xs s g = Some (xs[nat s := g])" using s by (simp add: go_set_def in_range_def)
  moreover obtain ys where "fold (\<lambda>s shards. do { shards \<leftarrow> shards; go_set shards s g }) ids (Some (xs[nat s := g])) = Some ys"
    "length ys = length xs" "\<forall>k < length xs. ys ! k = (if int k \<in> set ids then g else xs[nat s := g] ! k)"
    using Cons.IH [OF ids] by auto
  ultimately show ?case using s by (auto simp: nth_list_update)
qed simp

lemma assignShards_spec:
  assumes "\<forall>g. set (mget [] m g) \<subseteq> {0..<len xs}"
    and "\<forall>s g h. s \<in> set (mget [] m g) \<longrightarrow> s \<in> set (mget [] m h) \<longrightarrow> g = h"
  shows "\<exists>ys. assignShards ord m xs = Some ys \<and> length ys = length xs \<and>
    (\<forall>k < length xs. (\<forall>g \<in> set ord. int k \<in> set (mget [] m g) \<longrightarrow> ys ! k = g) \<and>
       ((\<forall>g \<in> set ord. int k \<notin> set (mget [] m g)) \<longrightarrow> ys ! k = xs ! k))"
  using assms(1) unfolding assignShards_def
proof (induction ord arbitrary: xs)
  case (Cons g ord)
  let ?ids = "mget [] m g"
  let ?put = "\<lambda>gid ids shards. fold (\<lambda>shardId shards. do { shards \<leftarrow> shards; go_set shards shardId gid }) ids shards"
  obtain ys where ys: "?put g ?ids (Some xs) = Some ys" "length ys = length xs"
    "\<forall>k < length xs. ys ! k = (if int k \<in> set ?ids then g else xs ! k)"
    using assign_ids [of ?ids xs g] Cons.prems by blast
  have step: "go_range (g # ord) m ?put (Some xs) = go_range ord m ?put (Some ys)"
    using ys(1) ys(3) by (cases "m g") (simp_all add: mget_def)
  obtain zs where zs: "go_range ord m ?put (Some ys) = Some zs" "length zs = length ys"
    "\<forall>k < length ys. (\<forall>g \<in> set ord. int k \<in> set (mget [] m g) \<longrightarrow> zs ! k = g) \<and>
       ((\<forall>g \<in> set ord. int k \<notin> set (mget [] m g)) \<longrightarrow> zs ! k = ys ! k)"
    using Cons.IH [of ys] Cons.prems ys(2) by (auto simp: len_def)
  have "(\<forall>h \<in> set (g # ord). int k \<in> set (mget [] m h) \<longrightarrow> zs ! k = h) \<and>
      ((\<forall>h \<in> set (g # ord). int k \<notin> set (mget [] m h)) \<longrightarrow> zs ! k = xs ! k)" if k: "k < length xs" for k
    using zs(3) ys(2,3) k assms(2) by (cases "\<exists>h \<in> set ord. int k \<in> set (mget [] m h)") (fastforce, auto)
  with step zs(1,2) ys(2) show ?case by auto
qed simp

text \<open>With every shard listed once, the result is the assignment that the lists say.\<close>

lemma assignShards_part:
  assumes part: "shard_part (len xs) m" and ord: "range_order m ord"
  shows "\<exists>ys. assignShards ord m xs = Some ys \<and> length ys = length xs \<and>
    (\<forall>g s. s \<in> set (mget [] m g) \<longleftrightarrow> 0 \<le> s \<and> s < len xs \<and> ys ! nat s = g)"
proof -
  have sub: "\<forall>g. set (mget [] m g) \<subseteq> {0..<len xs}" and cover: "\<And>s. 0 \<le> s \<Longrightarrow> s < len xs \<Longrightarrow> \<exists>g. s \<in> set (mget [] m g)"
    and uniq: "\<forall>s g h. s \<in> set (mget [] m g) \<longrightarrow> s \<in> set (mget [] m h) \<longrightarrow> g = h"
    using part unfolding shard_part_def by blast+
  have dom: "g \<in> set ord" if "s \<in> set (mget [] m g)" for s g
    using that ord by (cases "m g") (auto simp: mget_def range_order_def)
  obtain ys where ys: "assignShards ord m xs = Some ys" "length ys = length xs"
    "\<forall>k < length xs. \<forall>g \<in> set ord. int k \<in> set (mget [] m g) \<longrightarrow> ys ! k = g"
    using assignShards_spec [OF sub uniq, of ord] by blast
  have own: "ys ! nat s = g" if "s \<in> set (mget [] m g)" for s g
    using ys(3) dom [OF that] sub that by (force simp: len_def)
  have "s \<in> set (mget [] m g) \<longleftrightarrow> 0 \<le> s \<and> s < len xs \<and> ys ! nat s = g" for g s
    using own [of s g] own [of s] subsetD [OF sub [rule_format], of s g] cover [of s] by auto
  with ys(1,2) show ?thesis by blast
qed

lemma count_shardsOf: "count_list shards g = length (shardsOf shards g)"
  by (induction shards rule: rev_induct) (simp_all add: shardsOf_snoc, simp add: shardsOf_def)

lemma shardsOf_part:
  assumes part: "shard_part (len xs) m" and len: "length ys = length xs"
    and own: "\<forall>g s. s \<in> set (mget [] m g) \<longleftrightarrow> 0 \<le> s \<and> s < len xs \<and> ys ! nat s = g"
  shows "set (shardsOf ys g) = set (mget [] m g)" "int (count_list ys g) = glen m g"
proof -
  show set: "set (shardsOf ys g) = set (mget [] m g)" using own len by (auto simp: set_shardsOf len_def)
  have "distinct (mget [] m g)" using part by (simp add: shard_part_def)
  then show "int (count_list ys g) = glen m g"
    using arg_cong [OF set, of card] by (simp add: count_shardsOf glen_def len_def distinct_card distinct_shardsOf)
qed

section \<open>The whole of rebalanceConfig\<close>

definition rebalanceAvg :: "orders \<Rightarrow> int" where
  "rebalanceAvg ord = max_int 1 (NShards div len (ord_newcome ord))"

definition rebalanced :: "orders \<Rightarrow> Config \<Rightarrow> (int \<rightharpoonup> int list) option" where
  "rebalanced ord cfg =
     (let m = groupShards (Shards cfg); gids = gidPairs (ord_origin ord) (ord_newcome ord) m (Groups cfg)
      in rebalanceLoop gids (rebalanceAvg ord) 0 (len gids - 1) m)"

text \<open>The orders that Go may take in \<open>rebalanceConfig\<close>.\<close>

definition rebalance_orders :: "orders \<Rightarrow> Config \<Rightarrow> bool" where
  "rebalance_orders ord cfg \<longleftrightarrow> range_order (groupShards (Shards cfg)) (ord_origin ord) \<and>
     range_order (Groups cfg) (ord_newcome ord) \<and>
     (case rebalanced ord cfg of None \<Rightarrow> True | Some m \<Rightarrow> range_order m (ord_assign ord))"

lemma rebalanceConfig_eq:
  "rebalanceConfig ord cfg = (if ord_newcome ord = [] then Some cfg else do {
     m \<leftarrow> rebalanced ord cfg;
     shards \<leftarrow> assignShards (ord_assign ord) m (Shards cfg);
     Some (cfg\<lparr>Shards := shards\<rparr>)
   })"
  by (simp add: rebalanceConfig_def rebalanced_def rebalanceAvg_def Let_def)

lemma dom_groupShards: "dom (groupShards shards) = set shards"
  by (auto simp: groupShards_eq split: if_splits)

lemma loop_inv_init:
  assumes "range_order m ord1" "range_order groups ord2" "shard_part n m"
  defines "gids \<equiv> gidPairs ord1 ord2 m groups"
  shows "loop_inv n gids avg 0 (len gids - 1) m"
proof -
  note props = gidPairs_props [OF assms(1,2), folded gids_def]
  have "glen m (fst (gids ! k)) = snd (gids ! k)" if "k < length gids" for k
    using props(4) nth_mem [OF that] by (auto simp: case_prod_beta)
  with props(2) assms(3) show ?thesis by (auto simp: loop_inv_def len_def)
qed

lemma rebalanced_spec:
  assumes o: "range_order (groupShards (Shards cfg)) (ord_origin ord)" "range_order (Groups cfg) (ord_newcome ord)"
  defines "avg \<equiv> rebalanceAvg ord"
  shows "\<exists>m. rebalanced ord cfg = Some m \<and> shard_part (len (Shards cfg)) m \<and>
    dom m \<subseteq> set (Shards cfg) \<union> dom (Groups cfg) \<and> toward avg (groupShards (Shards cfg)) m \<and>
    (\<forall>g \<in> set (Shards cfg) \<union> dom (Groups cfg). \<forall>h \<in> set (Shards cfg) \<union> dom (Groups cfg).
       \<not> (glen m g < avg \<and> avg < glen m h))"
proof -
  let ?m = "groupShards (Shards cfg)"
  define gids where "gids = gidPairs (ord_origin ord) (ord_newcome ord) ?m (Groups cfg)"
  note props = gidPairs_props [OF o, folded gids_def, unfolded dom_groupShards]
  obtain i j m where m: "rebalanceLoop gids avg 0 (len gids - 1) ?m = Some m"
    "loop_inv (len (Shards cfg)) gids avg i j m" "rebalanceRound gids avg i j m = Some None" "toward avg ?m m"
    using rebalanceLoop_inv [OF props(1) loop_inv_init [OF o shard_part_groupShards, folded gids_def]] by blast
  have run: "rebalanced ord cfg = Some m" using m(1) by (simp add: rebalanced_def gids_def avg_def Let_def)
  have "\<not> (glen m g < avg \<and> avg < glen m h)" if gh: "g \<in> fst ` set gids" "h \<in> fst ` set gids" for g h
  proof -
    from gh obtain k l where "k < length gids" "fst (gids ! k) = g" "l < length gids" "fst (gids ! l) = h"
      by (auto simp: in_set_conv_nth image_iff)
    then show ?thesis using loop_exit [OF m(2) props(3) m(3), of k l] by auto
  qed
  with run m(2,4) props(2) show ?thesis by (intro exI [of _ m]) (auto simp: loop_inv_def)
qed

text \<open>A criterion for the orders that can be evaluated.\<close>

lemma rebalance_orders_check:
  assumes "range_order (Groups cfg) (ord_newcome ord)"
    and "distinct (ord_origin ord)" "set (ord_origin ord) = set (Shards cfg)"
    and "distinct (ord_assign ord)" "set (ord_assign ord) \<subseteq> set (ord_origin ord @ ord_newcome ord)"
    and "case rebalanced ord cfg of None \<Rightarrow> False
      | Some m \<Rightarrow> \<forall>g \<in> set (ord_origin ord @ ord_newcome ord). (m g \<noteq> None) = (g \<in> set (ord_assign ord))"
  shows "rebalance_orders ord cfg"
proof -
  have o: "range_order (groupShards (Shards cfg)) (ord_origin ord)"
    using assms(2,3) by (simp add: range_order_def dom_groupShards)
  obtain m where m: "rebalanced ord cfg = Some m" "dom m \<subseteq> set (Shards cfg) \<union> dom (Groups cfg)"
    using rebalanced_spec [OF o assms(1)] by blast
  then have "dom m \<subseteq> set (ord_origin ord @ ord_newcome ord)" using assms(1,3) by (simp add: range_order_def)
  with m(1) assms(4-6) have "range_order m (ord_assign ord)" by (fastforce simp: range_order_def)
  with m(1) o assms(1) show ?thesis by (simp add: rebalance_orders_def)
qed

lemma rebalanceConfig_ok:
  assumes ord: "rebalance_orders ord cfg" and ne: "Groups cfg \<noteq> Map.empty"
  shows "\<exists>m shards. rebalanceConfig ord cfg = Some (cfg\<lparr>Shards := shards\<rparr>) \<and> length shards = length (Shards cfg) \<and>
    rebalanced ord cfg = Some m \<and> toward (rebalanceAvg ord) (groupShards (Shards cfg)) m \<and>
    dom m \<subseteq> set (Shards cfg) \<union> dom (Groups cfg) \<and>
    (\<forall>g s. s \<in> set (mget [] m g) \<longleftrightarrow> 0 \<le> s \<and> s < len (Shards cfg) \<and> shards ! nat s = g) \<and>
    (\<forall>g. int (count_list shards g) = glen m g) \<and>
    (\<forall>g \<in> set (Shards cfg) \<union> dom (Groups cfg). \<forall>h \<in> set (Shards cfg) \<union> dom (Groups cfg).
       \<not> (glen m g < rebalanceAvg ord \<and> rebalanceAvg ord < glen m h))"
proof -
  obtain m where m: "rebalanced ord cfg = Some m" "shard_part (len (Shards cfg)) m" "range_order m (ord_assign ord)"
    "dom m \<subseteq> set (Shards cfg) \<union> dom (Groups cfg)" "toward (rebalanceAvg ord) (groupShards (Shards cfg)) m"
    "\<forall>g \<in> set (Shards cfg) \<union> dom (Groups cfg). \<forall>h \<in> set (Shards cfg) \<union> dom (Groups cfg).
       \<not> (glen m g < rebalanceAvg ord \<and> rebalanceAvg ord < glen m h)"
    using rebalanced_spec [of cfg ord] ord unfolding rebalance_orders_def by fastforce
  obtain shards where sh: "assignShards (ord_assign ord) m (Shards cfg) = Some shards" "length shards = length (Shards cfg)"
    "\<forall>g s. s \<in> set (mget [] m g) \<longleftrightarrow> 0 \<le> s \<and> s < len (Shards cfg) \<and> shards ! nat s = g"
    using assignShards_part [OF m(2,3)] by blast
  have "set (ord_newcome ord) \<noteq> {}"
    using ord ne by (simp add: rebalance_orders_def range_order_def)
  then have "ord_newcome ord \<noteq> []" by simp
  then have "rebalanceConfig ord cfg = Some (cfg\<lparr>Shards := shards\<rparr>)" using m(1) sh(1) by (simp add: rebalanceConfig_eq)
  with m(1,4,5,6) sh shardsOf_part(2) [OF m(2) sh(2,3)] show ?thesis by blast
qed

text \<open>The average is over the groups of the configuration.\<close>

lemma rebalanceAvg_eq: "rebalance_orders ord cfg \<Longrightarrow> rebalanceAvg ord = max 1 (10 div int (card (dom (Groups cfg))))"
  by (auto simp: rebalanceAvg_def rebalance_orders_def range_order_def len_def NShards_def distinct_card simp flip: distinct_card)

text \<open>
  The contract of rebalancing, for the groups \<open>gs\<close> and their average share \<open>avg\<close>: the number of shards is
  kept; a shard that moves leaves a group above the average for one of \<open>gs\<close> below it; no group crosses the
  average; and at the end no group is below the average while another is above.
\<close>

definition balances :: "int \<Rightarrow> int set \<Rightarrow> int list \<Rightarrow> int list \<Rightarrow> bool" where
  "balances avg gs old new \<longleftrightarrow> length new = length old \<and>
     (\<forall>k < length old. new ! k \<noteq> old ! k \<longrightarrow>
        new ! k \<in> gs \<and> avg < int (count_list old (old ! k)) \<and> int (count_list old (new ! k)) < avg) \<and>
     (\<forall>g. (avg \<le> int (count_list old g) \<longrightarrow> avg \<le> int (count_list new g)) \<and>
          (int (count_list old g) \<le> avg \<longrightarrow> int (count_list new g) \<le> avg)) \<and>
     (\<forall>g \<in> gs. \<forall>h \<in> gs. \<not> (int (count_list new g) < avg \<and> avg < int (count_list new h)))"

lemma toward_balances:
  assumes tow: "toward avg (groupShards old) m" and len: "length new = length old"
    and own: "\<forall>g s. s \<in> set (mget [] m g) \<longleftrightarrow> 0 \<le> s \<and> s < len old \<and> new ! nat s = g"
    and cnt: "\<forall>g. int (count_list new g) = glen m g" and dom: "dom m \<subseteq> gs"
    and pair: "\<forall>g \<in> gs. \<forall>h \<in> gs. \<not> (glen m g < avg \<and> avg < glen m h)"
  shows "balances avg gs old new"
proof -
  have old: "glen (groupShards old) g = int (count_list old g)" "mget [] (groupShards old) g = shardsOf old g" for g
    by (simp_all add: glen_def mget_groupShards count_shardsOf len_def)
  have move: "new ! k \<in> gs \<and> avg < int (count_list old (old ! k)) \<and> int (count_list old (new ! k)) < avg"
    if k: "k < length old" "new ! k \<noteq> old ! k" for k
  proof -
    have mem: "int k \<in> set (mget [] m g) \<longleftrightarrow> new ! k = g" "int k \<in> set (shardsOf old g) \<longleftrightarrow> old ! k = g" for g
      using own k(1) by (simp_all add: set_shardsOf len_def)
    have "m (new ! k) \<noteq> None" using mem(1) [of "new ! k"] by (cases "m (new ! k)") (simp_all add: mget_def)
    moreover have "avg < int (count_list old (old ! k))"
      using tow [unfolded toward_def old, rule_format, of "old ! k"] mem [of "old ! k"] k(2) by fastforce
    moreover have "int (count_list old (new ! k)) < avg"
      using tow [unfolded toward_def old, rule_format, of "new ! k"] mem [of "new ! k"] k(2) by fastforce
    ultimately show ?thesis using dom by blast
  qed
  have cross: "(avg \<le> int (count_list old g) \<longrightarrow> avg \<le> int (count_list new g)) \<and>
      (int (count_list old g) \<le> avg \<longrightarrow> int (count_list new g) \<le> avg)" for g
    using tow [unfolded toward_def old, rule_format, of g] cnt by simp
  from move cross len pair cnt show ?thesis by (simp add: balances_def)
qed

lemma rebalanceConfig_balances_ex:
  assumes "rebalance_orders ord cfg" "Groups cfg \<noteq> Map.empty"
  shows "\<exists>new. rebalanceConfig ord cfg = Some (cfg\<lparr>Shards := new\<rparr>) \<and>
    balances (max 1 (10 div int (card (dom (Groups cfg))))) (dom (Groups cfg) \<union> set (Shards cfg)) (Shards cfg) new"
proof -
  obtain m new where run: "rebalanceConfig ord cfg = Some (cfg\<lparr>Shards := new\<rparr>)" and m: "length new = length (Shards cfg)"
    "toward (rebalanceAvg ord) (groupShards (Shards cfg)) m" "dom m \<subseteq> set (Shards cfg) \<union> dom (Groups cfg)"
    "\<forall>g s. s \<in> set (mget [] m g) \<longleftrightarrow> 0 \<le> s \<and> s < len (Shards cfg) \<and> new ! nat s = g"
    "\<forall>g. int (count_list new g) = glen m g"
    "\<forall>g \<in> set (Shards cfg) \<union> dom (Groups cfg). \<forall>h \<in> set (Shards cfg) \<union> dom (Groups cfg).
       \<not> (glen m g < rebalanceAvg ord \<and> rebalanceAvg ord < glen m h)"
    using rebalanceConfig_ok [OF assms] by blast
  from toward_balances [OF m(2,1,4,5,3,6)] run show ?thesis
    unfolding rebalanceAvg_eq [OF assms(1)] by (auto simp: Un_commute)
qed

section \<open>Orders do not matter\<close>

lemma gidPairs_order:
  assumes "range_order m o1" "range_order m o1'" "range_order groups o2" "range_order groups o2'"
  shows "gidPairs o1 o2 m groups = gidPairs o1' o2' m groups"
proof -
  have "mset o1 = mset o1'" "mset o2 = mset o2'"
    using assms by (simp_all add: range_order_def flip: set_eq_iff_mset_eq_distinct)
  then have "mset (gidPairs0 o1 o2 m) = mset (gidPairs0 o1' o2' m)" by (simp add: gidPairs0_def)
  then show ?thesis
    unfolding gidPairs_eq [OF assms(1,3)] gidPairs_eq [OF assms(2,4)]
    by (intro sort_key_inj_key_eq) (auto simp: inj_on_def)
qed

lemma rebalanced_order:
  assumes "rebalance_orders o1 cfg" "rebalance_orders o2 cfg"
  shows "rebalanced o1 cfg = rebalanced o2 cfg"
proof -
  have "rebalanceAvg o1 = rebalanceAvg o2" using assms by (simp add: rebalanceAvg_eq)
  moreover have "gidPairs (ord_origin o1) (ord_newcome o1) (groupShards (Shards cfg)) (Groups cfg) =
      gidPairs (ord_origin o2) (ord_newcome o2) (groupShards (Shards cfg)) (Groups cfg)"
    using assms by (intro gidPairs_order) (simp_all add: rebalance_orders_def)
  ultimately show ?thesis by (simp add: rebalanced_def)
qed

lemma rebalanceConfig_order:
  assumes "rebalance_orders o1 cfg" "rebalance_orders o2 cfg"
  shows "rebalanceConfig o1 cfg = rebalanceConfig o2 cfg"
proof (cases "Groups cfg = Map.empty")
  case True
  with assms have "ord_newcome o1 = []" "ord_newcome o2 = []" by (auto simp: rebalance_orders_def range_order_def)
  then show ?thesis by (simp add: rebalanceConfig_eq)
next
  case False
  obtain m n1 where 1: "rebalanceConfig o1 cfg = Some (cfg\<lparr>Shards := n1\<rparr>)" "length n1 = length (Shards cfg)"
    "rebalanced o1 cfg = Some m" "\<forall>g s. s \<in> set (mget [] m g) \<longleftrightarrow> 0 \<le> s \<and> s < len (Shards cfg) \<and> n1 ! nat s = g"
    using rebalanceConfig_ok [OF assms(1) False] by blast
  obtain m' n2 where 2: "rebalanceConfig o2 cfg = Some (cfg\<lparr>Shards := n2\<rparr>)" "length n2 = length (Shards cfg)"
    "rebalanced o2 cfg = Some m'" "\<forall>g s. s \<in> set (mget [] m' g) \<longleftrightarrow> 0 \<le> s \<and> s < len (Shards cfg) \<and> n2 ! nat s = g"
    using rebalanceConfig_ok [OF assms(2) False] by blast
  have "m = m'" using 1(3) 2(3) rebalanced_order [OF assms] by simp
  have "n1 ! k = n2 ! k" if "k < length n1" for k
    using 1(2) 1(4) [rule_format, of "int k" "n1 ! k"] 2(4) [rule_format, of "int k" "n1 ! k"] \<open>m = m'\<close> that
    by (simp add: len_def)
  then have "n1 = n2" using 1(2) 2(2) by (intro nth_equalityI) simp_all
  with 1(1) 2(1) show ?thesis by simp
qed

section \<open>Rebalancing is correct\<close>

text \<open>
  C10: for any orders that Go may take and any configuration with groups, rebalancing returns the
  configuration with a new assignment that satisfies its contract \<open>balances\<close>: shards move only from
  groups above the average share (at least one) to groups below it, and no such pair is left.
\<close>

theorem rebalanceConfig_balances:
  assumes "rebalance_orders ord cfg" "Groups cfg \<noteq> Map.empty"
  shows "\<exists>new. rebalanceConfig ord cfg = Some (cfg\<lparr>Shards := new\<rparr>) \<and>
    balances (max 1 (10 div int (card (dom (Groups cfg))))) (dom (Groups cfg) \<union> set (Shards cfg)) (Shards cfg) new"
  using assms by (rule rebalanceConfig_balances_ex)

definition rebalance_demo :: Config where
  "rebalance_demo = \<lparr>Num = 2, Shards = [1, 2, 1, 2, 1, 2, 1, 2, 1, 2], Groups = [1 \<mapsto> [''a''], 2 \<mapsto> [''b''], 3 \<mapsto> [''c'']]\<rparr>"

definition rebalance_demo_ord :: orders where
  "rebalance_demo_ord = \<lparr>ord_copy = [], ord_join = [], ord_count = [], ord_origin = [2, 1], ord_newcome = [3, 1, 2], ord_assign = [1, 3, 2]\<rparr>"

lemma rebalance_demo_orders: "rebalance_orders rebalance_demo_ord rebalance_demo"
  by (rule rebalance_orders_check) (auto simp: rebalance_demo_def rebalance_demo_ord_def range_order_def; fail | code_simp)+

theorem rebalanceConfig_balances_witness:
  "\<exists>new. rebalanceConfig rebalance_demo_ord rebalance_demo = Some (rebalance_demo\<lparr>Shards := new\<rparr>) \<and>
     balances 3 {1, 2, 3} [1, 2, 1, 2, 1, 2, 1, 2, 1, 2] new"
proof -
  have dom: "dom (Groups rebalance_demo) = {1, 2, 3}" "set (Shards rebalance_demo) = {1, 2}"
    by (auto simp: rebalance_demo_def)
  have "Groups rebalance_demo \<noteq> Map.empty" using dom(1) by auto
  from rebalanceConfig_balances [OF rebalance_demo_orders this] show ?thesis
    unfolding dom by (simp add: rebalance_demo_def insert_commute)
qed

end
