(* ===== verification/ShardCtrler_Correct.thy ===== *)
theory ShardCtrler_Correct
  imports ShardCtrler_Rebalance
begin

text \<open>
  Correctness of the shard controller's server: the commands do not depend on the order in which Go
  visits its maps, so replicas that apply the same log agree; a request takes effect at most once;
  configurations are numbered consecutively and never change; when a command panics; which
  configuration a Query returns; and that Join and Leave give every shard to a group.
\<close>

section \<open>Copies and merges of maps\<close>

lemma mget_empty: "mget d Map.empty = (\<lambda>_. d)"
  by (simp add: fun_eq_iff)

lemma go_range_merge:
  assumes "range_order src ord"
  shows "go_range ord src (\<lambda>k v m. m(k \<mapsto> mget [] m k @ v)) dst =
    (\<lambda>k. case src k of None \<Rightarrow> dst k | Some v \<Rightarrow> Some (mget [] dst k @ v))"
  using go_range_pointwise [OF assms, of "\<lambda>k v old. Some ((case old of None \<Rightarrow> [] | Some x \<Rightarrow> x) @ v)" dst]
  by (simp add: mget_def cong: option.case_cong)

lemma deepCopy_eq: "range_order (Groups cfg) ord \<Longrightarrow> deepCopy ord cfg = cfg\<lparr>Num := 0\<rparr>"
  by (cases cfg) (auto simp: deepCopy_def Config0_def go_range_merge fun_eq_iff mget_empty split: option.split)

lemma Shards_deepCopy [simp]: "Shards (deepCopy ord cfg) = Shards cfg"
  by (simp add: deepCopy_def)

section \<open>The group that takes the shards of those that leave\<close>

text \<open>The loop keeps the group with the largest count and, among those, the smallest gid.\<close>

definition gidKey :: "(int \<rightharpoonup> int) \<Rightarrow> int \<Rightarrow> int \<times> int" where
  "gidKey m g = (mget 0 m g, - g)"

lemma gidKey_inj [simp]: "gidKey m g = gidKey m h \<longleftrightarrow> g = h"
  by (auto simp: gidKey_def)

lemma pickGid_fold:
  "\<forall>g \<in> set ord. m g \<noteq> None \<Longrightarrow>
   go_range ord m (\<lambda>gid _ tGid. if mget 0 m gid > mget 0 m tGid then gid
      else if mget 0 m gid = mget 0 m tGid then min_int tGid gid else tGid) t =
   fold (\<lambda>g t. if gidKey m t < gidKey m g then g else t) ord t"
proof (induction ord arbitrary: t)
  case (Cons g ord)
  have "(if mget 0 m g > mget 0 m t then g else if mget 0 m g = mget 0 m t then min_int t g else t) =
    (if gidKey m t < gidKey m g then g else t)"
    by (auto simp: gidKey_def min_int_def)
  with Cons show ?case by auto
qed simp

lemma fold_best:
  "(let r = fold (\<lambda>g t. if gidKey m t < gidKey m g then g else t) ord t
    in r \<in> insert t (set ord) \<and> (\<forall>g \<in> insert t (set ord). gidKey m g \<le> gidKey m r))"
proof (induction ord arbitrary: t)
  case (Cons g ord)
  let ?t = "if gidKey m t < gidKey m g then g else t"
  have "gidKey m t \<le> gidKey m ?t" "gidKey m g \<le> gidKey m ?t" by auto
  with Cons [of ?t] show ?case
    by (auto simp: Let_def dest: order_trans)
qed simp

lemma pickGid_best:
  assumes "range_order m ord"
  shows "pickGid ord m \<in> insert 0 (dom m)" "\<forall>g \<in> insert 0 (dom m). gidKey m g \<le> gidKey m (pickGid ord m)"
proof -
  have "\<forall>g \<in> set ord. m g \<noteq> None" using assms by (auto simp: range_order_def)
  from pickGid_fold [OF this, of 0] fold_best [of m ord 0] assms
  show "pickGid ord m \<in> insert 0 (dom m)" "\<forall>g \<in> insert 0 (dom m). gidKey m g \<le> gidKey m (pickGid ord m)"
    by (simp_all add: pickGid_def range_order_def Let_def)
qed

lemma pickGid_order:
  assumes "range_order m o1" "range_order m o2"
  shows "pickGid o1 m = pickGid o2 m"
proof -
  have "gidKey m (pickGid o1 m) = gidKey m (pickGid o2 m)"
    using pickGid_best [OF assms(1)] pickGid_best [OF assms(2)] by (meson order_antisym)
  then show ?thesis by simp
qed

lemma shardNum_count:
  "\<And>g. mget 0 (shardNum del shards) g = (if mget False del g then 0 else int (count_list shards g))"
  "dom (shardNum del shards) = {g \<in> set shards. \<not> mget False del g}"
proof (induction shards rule: rev_induct)
  case (snoc x xs)
  let ?m = "shardNum del xs"
  have old: "shardNum del (xs @ [x]) = ?m" if "mget False del x" using that by (simp add: shardNum_def)
  have new: "shardNum del (xs @ [x]) = ?m(x \<mapsto> mget 0 ?m x + 1)" if "\<not> mget False del x" using that by (simp add: shardNum_def)
  { case 1 show ?case by (cases "mget False del x") (use snoc in \<open>auto simp: old new simp del: fun_upd_apply\<close>) }
  { case 2 have "dom (shardNum del (xs @ [x])) = (if mget False del x then dom ?m else insert x (dom ?m))" by (simp add: old new)
    with snoc(2) show ?case by (auto split: if_splits) }
qed (simp_all add: shardNum_def mget_def)

lemma count_pos: "g \<in> set xs \<longleftrightarrow> 0 < count_list xs g"
  using count_list_0_iff [of xs g] by auto

text \<open>If a group that stays owns a shard, the chosen group is one of those.\<close>

lemma pickGid_stays:
  assumes ord: "range_order (shardNum del shards) ord" and g: "g \<in> set shards" "\<not> mget False del g"
  shows "pickGid ord (shardNum del shards) \<in> set shards \<and> \<not> mget False del (pickGid ord (shardNum del shards))"
proof -
  let ?t = "pickGid ord (shardNum del shards)"
  have "0 < mget 0 (shardNum del shards) g" using g by (simp add: shardNum_count count_pos)
  moreover have "gidKey (shardNum del shards) g \<le> gidKey (shardNum del shards) ?t"
    using pickGid_best(2) [OF ord] g by (simp add: shardNum_count(2))
  ultimately have "0 < mget 0 (shardNum del shards) ?t" by (auto simp: gidKey_def)
  then show ?thesis by (auto simp: shardNum_count count_pos split: if_splits)
qed

section \<open>The commands without the orders\<close>

definition joinedConfig :: "JoinArgs \<Rightarrow> Config \<Rightarrow> int \<Rightarrow> Config" where
  "joinedConfig args cfg n = cfg\<lparr>Num := n, Groups := (\<lambda>g. case Servers args g of
     None \<Rightarrow> Groups cfg g | Some names \<Rightarrow> Some (mget [] (Groups cfg) g @ names))\<rparr>"

definition deletedGids :: "int list \<Rightarrow> (int \<rightharpoonup> bool)" where
  "deletedGids gids = fold (\<lambda>gid m. m(gid \<mapsto> True)) gids Map.empty"

definition leftConfig :: "int list \<Rightarrow> LeaveArgs \<Rightarrow> Config \<Rightarrow> int \<Rightarrow> Config" where
  "leftConfig ord args cfg n =
     (let del = deletedGids (GIDs args); tGid = pickGid ord (shardNum del (Shards cfg))
      in cfg\<lparr>Num := n, Groups := fold (\<lambda>gid m. m(gid := None)) (GIDs args) (Groups cfg),
           Shards := map (\<lambda>gid. if del gid \<noteq> None then tGid else gid) (Shards cfg)\<rparr>)"

text \<open>The orders that Go may take in a command applied to the configurations \<open>cfgs\<close>.\<close>

definition sc_orders :: "orders \<Rightarrow> sc_Op \<Rightarrow> Config list \<Rightarrow> bool" where
  "sc_orders ord msg cfgs \<longleftrightarrow> (case lastConfig cfgs of None \<Rightarrow> True | Some cfg \<Rightarrow>
     range_order (Groups cfg) (ord_copy ord) \<and>
     (case sc_ReqType msg of
        JOIN \<Rightarrow> range_order (Servers (sc_JoinArgs msg)) (ord_join ord) \<and>
          rebalance_orders ord (joinedConfig (sc_JoinArgs msg) cfg (len cfgs))
      | LEAVE \<Rightarrow> range_order (shardNum (deletedGids (GIDs (sc_LeaveArgs msg))) (Shards cfg)) (ord_count ord) \<and>
          rebalance_orders ord (leftConfig (ord_count ord) (sc_LeaveArgs msg) cfg (len cfgs))
      | _ \<Rightarrow> True))"

lemma fold_delete: "fold (\<lambda>gid m. m(gid := None)) gids m = (\<lambda>g. if g \<in> set gids then None else m g)"
  by (induction gids arbitrary: m) (auto simp: fun_eq_iff)

lemma deletedGids_eq: "deletedGids gids = (\<lambda>g. if g \<in> set gids then Some True else None)"
proof -
  have "fold (\<lambda>gid m. m(gid \<mapsto> True)) gids m = (\<lambda>g. if g \<in> set gids then Some True else m g)" for m
    by (induction gids arbitrary: m) (auto simp: fun_eq_iff)
  then show ?thesis by (simp add: deletedGids_def)
qed

lemma mget_deletedGids: "mget False (deletedGids gids) g \<longleftrightarrow> g \<in> set gids"
  by (simp add: deletedGids_eq mget_def)

lemma doJoin_eq:
  assumes "lastConfig cfgs = Some cfg" "range_order (Groups cfg) (ord_copy ord)" "range_order (Servers args) (ord_join ord)"
  shows "doJoin ord args cfgs = do {
    shard0 \<leftarrow> go_nth (Shards cfg) 0;
    ncfg \<leftarrow> (if shard0 = 0 then initConfifg (ord_join ord) (Servers args) (cfg\<lparr>Num := len cfgs\<rparr>)
             else rebalanceConfig ord (joinedConfig args cfg (len cfgs)));
    Some (cfgs @ [ncfg])
  }"
  using assms by (simp add: doJoin_def deepCopy_eq go_range_merge joinedConfig_def Let_def cong: if_cong option.case_cong)

lemma doLeave_eq:
  assumes "lastConfig cfgs = Some cfg" "range_order (Groups cfg) (ord_copy ord)"
  shows "doLeave ord args cfgs = do {
    ncfg \<leftarrow> rebalanceConfig ord (leftConfig (ord_count ord) args cfg (len cfgs));
    Some (cfgs @ [ncfg])
  }"
  using assms by (simp add: doLeave_def deepCopy_eq leftConfig_def deletedGids_def Let_def cong: if_cong)

lemma initConfifg_eq:
  assumes "range_order srvs ord"
  shows "initConfifg ord srvs cfg = do {
    let gids = sorted_list_of_set (dom srvs);
    shards \<leftarrow> fold (\<lambda>i shards. do {
        shards \<leftarrow> shards;
        gid \<leftarrow> (if len gids = 0 then None else go_nth gids (i mod len gids));
        go_set shards i gid
      }) [0..NShards - 1] (Some (Shards cfg));
    Some (cfg\<lparr>Groups := srvs, Shards := shards\<rparr>)
  }"
proof -
  have "sort ord = sorted_list_of_set (dom srvs)"
    using assms sorted_list_of_set_sort_remdups [of ord] by (simp add: range_order_def distinct_remdups_id)
  then show ?thesis using assms by (simp add: initConfifg_def go_range_keys)
qed

section \<open>Orders do not matter\<close>

lemma leftConfig_order:
  assumes "range_order (shardNum (deletedGids (GIDs args)) (Shards cfg)) o1" "range_order (shardNum (deletedGids (GIDs args)) (Shards cfg)) o2"
  shows "leftConfig o1 args cfg n = leftConfig o2 args cfg n"
  using pickGid_order [OF assms] by (simp add: leftConfig_def Let_def)

lemma sc_do_order:
  assumes "sc_orders o1 msg cfgs" "sc_orders o2 msg cfgs"
  shows "sc_do o1 msg cfgs = sc_do o2 msg cfgs"
proof (cases "lastConfig cfgs")
  case None
  then show ?thesis by (simp add: sc_do_def doJoin_def doLeave_def doMove_def split: ReqType.split)
next
  case (Some cfg)
  show ?thesis
  proof (cases "sc_ReqType msg")
    case JOIN
    with assms Some have o: "range_order (Groups cfg) (ord_copy o1)" "range_order (Groups cfg) (ord_copy o2)"
      "range_order (Servers (sc_JoinArgs msg)) (ord_join o1)" "range_order (Servers (sc_JoinArgs msg)) (ord_join o2)"
      "rebalance_orders o1 (joinedConfig (sc_JoinArgs msg) cfg (len cfgs))"
      "rebalance_orders o2 (joinedConfig (sc_JoinArgs msg) cfg (len cfgs))"
      by (simp_all add: sc_orders_def)
    show ?thesis
      using JOIN rebalanceConfig_order [OF o(5,6)] 
      by (simp add: sc_do_def doJoin_eq [OF Some o(1,3)] doJoin_eq [OF Some o(2,4)]
          initConfifg_eq [OF o(3)] initConfifg_eq [OF o(4)] cong: if_cong)
  next
    case LEAVE
    let ?del = "shardNum (deletedGids (GIDs (sc_LeaveArgs msg))) (Shards cfg)"
    from LEAVE assms Some have o: "range_order (Groups cfg) (ord_copy o1)" "range_order (Groups cfg) (ord_copy o2)"
      "range_order ?del (ord_count o1)" "range_order ?del (ord_count o2)"
      "rebalance_orders o1 (leftConfig (ord_count o1) (sc_LeaveArgs msg) cfg (len cfgs))"
      "rebalance_orders o2 (leftConfig (ord_count o2) (sc_LeaveArgs msg) cfg (len cfgs))"
      by (simp_all add: sc_orders_def)
    note left = leftConfig_order [OF o(3,4)]
    show ?thesis
      using LEAVE rebalanceConfig_order [OF o(5)] o(6)
      by (simp add: sc_do_def doLeave_eq [OF Some o(1)] doLeave_eq [OF Some o(2)] left)
  qed (use assms Some in \<open>simp_all add: sc_do_def doMove_def doQuery_def sc_orders_def deepCopy_eq\<close>)
qed

section \<open>The history of configurations\<close>

text \<open>Every configuration has its position as its number and assigns \<open>NShards\<close> shards.\<close>

definition history_ok :: "Config list \<Rightarrow> bool" where
  "history_ok cfgs \<longleftrightarrow> cfgs \<noteq> [] \<and>
     (\<forall>k < length cfgs. Num (cfgs ! k) = int k \<and> len (Shards (cfgs ! k)) = NShards)"

lemma lastConfig_eq: "lastConfig cfgs = (if cfgs = [] then None else Some (last cfgs))"
  by (simp add: lastConfig_def go_nth_last) (simp add: go_nth_def in_range_def)

lemma history_ok_snoc:
  "history_ok cfgs \<Longrightarrow> Num c = len cfgs \<Longrightarrow> len (Shards c) = NShards \<Longrightarrow> history_ok (cfgs @ [c])"
  by (auto simp: history_ok_def nth_append len_def less_Suc_eq)

lemma history_ok_last: "history_ok cfgs \<Longrightarrow> len (Shards (last cfgs)) = NShards"
  by (auto simp: history_ok_def last_conv_nth)

lemma fold_go_set_len:
  "fold (\<lambda>i shards. do { shards \<leftarrow> shards; g \<leftarrow> f i; go_set shards (h i) g }) is (Some xs) = Some ys \<Longrightarrow> len ys = len xs"
proof (induction "is" arbitrary: xs)
  case (Cons i "is")
  have none: "fold (\<lambda>i shards. do { shards \<leftarrow> shards; g \<leftarrow> f i; go_set shards (h i) g }) is None = None" for "is"
    by (induction "is") simp_all
  from Cons.prems obtain g zs where "f i = Some g" "go_set xs (h i) g = Some zs"
    by (cases "f i"; cases "go_set xs (h i) (the (f i))") (auto simp: none)
  with Cons show ?case by (fastforce simp: len_def dest: go_set_length)
qed simp

lemma initConfifg_keeps: "initConfifg ord srvs cfg = Some c \<Longrightarrow> Num c = Num cfg \<and> len (Shards c) = len (Shards cfg)"
  by (auto simp: initConfifg_def Let_def Option.bind_eq_Some_conv dest: fold_go_set_len)

lemma assignShards_len: "assignShards ord m xs = Some ys \<Longrightarrow> len ys = len xs"
proof -
  let ?put = "\<lambda>gid ids shards. fold (\<lambda>shardId shards. do { shards \<leftarrow> shards; go_set shards shardId gid }) ids shards"
  have none: "?put gid ids None = None" for gid ids by (induction ids) simp_all
  have put: "?put gid ids (Some xs) = Some ys \<Longrightarrow> len ys = len xs" for gid ids xs ys
    using fold_go_set_len [of "\<lambda>_. Some gid" "\<lambda>i. i" ids xs ys] by simp
  have none': "go_range ord m ?put None = None" for ord
    by (induction ord) (auto simp: none split: option.split)
  have "go_range ord m ?put (Some xs) = Some ys \<Longrightarrow> len ys = len xs" for ord
  proof (induction ord arbitrary: xs)
    case (Cons g ord)
    then show ?case
      by (cases "m g"; cases "?put g (the (m g)) (Some xs)") (auto simp: none' dest!: put)
  qed simp
  then show "assignShards ord m xs = Some ys \<Longrightarrow> len ys = len xs" by (simp add: assignShards_def)
qed

lemma rebalanceConfig_keeps: "rebalanceConfig ord cfg = Some c \<Longrightarrow> Num c = Num cfg \<and> len (Shards c) = len (Shards cfg)"
  by (auto simp: rebalanceConfig_eq Option.bind_eq_Some_conv dest: assignShards_len split: if_splits)

text \<open>A command appends one configuration or leaves the history as it is.\<close>

lemma sc_do_history:
  assumes "sc_do ord msg cfgs = Some cfgs'" "history_ok cfgs"
  shows "history_ok cfgs' \<and> (cfgs' = cfgs \<or> (\<exists>c. cfgs' = cfgs @ [c]))"
proof -
  have ne: "cfgs \<noteq> []" using assms(2) by (simp add: history_ok_def)
  have snoc: "history_ok (cfgs @ [c])" if "Num c = len cfgs" "len (Shards c) = len (Shards (last cfgs))" for c
    using that assms(2) history_ok_last by (intro history_ok_snoc) simp_all
  show ?thesis
  proof (cases "sc_ReqType msg")
    case JOIN
    with assms(1) ne show ?thesis
      by (auto simp: sc_do_def doJoin_def lastConfig_eq Let_def Option.bind_eq_Some_conv snoc
          dest!: initConfifg_keeps rebalanceConfig_keeps split: if_splits)
  next
    case LEAVE
    with assms(1) ne show ?thesis
      by (auto simp: sc_do_def doLeave_def lastConfig_eq Let_def Option.bind_eq_Some_conv snoc dest!: rebalanceConfig_keeps)
  next
    case MOVE
    with assms(1) ne show ?thesis
      by (auto simp: sc_do_def doMove_def lastConfig_eq Let_def Option.bind_eq_Some_conv len_def snoc dest!: go_set_length)
  next
    case QUERY
    with assms show ?thesis by (simp add: sc_do_def doQuery_def)
  qed
qed

section \<open>At most once\<close>

interpretation sc: dedup "\<lambda>(ord, msg). sc_exec ord msg" "\<lambda>(ord, msg). sc_ClientId msg" "\<lambda>(ord, msg). sc_ReqNo msg" "\<lambda>(cfgs, pool). mget 0 pool"
  by unfold_locales (auto simp: sc_exec_def mget_upd Option.bind_eq_Some_conv split: if_splits)

lemma sc_exec_do:
  "map_option fst (run_opt (\<lambda>(ord, msg). sc_exec ord msg) ps (cfgs, pool)) =
   run_opt (\<lambda>(ord, msg). sc_do ord msg) (fresh_ops (\<lambda>(ord, msg). sc_ClientId msg) (\<lambda>(ord, msg). sc_ReqNo msg) (mget 0 pool) ps) cfgs"
proof (induction ps arbitrary: cfgs pool)
  case (Cons p ps)
  obtain ord msg where p: "p = (ord, msg)" by (cases p)
  show ?case
  proof (cases "sc_ReqNo msg \<le> mget 0 pool (sc_ClientId msg)")
    case True
    then have "sc_exec ord msg (cfgs, pool) = Some (cfgs, pool)" by (simp add: sc_exec_def)
    with True Cons show ?thesis by (simp add: p)
  next
    case False
    then have "sc_exec ord msg (cfgs, pool) = map_option (\<lambda>c. (c, pool(sc_ClientId msg \<mapsto> sc_ReqNo msg))) (sc_do ord msg cfgs)"
      by (cases "sc_do ord msg cfgs") (simp_all add: sc_exec_def)
    with False Cons [of _ "pool(sc_ClientId msg \<mapsto> sc_ReqNo msg)"] show ?thesis
      by (cases "sc_do ord msg cfgs") (simp_all add: p mget_upd del: fun_upd_apply)
  qed
qed simp

text \<open>A replica that receives messages from Raft, each with the orders that Go takes in it.\<close>

type_synonym sc_delivery = "orders \<times> (sc_Op, unit) ApplyMsg"

definition sc_applyAll :: "sc_delivery list \<Rightarrow> ShardCtrler \<Rightarrow> ShardCtrler option" where
  "sc_applyAll = run_opt (\<lambda>(ord, am) sc. map_option fst (sc_applyLog ord am sc))"

definition sc_view :: "ShardCtrler \<Rightarrow> sc_state" where
  "sc_view sc = (configs sc, sc_CompletedPool sc)"

definition sc_command :: "sc_delivery \<Rightarrow> bool" where
  "sc_command = (\<lambda>(ord, am). am_CommandValid am \<and> am_Command am \<noteq> None)"

definition sc_cmd :: "sc_delivery \<Rightarrow> orders \<times> sc_Op" where
  "sc_cmd = (\<lambda>(ord, am). (ord, the (am_Command am)))"

lemma sc_applyLog_view:
  "am_CommandValid am \<Longrightarrow> am_Command am = Some msg \<Longrightarrow>
   map_option (sc_view \<circ> fst) (sc_applyLog ord am sc) = sc_exec ord msg (sc_view sc)"
  by (cases "sc_exec ord msg (sc_view sc)") (auto simp: sc_applyLog_def sc_view_def Let_def)

lemma sc_applyAll_Cons:
  "sc_applyAll ((ord, am) # ps) sc =
   (case sc_applyLog ord am sc of None \<Rightarrow> None | Some (sc', _) \<Rightarrow> sc_applyAll ps sc')"
  by (simp add: sc_applyAll_def case_prod_beta split: option.split)

lemma sc_applyAll_view:
  "\<forall>p \<in> set ps. sc_command p \<Longrightarrow>
   map_option sc_view (sc_applyAll ps sc) = run_opt (\<lambda>(ord, msg). sc_exec ord msg) (map sc_cmd ps) (sc_view sc)"
proof (induction ps arbitrary: sc)
  case (Cons p ps)
  obtain ord am where p: "p = (ord, am)" by (cases p)
  from Cons.prems obtain msg where am: "am_CommandValid am" "am_Command am = Some msg" by (auto simp: p sc_command_def)
  show ?case
    using sc_applyLog_view [OF am, of ord sc] Cons
    by (cases "sc_applyLog ord am sc") (auto simp: p sc_applyAll_Cons sc_cmd_def am(2) dest!: sym [of "Some _"])
qed (simp add: sc_applyAll_def)

lemma sc_view_StartServer: "sc_view (StartServer ev n i ps) = ([Config0], Map.empty)"
  by (simp add: sc_view_def StartServer_def)

text \<open>
  C13: at most once. A started controller that applies a log of commands ends with the configurations made
  by the commands that are not duplicates, in log order; none of these occurs twice, and the
  commands of one client take effect in the order of their request numbers.
\<close>

theorem sc_exactly_once:
  assumes "\<forall>p \<in> set ps. sc_command p"
  defines "done \<equiv> fresh_ops (\<lambda>(ord, msg). sc_ClientId msg) (\<lambda>(ord, msg). sc_ReqNo msg) (\<lambda>_. 0) (map sc_cmd ps)"
  shows "map_option configs (sc_applyAll ps (StartServer ev n i dsk)) = run_opt (\<lambda>(ord, msg). sc_do ord msg) done [Config0] \<and>
    distinct (map (\<lambda>(ord, msg). (sc_ClientId msg, sc_ReqNo msg)) done) \<and>
    sorted_wrt (\<lambda>(_, a) (_, b). sc_ClientId a = sc_ClientId b \<longrightarrow> sc_ReqNo a < sc_ReqNo b) done"
proof (intro conjI)
  have "map_option configs (sc_applyAll ps (StartServer ev n i dsk)) =
      map_option fst (map_option sc_view (sc_applyAll ps (StartServer ev n i dsk)))"
    by (simp add: option.map_comp comp_def sc_view_def)
  also have "\<dots> = run_opt (\<lambda>(ord, msg). sc_do ord msg) done [Config0]"
    using sc_exec_do [of "map sc_cmd ps" "[Config0]" Map.empty]
    by (simp add: sc_applyAll_view [OF assms(1)] sc_view_StartServer done_def mget_empty)
  finally show "map_option configs (sc_applyAll ps (StartServer ev n i dsk)) = run_opt (\<lambda>(ord, msg). sc_do ord msg) done [Config0]" .
  show "distinct (map (\<lambda>(ord, msg). (sc_ClientId msg, sc_ReqNo msg)) done)"
    using fresh_ops_distinct [of "\<lambda>(ord, msg). sc_ClientId msg" "\<lambda>(ord, msg). sc_ReqNo msg"]
    unfolding done_def by (simp add: case_prod_unfold)
  show "sorted_wrt (\<lambda>(_, a) (_, b). sc_ClientId a = sc_ClientId b \<longrightarrow> sc_ReqNo a < sc_ReqNo b) done"
    using fresh_ops_increasing [of "\<lambda>(ord, msg). sc_ClientId msg" "\<lambda>(ord, msg). sc_ReqNo msg"]
    unfolding done_def by (simp add: case_prod_unfold)
qed

text \<open>A client that joins one group, asks again (a duplicate) and queries.\<close>

definition sc_demo_ord :: orders where
  "sc_demo_ord = \<lparr>ord_copy = [], ord_join = [1], ord_count = [], ord_origin = [0], ord_newcome = [1], ord_assign = [1, 0]\<rparr>"

definition sc_demo_join :: sc_Op where
  "sc_demo_join = (sc_op JOIN 5 1)\<lparr>sc_JoinArgs := \<lparr>j_ClientId = 5, j_ReqNo = 1, Servers = [1 \<mapsto> [''a'', ''b'']]\<rparr>\<rparr>"

definition sc_demo_msg :: "int \<Rightarrow> sc_Op \<Rightarrow> (sc_Op, unit) ApplyMsg" where
  "sc_demo_msg i op = \<lparr>am_CommandValid = True, am_Command = Some op, am_CommandIndex = i, am_SnapshotValid = False,
     am_Snapshot = [], am_SnapshotTerm = 0, am_SnapshotIndex = 0\<rparr>"

definition sc_demo_log :: "sc_delivery list" where
  "sc_demo_log = [(sc_demo_ord, sc_demo_msg 1 sc_demo_join), (sc_demo_ord, sc_demo_msg 2 sc_demo_join)]"

lemma sc_demo_command: "\<forall>p \<in> set sc_demo_log. sc_command p"
  by (simp add: sc_demo_log_def sc_command_def sc_demo_msg_def)

theorem sc_exactly_once_witness:
  "map_option configs (sc_applyAll sc_demo_log (StartServer \<lparr>now = 0, rnd = 0\<rparr> 3 0 MakePersister)) =
   run_opt (\<lambda>(ord, msg). sc_do ord msg) [(sc_demo_ord, sc_demo_join)] [Config0]"
  using sc_exactly_once [OF sc_demo_command, of "\<lparr>now = 0, rnd = 0\<rparr>" 3 0 MakePersister, THEN conjunct1]
  by (simp add: sc_demo_log_def sc_cmd_def sc_demo_msg_def sc_demo_join_def sc_op_def)

section \<open>Agreement\<close>

fun sc_admissible :: "sc_delivery list \<Rightarrow> ShardCtrler \<Rightarrow> bool" where
  "sc_admissible [] sc \<longleftrightarrow> True"
| "sc_admissible ((ord, am) # ps) sc \<longleftrightarrow>
     (case am_Command am of None \<Rightarrow> True | Some msg \<Rightarrow> sc_orders ord msg (configs sc)) \<and>
     (case sc_applyLog ord am sc of None \<Rightarrow> True | Some (sc', _) \<Rightarrow> sc_admissible ps sc')"

lemma sc_exec_order: "sc_orders o1 msg (fst st) \<Longrightarrow> sc_orders o2 msg (fst st) \<Longrightarrow> sc_exec o1 msg st = sc_exec o2 msg st"
  by (cases st) (simp add: sc_exec_def sc_do_order [of o1 msg _ o2])

text \<open>
  C11: replicas agree. Two controllers in the same state that receive the same messages, each visiting its
  maps in whatever orders Go picks, hold the same configurations and completed requests at the end,
  or both panic.
\<close>

theorem sc_replicas_agree:
  assumes "map snd ps = map snd qs" "sc_admissible ps a" "sc_admissible qs b" "sc_view a = sc_view b"
  shows "map_option sc_view (sc_applyAll ps a) = map_option sc_view (sc_applyAll qs b)"
  using assms
proof (induction ps arbitrary: qs a b)
  case (Cons p ps)
  obtain o1 am where p: "p = (o1, am)" by (cases p)
  with Cons.prems(1) obtain o2 qs' where qs: "qs = (o2, am) # qs'" "map snd ps = map snd qs'"
    by (cases qs) auto
  have "map_option (sc_view \<circ> fst) (sc_applyLog o1 am a) = map_option (sc_view \<circ> fst) (sc_applyLog o2 am b)"
  proof (cases "am_CommandValid am")
    case True
    show ?thesis
    proof (cases "am_Command am")
      case (Some msg)
      have "sc_exec o1 msg (sc_view a) = sc_exec o2 msg (sc_view a)"
        using Cons.prems(2-4) p qs(1) Some by (intro sc_exec_order) (auto simp: sc_view_def)
      then show ?thesis using Cons.prems(4) by (simp add: sc_applyLog_view [OF True Some])
    qed (simp add: sc_applyLog_def True)
  qed (use Cons.prems(4) in \<open>simp add: sc_applyLog_def\<close>)
  then show ?case
    using Cons.IH [OF qs(2)] Cons.prems(2,3) p qs(1)
    by (cases "sc_applyLog o1 am a"; cases "sc_applyLog o2 am b") (auto simp: sc_applyAll_Cons)
qed (simp add: sc_applyAll_def)

text \<open>Two replicas that join the groups 1 and 2, one visiting its maps upwards and the other downwards.\<close>

definition sc_demo_join2 :: sc_Op where
  "sc_demo_join2 = (sc_op JOIN 5 1)\<lparr>sc_JoinArgs := \<lparr>j_ClientId = 5, j_ReqNo = 1, Servers = [1 \<mapsto> [''a''], 2 \<mapsto> [''b'']]\<rparr>\<rparr>"

definition sc_demo_ords :: "int list \<Rightarrow> int list \<Rightarrow> orders" where
  "sc_demo_ords gs all = \<lparr>ord_copy = [], ord_join = gs, ord_count = [], ord_origin = [0], ord_newcome = gs, ord_assign = all\<rparr>"

lemma sc_demo_groups: "Groups (joinedConfig (sc_JoinArgs sc_demo_join2) Config0 1) = [1 \<mapsto> [''a''], 2 \<mapsto> [''b'']]"
  by (simp add: joinedConfig_def sc_demo_join2_def Config0_def fun_eq_iff)

lemma sc_demo_rebalance:
  "rebalance_orders (sc_demo_ords [1, 2] [0, 1]) (joinedConfig (sc_JoinArgs sc_demo_join2) Config0 1)"
  "rebalance_orders (sc_demo_ords [2, 1] [1, 0]) (joinedConfig (sc_JoinArgs sc_demo_join2) Config0 1)"
  subgoal
    by (rule rebalance_orders_check) (auto simp: sc_demo_groups range_order_def sc_demo_ords_def; fail | code_simp)+
  subgoal
    by (rule rebalance_orders_check) (auto simp: sc_demo_groups range_order_def sc_demo_ords_def; fail | code_simp)+
  done

lemma sc_demo_orders:
  "sc_orders (sc_demo_ords [1, 2] [0, 1]) sc_demo_join2 [Config0]"
  "sc_orders (sc_demo_ords [2, 1] [1, 0]) sc_demo_join2 [Config0]"
  using sc_demo_rebalance
  by (auto simp: sc_orders_def lastConfig_eq sc_demo_join2_def sc_op_def sc_demo_ords_def range_order_def Config0_def)

theorem sc_replicas_agree_witness:
  "map_option sc_view (sc_applyAll [(sc_demo_ords [1, 2] [0, 1], sc_demo_msg 1 sc_demo_join2)] (StartServer \<lparr>now = 0, rnd = 0\<rparr> 3 0 MakePersister)) =
   map_option sc_view (sc_applyAll [(sc_demo_ords [2, 1] [1, 0], sc_demo_msg 1 sc_demo_join2)] (StartServer \<lparr>now = 7, rnd = 4\<rparr> 3 2 MakePersister))"
  by (rule sc_replicas_agree)
    (use sc_demo_orders in \<open>auto simp: sc_view_def sc_demo_msg_def StartServer_def split: option.split\<close>)

section \<open>The first assignment\<close>

lemma fold_set_all:
  assumes "\<forall>i. f i = Some (g i)"
  shows "k \<le> length xs \<Longrightarrow>
    fold (\<lambda>i shards. do { shards \<leftarrow> shards; gid \<leftarrow> f i; go_set shards i gid }) [0..int k - 1] (Some xs) =
    Some (map g [0..int k - 1] @ drop k xs)"
proof (induction k)
  case (Suc k)
  have up: "[0..int (Suc k) - 1] = [0..int k - 1] @ [int k]" using upto_rec2 [of 0 "int k"] by simp
  have "go_set (map g [0..int k - 1] @ drop k xs) (int k) (g (int k)) = Some (map g [0..int k - 1] @ g (int k) # drop (Suc k) xs)"
    using Suc.prems by (simp add: go_set_def in_range_def len_def list_update_append Cons_nth_drop_Suc [symmetric])
  then show ?case using Suc assms unfolding up by simp
qed simp

definition initShards :: "(int \<rightharpoonup> string list) \<Rightarrow> int list" where
  "initShards srvs = (let gids = sorted_list_of_set (dom srvs) in map (\<lambda>i. gids ! nat (i mod len gids)) [0..NShards - 1])"

lemma initConfifg_ok:
  assumes ord: "range_order srvs ord" and ne: "srvs \<noteq> Map.empty" and len: "len (Shards cfg) = NShards"
  shows "initConfifg ord srvs cfg = Some (cfg\<lparr>Groups := srvs, Shards := initShards srvs\<rparr>)"
proof -
  let ?gids = "sorted_list_of_set (dom srvs)"
  have fin: "finite (dom srvs)" using ord by (metis List.finite_set range_order_def)
  then have pos: "0 < len ?gids" using ne by (simp add: len_def card_gt_0_iff)
  then have "\<forall>i. (if len ?gids = 0 then None else go_nth ?gids (i mod len ?gids)) = Some (?gids ! nat (i mod len ?gids))"
    by (simp add: go_nth_def in_range_def)
  note all = fold_set_all [OF this, of 10 "Shards cfg"]
  have ten: "int 10 = NShards" "drop 10 (Shards cfg) = []" "10 \<le> length (Shards cfg)"
    using len by (simp_all add: NShards_def len_def)
  show ?thesis
    using all [OF ten(3)] unfolding initConfifg_eq [OF ord] Let_def initShards_def ten append_Nil2 by simp
qed

lemma initConfifg_empty: "initConfifg [] Map.empty cfg = None"
proof -
  have "fold (\<lambda>i shards. None) is None = (None :: int list option)" for "is" :: "int list"
    by (induction "is") simp_all
  moreover have "[0..NShards - 1] = 0 # [1..NShards - 1]" by (simp add: NShards_def upto_rec1)
  ultimately show ?thesis by (simp add: initConfifg_def)
qed

lemma residues_even:
  "list_all (\<lambda>n. list_all (\<lambda>a. length (filter (\<lambda>i. i mod n = a) [0..9]) \<in> {nat (10 div n), Suc (nat (10 div n))}) [0..n - 1]) [1..9 :: int]"
  by code_simp

lemma residues_even_all:
  assumes "0 < n" "0 \<le> a" "a < n" "0 \<le> b" "b < n"
  shows "length (filter (\<lambda>i. i mod n = a) [0..9]) \<le> Suc (length (filter (\<lambda>i. i mod n = b) [0..9 :: int]))"
proof (cases "n \<le> 9")
  case True
  have "length (filter (\<lambda>i. i mod n = x) [0..9]) \<in> {nat (10 div n), Suc (nat (10 div n))}" if "0 \<le> x" "x < n" for x
    using residues_even True assms(1) that by (simp only: list_all_iff set_upto Ball_def atLeastAtMost_iff) simp
  from this [OF assms(2,3)] this [OF assms(4,5)] show ?thesis by auto
next
  case False
  let ?xs = "filter (\<lambda>i. i mod n = a) [0..9]"
  have "length ?xs = card (set ?xs)" by (simp only: distinct_card distinct_filter distinct_upto)
  also have "\<dots> \<le> card {a}" using False by (intro card_mono) auto
  finally show ?thesis by simp
qed

lemma count_initShards:
  assumes "finite (dom srvs)" "g \<in> dom srvs"
  shows "\<exists>a. 0 \<le> a \<and> a < int (card (dom srvs)) \<and>
    count_list (initShards srvs) g = length (filter (\<lambda>i. i mod int (card (dom srvs)) = a) [0..9])"
proof -
  let ?gids = "sorted_list_of_set (dom srvs)" and ?n = "int (card (dom srvs))"
  from assms have "g \<in> set ?gids" by simp
  then obtain k where k: "k < card (dom srvs)" "?gids ! k = g" by (auto simp: in_set_conv_nth)
  have "?gids ! nat (i mod ?n) = g \<longleftrightarrow> i mod ?n = int k" if "0 \<le> i" for i
  proof -
    have "nat (i mod ?n) < length ?gids" using k(1) by (simp add: nat_less_iff)
    then have "?gids ! nat (i mod ?n) = ?gids ! k \<longleftrightarrow> nat (i mod ?n) = k"
      using nth_eq_iff_index_eq [OF distinct_sorted_list_of_set] k(1) by simp
    moreover have "0 \<le> i mod ?n" using k(1) by simp
    ultimately show ?thesis using k(2) by auto
  qed
  then have "filter (\<lambda>i. ?gids ! nat (i mod ?n) = g) [0..9] = filter (\<lambda>i. i mod ?n = int k) [0..9]"
    by (intro filter_cong) auto
  moreover have "count_list (map f xs) g = length (filter (\<lambda>x. f x = g) xs)" for f :: "int \<Rightarrow> int" and xs
    by (induction xs) auto
  ultimately show ?thesis using k(1)
    by (intro exI [of _ "int k"]) (simp add: initShards_def Let_def len_def NShards_def)
qed

lemma initShards_even:
  assumes fin: "finite (dom srvs)" and "g \<in> dom srvs" "h \<in> dom srvs"
  shows "count_list (initShards srvs) g \<le> Suc (count_list (initShards srvs) h)"
proof -
  obtain a b where "0 \<le> a" "a < int (card (dom srvs))" "0 \<le> b" "b < int (card (dom srvs))"
    "count_list (initShards srvs) g = length (filter (\<lambda>i. i mod int (card (dom srvs)) = a) [0..9])"
    "count_list (initShards srvs) h = length (filter (\<lambda>i. i mod int (card (dom srvs)) = b) [0..9])"
    using count_initShards [OF fin assms(2)] count_initShards [OF fin assms(3)] by blast
  then show ?thesis using residues_even_all [of "int (card (dom srvs))" a b] by simp
qed

lemma initShards_groups:
  assumes "finite (dom srvs)" "srvs \<noteq> Map.empty"
  shows "set (initShards srvs) \<subseteq> dom srvs"
proof -
  let ?gids = "sorted_list_of_set (dom srvs)"
  have "0 < card (dom srvs)" using assms by (simp add: card_gt_0_iff)
  then have "?gids ! nat (i mod len ?gids) \<in> dom srvs" for i
    using nth_mem [of "nat (i mod len ?gids)" ?gids] assms(1) by (simp add: len_def nat_less_iff)
  then show ?thesis by (auto simp: initShards_def Let_def)
qed

text \<open>
  C33: the first groups. A Join while shard 0 is unassigned makes the joining groups the groups of the
  configuration, gives every shard to one of them, and gives any two of them numbers of shards that differ by at most one.
\<close>

theorem first_Join_even:
  assumes "history_ok cfgs" "range_order (Groups (last cfgs)) (ord_copy ord)" "range_order (Servers args) (ord_join ord)"
    and "Shards (last cfgs) ! 0 = 0" "Servers args \<noteq> Map.empty"
  shows "\<exists>c. doJoin ord args cfgs = Some (cfgs @ [c]) \<and> Num c = len cfgs \<and> Groups c = Servers args \<and>
    len (Shards c) = NShards \<and> set (Shards c) \<subseteq> dom (Servers args) \<and>
    (\<forall>g h. g \<in> dom (Servers args) \<and> h \<in> dom (Servers args) \<longrightarrow> count_list (Shards c) g \<le> Suc (count_list (Shards c) h))"
proof -
  let ?c = "(last cfgs)\<lparr>Num := len cfgs, Groups := Servers args, Shards := initShards (Servers args)\<rparr>"
  have last: "lastConfig cfgs = Some (last cfgs)" using assms(1) by (simp add: lastConfig_eq history_ok_def)
  have len: "len (Shards (last cfgs)) = NShards" using assms(1) by (rule history_ok_last)
  then have "go_nth (Shards (last cfgs)) 0 = Some 0" using assms(4) by (simp add: go_nth_def in_range_def NShards_def)
  then have "doJoin ord args cfgs = Some (cfgs @ [?c])"
    using initConfifg_ok [OF assms(3,5), of "(last cfgs)\<lparr>Num := len cfgs\<rparr>"] len
    by (simp add: doJoin_eq [OF last assms(2,3)])
  moreover have "finite (dom (Servers args))" using assms(3) by (metis List.finite_set range_order_def)
  moreover have "len (initShards (Servers args)) = NShards" by (simp add: initShards_def Let_def len_def NShards_def)
  ultimately show ?thesis
    using initShards_groups assms(5) initShards_even by (intro exI [of _ ?c]) auto
qed

theorem first_Join_even_witness:
  "\<exists>c. doJoin (sc_demo_ords [2, 1] [1, 0]) (sc_JoinArgs sc_demo_join2) [Config0] = Some [Config0, c] \<and> count_list (Shards c) 2 \<le> Suc (count_list (Shards c) 1)"
proof -
  have dom: "dom (Servers (sc_JoinArgs sc_demo_join2)) = {1, 2}" by (auto simp: sc_demo_join2_def)
  have "Servers (sc_JoinArgs sc_demo_join2) \<noteq> Map.empty" using dom by auto
  from first_Join_even [OF _ _ _ _ this, of "[Config0]" "sc_demo_ords [2, 1] [1, 0]"] show ?thesis
    unfolding dom by (fastforce simp: history_ok_def Config0_def NShards_def len_def sc_demo_ords_def range_order_def dom)
qed

section \<open>When a command panics\<close>

text \<open>
  C34: panics. Applied to a history of configurations, a command panics exactly when it is a Join without
  servers while shard 0 is unassigned (a division by zero) or a Move of a shard outside the array.
\<close>

theorem sc_do_panics_iff:
  assumes "sc_orders ord msg cfgs" "history_ok cfgs"
  shows "sc_do ord msg cfgs = None \<longleftrightarrow>
    sc_ReqType msg = JOIN \<and> Shards (last cfgs) ! 0 = 0 \<and> Servers (sc_JoinArgs msg) = Map.empty \<or>
    sc_ReqType msg = MOVE \<and> \<not> (0 \<le> Shard (sc_MoveArgs msg) \<and> Shard (sc_MoveArgs msg) < NShards)"
proof -
  have last: "lastConfig cfgs = Some (last cfgs)" using assms(2) by (simp add: lastConfig_eq history_ok_def)
  have len: "len (Shards (last cfgs)) = NShards" using assms(2) by (rule history_ok_last)
  then have nth: "go_nth (Shards (last cfgs)) 0 = Some (Shards (last cfgs) ! 0)" by (simp add: go_nth_def in_range_def NShards_def)
  have reb: "\<exists>c. rebalanceConfig ord cfg = Some c" if "rebalance_orders ord cfg" for cfg
    using rebalanceConfig_ok [OF that] that
    by (cases "Groups cfg = Map.empty") (auto simp: rebalanceConfig_eq rebalance_orders_def range_order_def)
  show ?thesis
  proof (cases "sc_ReqType msg")
    case JOIN
    with assms(1) last have o: "range_order (Groups (last cfgs)) (ord_copy ord)" "range_order (Servers (sc_JoinArgs msg)) (ord_join ord)"
      "rebalance_orders ord (joinedConfig (sc_JoinArgs msg) (last cfgs) (len cfgs))"
      by (simp_all add: sc_orders_def)
    have "initConfifg (ord_join ord) (Servers (sc_JoinArgs msg)) cfg = None \<longleftrightarrow> Servers (sc_JoinArgs msg) = Map.empty"
      if "len (Shards cfg) = NShards" for cfg
      using o(2) initConfifg_ok [OF o(2) _ that] initConfifg_empty [of cfg]
      by (cases "Servers (sc_JoinArgs msg) = Map.empty") (auto simp: range_order_def)
    with JOIN o reb [OF o(3)] nth len show ?thesis by (auto simp: sc_do_def doJoin_eq [OF last o(1,2)] Option.bind_eq_None_conv)
  next
    case LEAVE
    with assms(1) last have o: "range_order (Groups (last cfgs)) (ord_copy ord)"
      "rebalance_orders ord (leftConfig (ord_count ord) (sc_LeaveArgs msg) (last cfgs) (len cfgs))"
      by (simp_all add: sc_orders_def)
    with LEAVE reb [OF o(2)] show ?thesis by (auto simp: sc_do_def doLeave_eq [OF last o(1)])
  qed (use last len in \<open>auto simp: sc_do_def doMove_def doQuery_def Let_def go_set_def in_range_def\<close>)
qed

theorem sc_do_panics_iff_witness:
  "sc_do (sc_demo_ords [2, 1] [1, 0]) sc_demo_join2 [Config0] \<noteq> None"
  using sc_do_panics_iff [OF sc_demo_orders(2)]
  by (auto simp: history_ok_def Config0_def NShards_def len_def sc_demo_join2_def sc_op_def fun_eq_iff)

section \<open>Queries\<close>

lemma sc_exec_history:
  assumes "sc_exec ord msg st = Some st'" "history_ok (fst st)"
  shows "history_ok (fst st') \<and> (\<exists>cs. fst st' = fst st @ cs)"
  using assms sc_do_history [of ord msg "fst st"]
  by (cases st) (fastforce simp: sc_exec_def Option.bind_eq_Some_conv split: if_splits)

lemma sc_applyAll_history:
  "sc_applyAll ps sc = Some sc' \<Longrightarrow> history_ok (configs sc) \<Longrightarrow>
   history_ok (configs sc') \<and> (\<exists>cs. configs sc' = configs sc @ cs)"
proof (induction ps arbitrary: sc)
  case (Cons p ps)
  obtain ord am where p: "p = (ord, am)" by (cases p)
  from Cons.prems(1) obtain s1 c where s1: "sc_applyLog ord am sc = Some (s1, c)" "sc_applyAll ps s1 = Some sc'"
    by (auto simp: p sc_applyAll_Cons split: option.splits)
  have "history_ok (configs s1) \<and> (\<exists>cs. configs s1 = configs sc @ cs)"
  proof (cases "am_CommandValid am")
    case True
    with s1(1) obtain msg where msg: "am_Command am = Some msg" by (auto simp: sc_applyLog_def Option.bind_eq_Some_conv)
    have "sc_exec ord msg (sc_view sc) = Some (sc_view s1)"
      using sc_applyLog_view [OF True msg, of ord sc] s1(1) by simp
    from sc_exec_history [OF this] Cons.prems(2) show ?thesis by (simp add: sc_view_def)
  qed (use s1(1) Cons.prems(2) in \<open>simp add: sc_applyLog_def\<close>)
  with Cons.IH [OF s1(2)] show ?case by auto
qed (simp add: sc_applyAll_def)

lemma pickConfig_ok:
  assumes "history_ok cfgs"
  shows "pickConfig num cfgs = None \<longleftrightarrow> num < -1"
    "pickConfig num cfgs = Some c \<Longrightarrow> Num c = (if num = -1 \<or> len cfgs \<le> num then len cfgs - 1 else num)"
proof -
  have ne: "cfgs \<noteq> []" using assms by (simp add: history_ok_def)
  have num: "Num (cfgs ! nat k) = k" if "0 \<le> k" "k < len cfgs" for k
    using assms that by (simp add: history_ok_def len_def nat_less_iff)
  have "Num (last cfgs) = len cfgs - 1"
    using num [of "len cfgs - 1"] ne by (simp add: last_conv_nth len_def nat_diff_distrib Suc_leI)
  moreover have pos: "\<not> (len cfgs \<le> num \<and> num < -1)" using len_nonneg [of cfgs] by linarith
  ultimately show "pickConfig num cfgs = None \<longleftrightarrow> num < -1"
    "pickConfig num cfgs = Some c \<Longrightarrow> Num c = (if num = -1 \<or> len cfgs \<le> num then len cfgs - 1 else num)"
    using ne num [of num] pos by (auto simp: pickConfig_def lastConfig_eq go_nth_def in_range_def split: if_splits)
qed

text \<open>
  C14: Query. On a controller that has applied any messages since its start, whatever its Raft peer \<open>rf\<close> has
  done in the meantime, a Query whose command is committed answers with the configuration of the
  number asked for, with the newest one if the number is -1 or too large, and panics exactly if the
  number is below -1; and the numbers name the configurations for good: messages applied later do
  not change what a number refers to.
\<close>

theorem Query_answers:
  assumes run: "sc_applyAll ps (StartServer ev n i dsk) = Some sc"
    and later: "sc_applyAll qs sc = Some sc'"
    and compl: "sc_wake startTerm (q_ClientId args) (q_ReqNo args) (sc\<lparr>sc_rf := rf\<rparr>) = Some False"
  shows "if q_Num args < -1 then Query_wake startTerm args (sc\<lparr>sc_rf := rf\<rparr>) = None
    else \<exists>c. Query_wake startTerm args (sc\<lparr>sc_rf := rf\<rparr>) = Some (Some \<lparr>qr_WrongLeader = False, qr_Err = [], qr_Config = c\<rparr>) \<and>
      Num c = (if q_Num args = -1 \<or> len (configs sc) \<le> q_Num args then len (configs sc) - 1 else q_Num args) \<and>
      pickConfig (Num c) (configs sc') = Some c"
proof -
  have hist: "history_ok (configs sc)" "\<exists>cs. configs sc' = configs sc @ cs"
    using sc_applyAll_history [OF run] sc_applyAll_history [OF later]
    by (auto simp: StartServer_def history_ok_def Config0_def NShards_def len_def)
  have wake: "Query_wake startTerm args (sc\<lparr>sc_rf := rf\<rparr>) =
      map_option (\<lambda>c. Some \<lparr>qr_WrongLeader = False, qr_Err = [], qr_Config = c\<rparr>) (pickConfig (q_Num args) (configs sc))"
    using compl by (cases "pickConfig (q_Num args) (configs sc)") (simp_all add: Query_wake_def QueryReply0_def)
  show ?thesis
  proof (cases "pickConfig (q_Num args) (configs sc)")
    case None
    then show ?thesis using wake pickConfig_ok(1) [OF hist(1)] by simp
  next
    case (Some c)
    have num: "Num c = (if q_Num args = -1 \<or> len (configs sc) \<le> q_Num args then len (configs sc) - 1 else q_Num args)"
      by (rule pickConfig_ok(2) [OF hist(1) Some])
    have "c = configs sc ! nat (Num c)" "0 \<le> Num c" "Num c < len (configs sc)"
      using Some num hist(1)
      by (auto simp: pickConfig_def lastConfig_eq go_nth_def in_range_def history_ok_def last_conv_nth len_def
          nat_diff_distrib Suc_leI split: if_splits)
    then have "pickConfig (Num c) (configs sc') = Some c"
      using hist(2) by (auto simp: pickConfig_def go_nth_def in_range_def nth_append len_def nat_less_iff)
    with wake num Some pickConfig_ok(1) [OF hist(1), of "q_Num args"] show ?thesis by auto
  qed
qed

definition sc_demo_leader :: "(sc_Op, unit) Raft" where
  "sc_demo_leader = (Make \<lparr>now = 0, rnd = 0\<rparr> 3 0 MakePersister)\<lparr>State := Leader, CurrentTerm := 1\<rparr>"

definition sc_demo_query :: sc_Op where
  "sc_demo_query = (sc_op QUERY 5 2)\<lparr>sc_QueryArgs := \<lparr>q_ClientId = 5, q_ReqNo = 2, q_Num = 1\<rparr>\<rparr>"

theorem Query_answers_witness:
  "\<exists>sc c. sc_applyAll [(sc_demo_ord, sc_demo_msg 1 sc_demo_join), (sc_demo_ord, sc_demo_msg 2 sc_demo_query)]
       (StartServer \<lparr>now = 0, rnd = 0\<rparr> 3 0 MakePersister) = Some sc \<and>
     Query_wake 1 (sc_QueryArgs sc_demo_query) (sc\<lparr>sc_rf := sc_demo_leader\<rparr>) =
       Some (Some \<lparr>qr_WrongLeader = False, qr_Err = [], qr_Config = c\<rparr>) \<and> Num c = 1"
proof -
  let ?run = "sc_applyAll [(sc_demo_ord, sc_demo_msg 1 sc_demo_join), (sc_demo_ord, sc_demo_msg 2 sc_demo_query)]
    (StartServer \<lparr>now = 0, rnd = 0\<rparr> 3 0 MakePersister)"
  have "?run \<noteq> None" by code_simp
  then obtain sc where sc: "?run = Some sc" by blast
  have "sc_wake 1 5 2 ((the ?run)\<lparr>sc_rf := sc_demo_leader\<rparr>) = Some False" "len (configs (the ?run)) = 2" by code_simp+
  with sc Query_answers [OF sc, of "[]" sc 1 "sc_QueryArgs sc_demo_query" sc_demo_leader] show ?thesis
    by (auto simp: sc_demo_query_def sc_op_def sc_applyAll_def)
qed

section \<open>Every shard has a group\<close>

definition assigned :: "Config \<Rightarrow> bool" where
  "assigned cfg \<longleftrightarrow> set (Shards cfg) \<subseteq> dom (Groups cfg) \<and> 0 \<notin> dom (Groups cfg)"

definition fair :: "Config \<Rightarrow> int list \<Rightarrow> bool" where
  "fair cfg old \<longleftrightarrow> balances (max 1 (10 div int (card (dom (Groups cfg))))) (dom (Groups cfg)) old (Shards cfg)"

lemma rebalanceConfig_assigned:
  assumes "rebalance_orders ord cfg" "assigned cfg" "Shards cfg \<noteq> []"
  shows "\<exists>c. rebalanceConfig ord cfg = Some c \<and> assigned c \<and> Groups c = Groups cfg \<and> finite (dom (Groups c)) \<and> fair c (Shards cfg)"
proof -
  have "Groups cfg \<noteq> Map.empty" using assms(2,3) by (auto simp: assigned_def)
  from rebalanceConfig_balances_ex [OF assms(1) this] obtain new where
    new: "rebalanceConfig ord cfg = Some (cfg\<lparr>Shards := new\<rparr>)"
    "balances (max 1 (10 div int (card (dom (Groups cfg))))) (dom (Groups cfg)) (Shards cfg) new"
    using assms(2) by (auto simp: assigned_def Un_absorb2)
  have "set new \<subseteq> dom (Groups cfg)"
  proof
    fix g
    assume "g \<in> set new"
    then obtain k where k: "k < length (Shards cfg)" "new ! k = g" using new(2) by (auto simp: balances_def in_set_conv_nth)
    then show "g \<in> dom (Groups cfg)" using new(2) assms(2) nth_mem [OF k(1)]
      by (cases "new ! k = Shards cfg ! k") (auto simp: balances_def assigned_def)
  qed
  moreover have "finite (dom (Groups cfg))"
    using assms(1) by (metis List.finite_set range_order_def rebalance_orders_def)
  ultimately show ?thesis using new assms(2) by (auto simp: assigned_def fair_def)
qed

lemma assigned_joined:
  "assigned cfg \<Longrightarrow> 0 \<notin> dom (Servers args) \<Longrightarrow> assigned (joinedConfig args cfg n)"
  by (auto simp: assigned_def joinedConfig_def split: option.splits)

lemma assigned_left:
  assumes "assigned cfg" "range_order (shardNum (deletedGids (GIDs args)) (Shards cfg)) ord"
    and "g \<in> set (Shards cfg)" "g \<notin> set (GIDs args)"
  shows "assigned (leftConfig ord args cfg n)"
proof -
  let ?t = "pickGid ord (shardNum (deletedGids (GIDs args)) (Shards cfg))"
  have "?t \<in> set (Shards cfg)" "?t \<notin> set (GIDs args)"
    using pickGid_stays [OF assms(2,3)] assms(4) by (simp_all add: mget_deletedGids)
  with assms(1) show ?thesis
    by (auto simp: assigned_def leftConfig_def Let_def fold_delete deletedGids_eq split: if_splits)
qed

text \<open>The configuration that a Join, or a Leave after which an owner of shards remains, appends.\<close>

lemma Join_Leave_fair:
  assumes "sc_orders ord msg cfgs" "history_ok cfgs" "assigned (last cfgs)"
    and "sc_ReqType msg = JOIN \<and> 0 \<notin> dom (Servers (sc_JoinArgs msg)) \<or>
      sc_ReqType msg = LEAVE \<and> (\<exists>g \<in> set (Shards (last cfgs)). g \<notin> set (GIDs (sc_LeaveArgs msg)))"
  shows "\<exists>c old. sc_do ord msg cfgs = Some (cfgs @ [c]) \<and> assigned c \<and> finite (dom (Groups c)) \<and> fair c old \<and> length old = 10 \<and>
    (if sc_ReqType msg = JOIN then dom (Groups c) = dom (Groups (last cfgs)) \<union> dom (Servers (sc_JoinArgs msg)) \<and> old = Shards (last cfgs)
     else dom (Groups c) = dom (Groups (last cfgs)) - set (GIDs (sc_LeaveArgs msg)))"
proof -
  have last: "lastConfig cfgs = Some (last cfgs)" using assms(2) by (simp add: lastConfig_eq history_ok_def)
  have "len (Shards (last cfgs)) = NShards" using assms(2) by (rule history_ok_last)
  then have ne: "Shards (last cfgs) \<noteq> []" and nth: "go_nth (Shards (last cfgs)) 0 = Some (Shards (last cfgs) ! 0)"
    by (auto simp: NShards_def go_nth_def in_range_def)
  have len: "length (Shards (last cfgs)) = 10" using history_ok_last [OF assms(2)] by (simp add: NShards_def len_def)
  from ne have "Shards (last cfgs) ! 0 \<in> set (Shards (last cfgs))" by simp
  then have n0: "Shards (last cfgs) ! 0 \<noteq> 0" using assms(3) unfolding assigned_def by (metis subsetD)
  from assms(4) show ?thesis
  proof (elim disjE conjE)
    assume JOIN: "sc_ReqType msg = JOIN" and "0 \<notin> dom (Servers (sc_JoinArgs msg))"
    with assms(1) last have o: "range_order (Groups (last cfgs)) (ord_copy ord)" "range_order (Servers (sc_JoinArgs msg)) (ord_join ord)"
      "rebalance_orders ord (joinedConfig (sc_JoinArgs msg) (last cfgs) (len cfgs))"
      by (simp_all add: sc_orders_def)
    obtain c where "rebalanceConfig ord (joinedConfig (sc_JoinArgs msg) (last cfgs) (len cfgs)) = Some c" "assigned c"
      "Groups c = Groups (joinedConfig (sc_JoinArgs msg) (last cfgs) (len cfgs))" "fair c (Shards (last cfgs))" "finite (dom (Groups c))"
      using rebalanceConfig_assigned [OF o(3) assigned_joined [OF assms(3)]] ne \<open>0 \<notin> dom (Servers (sc_JoinArgs msg))\<close>
      by (auto simp: joinedConfig_def)
    with JOIN nth n0 len show ?thesis
      by (auto simp: sc_do_def doJoin_eq [OF last o(1,2)] joinedConfig_def split: option.splits)
  next
    assume LEAVE: "sc_ReqType msg = LEAVE" and "\<exists>g \<in> set (Shards (last cfgs)). g \<notin> set (GIDs (sc_LeaveArgs msg))"
    then obtain g where g: "g \<in> set (Shards (last cfgs))" "g \<notin> set (GIDs (sc_LeaveArgs msg))" by blast
    from LEAVE assms(1) last have o: "range_order (Groups (last cfgs)) (ord_copy ord)"
      "range_order (shardNum (deletedGids (GIDs (sc_LeaveArgs msg))) (Shards (last cfgs))) (ord_count ord)"
      "rebalance_orders ord (leftConfig (ord_count ord) (sc_LeaveArgs msg) (last cfgs) (len cfgs))"
      by (simp_all add: sc_orders_def)
    obtain c where "rebalanceConfig ord (leftConfig (ord_count ord) (sc_LeaveArgs msg) (last cfgs) (len cfgs)) = Some c"
      "assigned c" "Groups c = Groups (leftConfig (ord_count ord) (sc_LeaveArgs msg) (last cfgs) (len cfgs))" "finite (dom (Groups c))"
      "fair c (Shards (leftConfig (ord_count ord) (sc_LeaveArgs msg) (last cfgs) (len cfgs)))"
      using rebalanceConfig_assigned [OF o(3) assigned_left [OF assms(3) o(2) g]] ne
      by (auto simp: leftConfig_def Let_def)
    with LEAVE len show ?thesis
      by (auto simp: sc_do_def doLeave_eq [OF last o(1)] leftConfig_def Let_def fold_delete split: if_splits)
  qed
qed

text \<open>
  C12: Join and Leave. If every shard is with a group of the newest configuration, then a Join of groups, or a
  Leave after which a group that owns shards remains, appends a configuration in which every shard is
  with one of its groups. A Join keeps the servers of the old groups, adds the new ones, and moves
  shards as the contract of rebalancing allows; a Leave removes exactly the groups named.
\<close>

theorem Join_Leave_assign:
  assumes "sc_orders ord msg cfgs" "history_ok cfgs" "assigned (last cfgs)"
    and "sc_ReqType msg = JOIN \<and> 0 \<notin> dom (Servers (sc_JoinArgs msg)) \<or>
      sc_ReqType msg = LEAVE \<and> (\<exists>g \<in> set (Shards (last cfgs)). g \<notin> set (GIDs (sc_LeaveArgs msg)))"
  shows "\<exists>c. sc_do ord msg cfgs = Some (cfgs @ [c]) \<and> assigned c \<and>
    (if sc_ReqType msg = JOIN then dom (Groups c) = dom (Groups (last cfgs)) \<union> dom (Servers (sc_JoinArgs msg)) \<and> fair c (Shards (last cfgs))
     else dom (Groups c) = dom (Groups (last cfgs)) - set (GIDs (sc_LeaveArgs msg)))"
  using Join_Leave_fair [OF assms] by (auto split: if_splits)

text \<open>Five groups with two shards each; the fifth leaves.\<close>

definition five :: Config where
  "five = \<lparr>Num = 1, Shards = [1, 2, 3, 4, 5, 1, 2, 3, 4, 5], Groups = [1 \<mapsto> [''a''], 2 \<mapsto> [''b''], 3 \<mapsto> [''c''], 4 \<mapsto> [''d''], 5 \<mapsto> [''e'']]\<rparr>"

definition leave_msg :: "int list \<Rightarrow> sc_Op" where
  "leave_msg gids = (sc_op LEAVE 5 2)\<lparr>sc_LeaveArgs := \<lparr>l_ClientId = 5, l_ReqNo = 2, GIDs = gids\<rparr>\<rparr>"

definition five_ord :: orders where
  "five_ord = \<lparr>ord_copy = [5, 1, 2, 3, 4], ord_join = [], ord_count = [2, 1, 3, 4], ord_origin = [1, 2, 3, 4],
     ord_newcome = [4, 3, 2, 1], ord_assign = [1, 2, 3, 4]\<rparr>"

lemma five_dom: "dom (Groups five) = {1, 2, 3, 4, 5}"
  by (auto simp: five_def)

lemma five_count: "shardNum (deletedGids [5]) (Shards five) = [1 \<mapsto> 2, 2 \<mapsto> 2, 3 \<mapsto> 2, 4 \<mapsto> 2]"
  by (auto simp: shardNum_def five_def deletedGids_def fun_eq_iff)

lemma five_orders: "sc_orders five_ord (leave_msg [5]) [Config0, five]"
proof -
  let ?left = "leftConfig (ord_count five_ord) (sc_LeaveArgs (leave_msg [5])) five 2"
  have "dom (Groups ?left) = {1, 2, 3, 4}"
    using five_dom by (auto simp: leftConfig_def leave_msg_def Let_def fold_delete split: if_splits)
  then have o: "range_order (Groups ?left) (ord_newcome five_ord)" unfolding range_order_def by (auto simp: five_ord_def)
  have "rebalance_orders five_ord ?left" by (rule rebalance_orders_check [OF o]; code_simp)
  moreover have "range_order (Groups five) (ord_copy five_ord)"
    by (simp add: range_order_def five_dom five_ord_def insert_commute)
  moreover have "range_order (shardNum (deletedGids [5]) (Shards five)) (ord_count five_ord)"
    unfolding five_count by (auto simp: range_order_def five_ord_def)
  ultimately show ?thesis by (simp add: sc_orders_def lastConfig_eq leave_msg_def sc_op_def)
qed

lemma five_ok: "history_ok [Config0, five]" "assigned five"
  using five_dom by (auto simp: history_ok_def Config0_def five_def NShards_def len_def less_Suc_eq assigned_def)

theorem Join_Leave_assign_witness:
  "\<exists>c. sc_do five_ord (leave_msg [5]) [Config0, five] = Some [Config0, five, c] \<and> assigned c \<and> dom (Groups c) = {1, 2, 3, 4}"
proof -
  have ty: "sc_ReqType (leave_msg [5]) = LEAVE" "GIDs (sc_LeaveArgs (leave_msg [5])) = [5]"
    by (simp_all add: leave_msg_def sc_op_def)
  have "\<exists>g \<in> set (Shards (last [Config0, five])). g \<notin> set [5]" by (simp add: five_def)
  then obtain c where c: "sc_do five_ord (leave_msg [5]) [Config0, five] = Some ([Config0, five] @ [c])" "assigned c"
    "dom (Groups c) = dom (Groups five) - set [5]"
    using Join_Leave_assign [OF five_orders five_ok(1)] five_ok(2) unfolding ty by auto
  have "dom (Groups c) = {1, 2, 3, 4}" unfolding c(3) five_dom by auto
  with c(1,2) show ?thesis by (intro exI [of _ c]) simp
qed

section \<open>How evenly the shards are spread\<close>

lemma count_le_1:
  fixes c :: "'a \<Rightarrow> int"
  assumes "finite gs" "g \<in> gs" "\<And>h. h \<in> gs \<Longrightarrow> a \<le> c h"
  shows "c g \<le> (\<Sum>h \<in> gs. c h) - (int (card gs) - 1) * a"
proof -
  have "int (card gs) - 1 = int (card (gs - {g}))" using card_Suc_Diff1 [OF assms(1,2)] by linarith
  then have "(int (card gs) - 1) * a = (\<Sum>h \<in> gs - {g}. a)" by (simp only: sum_constant)
  also have "\<dots> \<le> (\<Sum>h \<in> gs - {g}. c h)" using assms(3) by (intro sum_mono) auto
  finally show ?thesis using sum.remove [OF assms(1,2), of c] by simp
qed

lemma balanced_bounds:
  fixes c :: "'a \<Rightarrow> int"
  assumes fin: "finite gs" and g: "g \<in> gs" and sum: "(\<Sum>h \<in> gs. c h) = 10" and k: "k = int (card gs)" and a: "a = max 1 (10 div k)"
    and pair: "\<forall>g \<in> gs. \<forall>h \<in> gs. \<not> (c g < a \<and> a < c h)"
  shows "if k \<le> 10 then 10 div k \<le> c g \<and> c g \<le> 10 div k + 10 mod k else c g \<le> 1"
proof -
  have k0: "0 < k" using fin g k by (auto simp: card_gt_0_iff)
  show ?thesis
  proof (cases "k \<le> 10")
    case True
    then have "1 \<le> 10 div k" using k0 by (simp add: pos_imp_zdiv_pos_iff int_one_le_iff_zero_less)
    with a have a: "a = 10 div k" by simp
    have split: "k * a + 10 mod k = 10" unfolding a by simp
    have ge: "a \<le> c h" if h: "h \<in> gs" for h
    proof (rule ccontr)
      assume "\<not> a \<le> c h"
      with pair h have "\<forall>h' \<in> gs. c h' \<le> a" "c h < a" by force+
      then have "(\<Sum>h \<in> gs. c h) < (\<Sum>h \<in> gs. a)" using fin h by (intro sum_strict_mono_ex1) auto
      also have "\<dots> = k * a" by (simp add: k)
      finally show False using split sum k0 pos_mod_sign [of k 10] by linarith
    qed
    have "c g \<le> 10 - (k - 1) * a" using count_le_1 [OF fin g, of a c] ge sum k by simp
    then have "c g \<le> 10 - k * a + a" by (simp add: algebra_simps)
    then have "c g \<le> a + 10 mod k" using split by linarith
    with ge [OF g] True show ?thesis unfolding a by simp
  next
    case False
    then have "10 div k = 0" by simp
    with a have a: "a = 1" by simp
    have "c g \<le> 1"
    proof (rule ccontr)
      assume "\<not> c g \<le> 1"
      with pair g a have "1 \<le> c h" if "h \<in> gs" for h using that by force
      then have "(\<Sum>h \<in> gs. 1) \<le> (\<Sum>h \<in> gs. c h)" by (intro sum_mono)
      with sum k False show False by simp
    qed
    with False show ?thesis by simp
  qed
qed

text \<open>
  C38: the spread of the shards. In the configuration that a Join, or a Leave after which an owner of shards
  remains, appends to a history whose newest configuration assigns every shard, let \<open>k\<close> be the number of groups. Up to ten
  groups, every group owns at least \<open>10 div k\<close> shards and at most \<open>10 mod k\<close> more than that; beyond
  ten, none owns more than one. (The tests of the controller ask for a spread of at most one: the rebalancing stops
  as soon as no group is below \<open>10 div k\<close>, and does not spread what is left over.)
\<close>

theorem Join_Leave_spread:
  assumes "sc_orders ord msg cfgs" "history_ok cfgs" "assigned (last cfgs)"
    and "sc_ReqType msg = JOIN \<and> 0 \<notin> dom (Servers (sc_JoinArgs msg)) \<or>
      sc_ReqType msg = LEAVE \<and> (\<exists>g \<in> set (Shards (last cfgs)). g \<notin> set (GIDs (sc_LeaveArgs msg)))"
  shows "\<exists>c. sc_do ord msg cfgs = Some (cfgs @ [c]) \<and>
    (let k = int (card (dom (Groups c))) in \<forall>g \<in> dom (Groups c).
       if k \<le> 10 then 10 div k \<le> int (count_list (Shards c) g) \<and> int (count_list (Shards c) g) \<le> 10 div k + 10 mod k
       else int (count_list (Shards c) g) \<le> 1)"
proof -
  obtain c old where run: "sc_do ord msg cfgs = Some (cfgs @ [c])" "assigned c" "finite (dom (Groups c))"
    and fair: "balances (max 1 (10 div int (card (dom (Groups c))))) (dom (Groups c)) old (Shards c)" "length old = 10"
    using Join_Leave_fair [OF assms] unfolding fair_def by blast
  have "(\<Sum>h \<in> dom (Groups c). count_list (Shards c) h) = length (Shards c)"
    using sum_count_set [OF _ run(3)] run(2) by (simp add: assigned_def)
  also have "\<dots> = 10" using fair by (simp add: balances_def)
  finally have sum: "(\<Sum>h \<in> dom (Groups c). int (count_list (Shards c) h)) = 10" by (simp flip: of_nat_sum)
  have pair: "\<forall>g \<in> dom (Groups c). \<forall>h \<in> dom (Groups c).
      \<not> (int (count_list (Shards c) g) < max 1 (10 div int (card (dom (Groups c)))) \<and>
         max 1 (10 div int (card (dom (Groups c)))) < int (count_list (Shards c) h))"
    using fair(1) unfolding balances_def by blast
  have "if int (card (dom (Groups c))) \<le> 10
      then 10 div int (card (dom (Groups c))) \<le> int (count_list (Shards c) g) \<and>
        int (count_list (Shards c) g) \<le> 10 div int (card (dom (Groups c))) + 10 mod int (card (dom (Groups c)))
      else int (count_list (Shards c) g) \<le> 1" if "g \<in> dom (Groups c)" for g
    using balanced_bounds [OF run(3) that sum refl refl pair] .
  with run(1) show ?thesis unfolding Let_def by blast
qed

theorem Join_Leave_spread_witness:
  "\<exists>c. sc_do five_ord (leave_msg [5]) [Config0, five] = Some [Config0, five, c] \<and> dom (Groups c) = {1, 2, 3, 4} \<and>
     2 \<le> count_list (Shards c) 1 \<and> count_list (Shards c) 1 \<le> 4"
proof -
  have ty: "sc_ReqType (leave_msg [5]) = LEAVE" "GIDs (sc_LeaveArgs (leave_msg [5])) = [5]"
    by (simp_all add: leave_msg_def sc_op_def)
  have owner: "\<exists>g \<in> set (Shards (last [Config0, five])). g \<notin> set [5]" by (simp add: five_def)
  then obtain c where c: "sc_do five_ord (leave_msg [5]) [Config0, five] = Some ([Config0, five] @ [c])"
    "dom (Groups c) = dom (Groups five) - set [5]"
    using Join_Leave_fair [OF five_orders five_ok(1)] five_ok(2) unfolding ty by auto
  have dom: "dom (Groups c) = {1, 2, 3, 4}" unfolding c(2) five_dom by auto
  from Join_Leave_spread [OF five_orders five_ok(1)] five_ok(2) owner c(1)
  have "2 \<le> count_list (Shards c) 1 \<and> count_list (Shards c) 1 \<le> 4" unfolding ty by (auto simp: Let_def dom)
  with c(1) dom show ?thesis by auto
qed

section \<open>A Leave of all owners\<close>

lemma shardNum_none: "set shards \<subseteq> set gids \<Longrightarrow> shardNum (deletedGids gids) shards = Map.empty"
proof -
  have "fold (\<lambda>gid m. if \<not> mget False (deletedGids gids) gid then m(gid \<mapsto> mget 0 m gid + 1) else m) shards m = m"
    if "set shards \<subseteq> set gids" for m using that by (induction shards) (simp_all add: mget_deletedGids)
  then show "set shards \<subseteq> set gids \<Longrightarrow> shardNum (deletedGids gids) shards = Map.empty" by (simp add: shardNum_def)
qed

lemma share_le: "max 1 (10 div int k) \<le> int (count_list (replicate 10 (0 :: int)) 0)"
proof -
  have "10 div int k = int (10 div k)" by (simp add: zdiv_int)
  moreover have "10 div k \<le> 10" by (rule div_le_dividend)
  moreover have "count_list (replicate 10 (0 :: int)) 0 = 10" by (simp add: numeral_eq_Suc)
  ultimately show ?thesis by linarith
qed

text \<open>
  C39: a Leave of all owners strands shards. When every group that owns shards leaves and groups without
  shards remain, the shards go to group 0, which is no group of the configuration, and the rebalancing lets group 0
  keep at least the share of a group: the new configuration leaves that many shards without servers.
\<close>

theorem Leave_strands_shards:
  assumes "sc_orders ord msg cfgs" "history_ok cfgs" "sc_ReqType msg = LEAVE"
    and "set (Shards (last cfgs)) \<subseteq> set (GIDs (sc_LeaveArgs msg))" "0 \<notin> dom (Groups (last cfgs))"
    and "\<not> dom (Groups (last cfgs)) \<subseteq> set (GIDs (sc_LeaveArgs msg))"
  shows "\<exists>c. sc_do ord msg cfgs = Some (cfgs @ [c]) \<and> dom (Groups c) = dom (Groups (last cfgs)) - set (GIDs (sc_LeaveArgs msg)) \<and>
    0 \<notin> dom (Groups c) \<and> max 1 (10 div int (card (dom (Groups c)))) \<le> int (count_list (Shards c) 0)"
proof -
  let ?gids = "GIDs (sc_LeaveArgs msg)" and ?left = "leftConfig (ord_count ord) (sc_LeaveArgs msg) (last cfgs) (len cfgs)"
  have last: "lastConfig cfgs = Some (last cfgs)" using assms(2) by (simp add: lastConfig_eq history_ok_def)
  have len: "length (Shards (last cfgs)) = 10" using history_ok_last [OF assms(2)] by (simp add: NShards_def len_def)
  from assms(1,3) last have o: "range_order (Groups (last cfgs)) (ord_copy ord)"
    "range_order (shardNum (deletedGids ?gids) (Shards (last cfgs))) (ord_count ord)" "rebalance_orders ord ?left"
    by (simp_all add: sc_orders_def)
  have pick: "pickGid (ord_count ord) (shardNum (deletedGids ?gids) (Shards (last cfgs))) = 0"
    using pickGid_best(1) [OF o(2)] by (simp add: shardNum_none [OF assms(4)])
  have "Shards ?left = map (\<lambda>_. 0) (Shards (last cfgs))"
    unfolding leftConfig_def Let_def pick using assms(4) by (auto simp: deletedGids_eq)
  then have shards: "Shards ?left = replicate 10 0" by (simp add: map_replicate_const len)
  have groups: "dom (Groups ?left) = dom (Groups (last cfgs)) - set ?gids"
    by (auto simp: leftConfig_def Let_def fold_delete split: if_splits)
  then have "Groups ?left \<noteq> Map.empty" using assms(6) by auto
  from rebalanceConfig_balances_ex [OF o(3) this] obtain new where
    new: "rebalanceConfig ord ?left = Some (?left\<lparr>Shards := new\<rparr>)"
    "balances (max 1 (10 div int (card (dom (Groups ?left))))) (dom (Groups ?left) \<union> set (Shards ?left)) (Shards ?left) new"
    by blast
  have "max 1 (10 div int (card (dom (Groups ?left)))) \<le> int (count_list (Shards ?left) 0)"
    unfolding shards by (rule share_le)
  with new(2) have "max 1 (10 div int (card (dom (Groups ?left)))) \<le> int (count_list new 0)" unfolding balances_def by blast
  with new(1) groups assms(3,5) show ?thesis
    by (auto simp: sc_do_def doLeave_eq [OF last o(1)])
qed

text \<open>Ten shards with the first of four groups, which leaves.\<close>

definition idle :: Config where
  "idle = \<lparr>Num = 1, Shards = replicate 10 1, Groups = [1 \<mapsto> [''a''], 2 \<mapsto> [''b''], 3 \<mapsto> [''c''], 4 \<mapsto> [''d'']]\<rparr>"

definition idle_ord :: orders where
  "idle_ord = \<lparr>ord_copy = [1, 2, 3, 4], ord_join = [], ord_count = [], ord_origin = [0], ord_newcome = [2, 3, 4], ord_assign = [0, 2, 3, 4]\<rparr>"

lemma idle_dom: "dom (Groups idle) = {1, 2, 3, 4}"
  by (auto simp: idle_def)

lemma idle_orders: "sc_orders idle_ord (leave_msg [1]) [Config0, idle]"
proof -
  let ?left = "leftConfig (ord_count idle_ord) (sc_LeaveArgs (leave_msg [1])) idle 2"
  have "dom (Groups ?left) = {2, 3, 4}"
    using idle_dom by (auto simp: leftConfig_def leave_msg_def Let_def fold_delete split: if_splits)
  then have o: "range_order (Groups ?left) (ord_newcome idle_ord)" unfolding range_order_def by (auto simp: idle_ord_def)
  have "rebalance_orders idle_ord ?left" by (rule rebalance_orders_check [OF o]; code_simp)
  moreover have "range_order (Groups idle) (ord_copy idle_ord)"
    by (simp add: range_order_def idle_dom idle_ord_def)
  moreover have "range_order (shardNum (deletedGids [1]) (Shards idle)) (ord_count idle_ord)"
    by (simp add: shardNum_none idle_def range_order_def idle_ord_def)
  ultimately show ?thesis by (simp add: sc_orders_def lastConfig_eq leave_msg_def sc_op_def)
qed

theorem Leave_strands_shards_witness:
  "\<exists>c. sc_do idle_ord (leave_msg [1]) [Config0, idle] = Some [Config0, idle, c] \<and> dom (Groups c) = {2, 3, 4} \<and>
     3 \<le> count_list (Shards c) 0"
proof -
  have ty: "sc_ReqType (leave_msg [1]) = LEAVE" "GIDs (sc_LeaveArgs (leave_msg [1])) = [1]"
    by (simp_all add: leave_msg_def sc_op_def)
  have "history_ok [Config0, idle]"
    by (auto simp: history_ok_def Config0_def idle_def NShards_def len_def less_Suc_eq)
  moreover have "set (Shards (last [Config0, idle])) \<subseteq> set [1]" by (simp add: idle_def)
  moreover have "0 \<notin> dom (Groups (last [Config0, idle]))" "\<not> dom (Groups (last [Config0, idle])) \<subseteq> set [1]"
    using idle_dom by simp_all
  ultimately obtain c where c: "sc_do idle_ord (leave_msg [1]) [Config0, idle] = Some ([Config0, idle] @ [c])"
    "dom (Groups c) = dom (Groups idle) - set [1]" "max 1 (10 div int (card (dom (Groups c)))) \<le> int (count_list (Shards c) 0)"
    using Leave_strands_shards [OF idle_orders] unfolding ty by fastforce
  have dom: "dom (Groups c) = {2, 3, 4}" unfolding c(2) idle_dom by auto
  from c(3) [unfolded dom] have "3 \<le> count_list (Shards c) 0" by simp
  with c(1) dom show ?thesis by (intro exI [of _ c]) simp
qed

section \<open>A repeated Query\<close>

text \<open>A Query whose request number is already completed gets an empty configuration and no error.\<close>

theorem duplicate_Query_empty:
  "snd (GetState (sc_rf sc)) \<Longrightarrow> q_ReqNo args \<le> mget 0 (sc_CompletedPool sc) (q_ClientId args) \<Longrightarrow>
   Query c args sc = Some (sc, Inl \<lparr>qr_WrongLeader = False, qr_Err = [], qr_Config = Config0\<rparr>)"
  by (simp add: Query_def sc_begin_def sc_op_def QueryReply0_def)

section \<open>The clerk\<close>

definition sc_answered :: "(nat \<Rightarrow> nat \<Rightarrow> 'r option) \<Rightarrow> ('r \<Rightarrow> bool) \<Rightarrow> nat \<Rightarrow> nat \<Rightarrow> bool" where
  "sc_answered call wrongLeader k i \<longleftrightarrow> (\<exists>r. call k i = Some r \<and> \<not> wrongLeader r)"

lemma sc_tryServers_cases:
  "case sc_tryServers call wl k is of
     Inl r \<Rightarrow> \<exists>j < length is. call (k + j) (is ! j) = Some r \<and> \<not> wl r \<and> (\<forall>j' < j. \<not> sc_answered call wl (k + j') (is ! j'))
   | Inr k' \<Rightarrow> k' = k + length is \<and> (\<forall>j < length is. \<not> sc_answered call wl (k + j) (is ! j))"
proof (induction "is" arbitrary: k)
  case (Cons i "is")
  show ?case
  proof (cases "sc_answered call wl k i")
    case True
    then show ?thesis by (auto simp: sc_answered_def intro!: exI [of _ 0])
  next
    case False
    then have step: "sc_tryServers call wl k (i # is) = sc_tryServers call wl (Suc k) is"
      by (auto simp: sc_answered_def split: option.split)
    show ?thesis
    proof (cases "sc_tryServers call wl (Suc k) is")
      case (Inl r)
      with Cons [of "Suc k"] obtain j where "j < length is" "call (Suc k + j) (is ! j) = Some r" "\<not> wl r"
        "\<forall>j' < j. \<not> sc_answered call wl (Suc k + j') (is ! j')" by auto
      with False show ?thesis unfolding step Inl sum.case by (intro exI [of _ "Suc j"]) (auto simp: less_Suc_eq_0_disj)
    next
      case (Inr k')
      with Cons [of "Suc k"] False show ?thesis unfolding step Inr by (auto simp: less_Suc_eq_0_disj)
    qed
  qed
qed simp

lemma sc_clerkLoop_first:
  assumes "call k (k mod n) = Some r" "\<not> wl r" "0 < n"
  shows "q * n \<le> k \<Longrightarrow> (\<forall>k'. q * n \<le> k' \<and> k' < k \<longrightarrow> \<not> sc_answered call wl k' (k' mod n)) \<Longrightarrow>
    sc_clerkLoop call wl n (q * n) = Some r"
proof (induction "k - q * n" arbitrary: q rule: less_induct)
  case less
  show ?case
  proof (cases "sc_tryServers call wl (q * n) [0..<n]")
    case (Inl r')
    with sc_tryServers_cases [of "[0..<n]" call "q * n" wl] obtain j where
      j: "j < n" "call (q * n + j) j = Some r'" "\<not> wl r'" "\<forall>j' < j. \<not> sc_answered call wl (q * n + j') j'" by auto
    have "q * n + j = k"
    proof (rule linorder_cases)
      assume "q * n + j < k"
      with less.prems(2) j(1-3) show ?thesis by (auto simp: sc_answered_def dest: spec [of _ "q * n + j"])
    next
      assume "k < q * n + j"
      then have "k - q * n < j" "k = q * n + (k - q * n)" using less.prems(1) by auto
      moreover from this j(1) have "k mod n = k - q * n" by (metis mod_less mod_mult_self3 order_less_trans)
      ultimately show ?thesis using j(4) assms(1,2) by (metis sc_answered_def)
    qed
    then have "r' = r" using j(1,2) assms(1) by auto
    with Inl show ?thesis by (subst sc_clerkLoop.simps) simp
  next
    case (Inr k')
    with sc_tryServers_cases [of "[0..<n]" call "q * n" wl] have
      k': "k' = Suc q * n" and none: "\<forall>j < n. \<not> sc_answered call wl (q * n + j) j" by auto
    have "Suc q * n \<le> k"
    proof (rule ccontr)
      assume "\<not> Suc q * n \<le> k"
      then have "k - q * n < n" "k = q * n + (k - q * n)" using less.prems(1) by auto
      moreover from this have "k mod n = k - q * n" by (metis mod_less mod_mult_self3)
      ultimately show False using none assms(1,2) by (metis sc_answered_def)
    qed
    moreover have "k - Suc q * n < k - q * n" using calculation assms(3) by simp
    ultimately have "sc_clerkLoop call wl n (Suc q * n) = Some r" using less.prems(2) by (intro less.hyps) auto
    with Inr k' show ?thesis by (subst sc_clerkLoop.simps) simp
  qed
qed

lemma sc_clerkLoop_answered:
  "sc_clerkLoop call wl n k = Some r \<Longrightarrow> k mod n = 0 \<Longrightarrow> \<exists>m. sc_answered call wl m (m mod n)"
proof (induction rule: sc_clerkLoop.raw_induct [rotated 1, consumes 1, case_names step])
  case (step rec call wl n k r)
  show ?case
  proof (cases "sc_tryServers call wl k [0..<n]")
    case (Inl r')
    with sc_tryServers_cases [of "[0..<n]" call k wl] obtain j where
      "j < n" "call (k + j) j = Some r'" "\<not> wl r'" by auto
    moreover from this step(3) have "(k + j) mod n = j" by (metis add_0 mod_add_left_eq mod_less)
    ultimately show ?thesis by (metis sc_answered_def)
  next
    case (Inr k')
    then have "k' mod n = 0" using sc_tryServers_cases [of "[0..<n]" call k wl] step(3) by simp
    with step(1,2) Inr show ?thesis by simp
  qed
qed

text \<open>
  C35: the clerk. The retry loop of the controller's clerk, which asks the servers in turn, returns exactly when
  some call is answered by a leader, and then with the answer of the first such call.
\<close>

theorem sc_clerk_first_answer:
  assumes "0 < n"
  shows "sc_clerkLoop call wl n 0 = Some r \<longleftrightarrow>
    (\<exists>k. call k (k mod n) = Some r \<and> \<not> wl r \<and> (\<forall>k' < k. \<not> sc_answered call wl k' (k' mod n)))"
proof
  assume run: "sc_clerkLoop call wl n 0 = Some r"
  let ?P = "\<lambda>m. sc_answered call wl m (m mod n)"
  from sc_clerkLoop_answered [OF run] have "\<exists>m. ?P m" by simp
  then obtain m where m: "?P m" "\<forall>k' < m. \<not> ?P k'" unfolding exists_least_iff [of ?P] by blast
  from m(1) obtain r' where r': "call m (m mod n) = Some r'" "\<not> wl r'" unfolding sc_answered_def by blast
  have "sc_clerkLoop call wl n (0 * n) = Some r'" using sc_clerkLoop_first [of call m n r' wl 0] r' assms m(2) by simp
  with run have "r' = r" by simp
  with r' m(2) show "\<exists>k. call k (k mod n) = Some r \<and> \<not> wl r \<and> (\<forall>k' < k. \<not> ?P k')" by blast
next
  assume "\<exists>k. call k (k mod n) = Some r \<and> \<not> wl r \<and> (\<forall>k' < k. \<not> sc_answered call wl k' (k' mod n))"
  then obtain k where "call k (k mod n) = Some r" "\<not> wl r" "\<forall>k' < k. \<not> sc_answered call wl k' (k' mod n)" by blast
  then show "sc_clerkLoop call wl n 0 = Some r" using sc_clerkLoop_first [of call k n r wl 0] assms by simp
qed

theorem sc_clerk_first_answer_witness:
  "sc_clerkLoop (\<lambda>k i. if i = 1 \<and> 3 \<le> k then Some k else None) (\<lambda>_. False) 3 0 = Some 4"
proof -
  let ?call = "\<lambda>k i. if i = 1 \<and> 3 \<le> k then Some k else None"
  have "\<not> sc_answered ?call (\<lambda>_. False) k (k mod 3)" if "k < 4" for k :: nat
  proof -
    from that consider "k = 0" | "k = 1" | "k = 2" | "k = 3" by linarith
    then show ?thesis by cases (simp_all add: sc_answered_def)
  qed
  then have "\<exists>k. ?call k (k mod 3) = Some 4 \<and> \<not> False \<and> (\<forall>k' < k. \<not> sc_answered ?call (\<lambda>_. False) k' (k' mod 3))"
    by (intro exI [of _ 4]) simp
  with sc_clerk_first_answer [of 3 ?call "\<lambda>_. False" 4] show ?thesis by simp
qed

end
