(* ===== verification/ShardKV.thy ===== *)
theory ShardKV
  imports ShardCtrler
begin

text \<open>
  The sharded key/value server of src/src/shardkv: requests of clients (common.go, client.go), the
  replicated server of one group and the migration of shards between groups (server.go).

  \<^item> A server holds the configuration it serves (\<open>skv_CurConfig\<close>), the shards it has received
    (\<open>skv_Shards\<close>), their keys (\<open>skv_KV\<close>) and, per configuration, the shards it has given away
    (\<open>OutShardsDock\<close>) for the next owner to pull.
  \<^item> The order in which a loop visits a map is an argument, collected in \<open>skv_orders\<close>. \<open>None\<close> is a panic.
  \<^item> A channel is a number; a handler that waits for its result or for a timeout is cut there, the
    second half takes the result (\<open>None\<close> for the timeout). \<open>applyLog\<close> returns what it sends on a channel.
  \<^item> Answers of other servers and of the shard controller are arguments.
\<close>

definition go_enum :: "'a list \<Rightarrow> (int \<times> 'a) list" where
  "go_enum xs = zip [0..len xs - 1] xs"

section \<open>Requests and data\<close>

definition key2shard :: "string \<Rightarrow> int" where
  "key2shard key = (let shard = (if len key > 0 then of_char (hd key) else 0) in shard mod NShards)"

definition OK :: string where "OK = ''OK''"

definition ErrNoKey :: string where "ErrNoKey = ''ErrNoKey''"

definition ErrWrongGroup :: string where "ErrWrongGroup = ''ErrWrongGroup''"

definition ErrWrongLeader :: string where "ErrWrongLeader = ''ErrWrongLeader''"

definition ErrNotReady :: string where "ErrNotReady = ''ErrNotReady''"

definition ErrTimeOut :: string where "ErrTimeOut = ''ErrTimeOut''"

record skv_PutAppendArgs =
  sp_Key :: string
  sp_Value :: string
  sp_Op :: string
  sp_ShardId :: int
  sp_ClientId :: int
  sp_ReqNo :: int

record skv_PutAppendReply =
  spr_Err :: string

record skv_GetArgs =
  sg_Key :: string
  sg_ShardId :: int
  sg_ClientId :: int
  sg_ReqNo :: int

record skv_GetReply =
  sgr_Err :: string
  sgr_Value :: string

record Result =
  r_Err :: string
  r_Value :: string
  r_ClientId :: int
  r_ReqNo :: int

definition Result0 :: Result where
  "Result0 = \<lparr>r_Err = [], r_Value = [], r_ClientId = 0, r_ReqNo = 0\<rparr>"

record ShiftShard =
  ss_ConfigNum :: int
  ss_ShardId :: int
  ss_KVMap :: "string \<rightharpoonup> string"

record ClientInfo =
  CompletedReq :: "int \<rightharpoonup> int"
  CompletedResult :: "int \<rightharpoonup> Result"

definition ClientInfo0 :: ClientInfo where
  "ClientInfo0 = \<lparr>CompletedReq = Map.empty, CompletedResult = Map.empty\<rparr>"

record PullShardsArgs =
  psa_ConfigNum :: int
  psa_ShardIds :: "int list"

record PullShardReply =
  psr_Success :: bool
  psr_ShiftShards :: "ShiftShard list"
  psr_ClientInfo :: ClientInfo

record HelloArgs =
  ha_Gid :: int
  ha_ServerId :: int

record HelloReply =
  hr_ConfigNum :: int
  hr_Success :: bool

datatype skv_OpType = GET | PUT | APPEND | CONFIG | SHARDS

record skv_Op =
  so_OpType :: skv_OpType
  so_GetArg :: skv_GetArgs
  so_PutAppendArg :: skv_PutAppendArgs
  so_ClientId :: int
  so_ReqNo :: int
  so_Config :: Config
  so_ShiftShards :: "ShiftShard list"
  so_ClientInfo :: ClientInfo

definition skv_Op0 :: "skv_OpType \<Rightarrow> skv_Op" where
  "skv_Op0 ty = \<lparr>so_OpType = ty, so_GetArg = \<lparr>sg_Key = [], sg_ShardId = 0, sg_ClientId = 0, sg_ReqNo = 0\<rparr>,
     so_PutAppendArg = \<lparr>sp_Key = [], sp_Value = [], sp_Op = [], sp_ShardId = 0, sp_ClientId = 0, sp_ReqNo = 0\<rparr>,
     so_ClientId = 0, so_ReqNo = 0, so_Config = Config0, so_ShiftShards = [], so_ClientInfo = ClientInfo0\<rparr>"

definition ShiftShard_copy :: "string list \<Rightarrow> ShiftShard \<Rightarrow> ShiftShard" where
  "ShiftShard_copy ord ssd = \<lparr>ss_ConfigNum = ss_ConfigNum ssd, ss_ShardId = ss_ShardId ssd,
     ss_KVMap = go_range ord (ss_KVMap ssd) (\<lambda>key val m. m(key \<mapsto> val)) Map.empty\<rparr>"

definition ClientInfo_copy :: "int list \<Rightarrow> int list \<Rightarrow> ClientInfo \<Rightarrow> ClientInfo" where
  "ClientInfo_copy ord1 ord2 cInfo =
     \<lparr>CompletedReq = go_range ord1 (CompletedReq cInfo) (\<lambda>clientId req m. m(clientId \<mapsto> req)) Map.empty,
      CompletedResult = go_range ord2 (CompletedResult cInfo) (\<lambda>clientId result m. m(clientId \<mapsto> result)) Map.empty\<rparr>"

definition merge :: "int list \<Rightarrow> ClientInfo \<Rightarrow> ClientInfo \<Rightarrow> ClientInfo" where
  "merge ord info cInfo =
     go_range ord (CompletedReq info) (\<lambda>clientId req cInfo.
       if req > mget 0 (CompletedReq cInfo) clientId
       then cInfo\<lparr>CompletedReq := (CompletedReq cInfo)(clientId \<mapsto> req),
                  CompletedResult := (CompletedResult cInfo)(clientId \<mapsto> mget Result0 (CompletedResult info) clientId)\<rparr>
       else if req = mget 0 (CompletedReq cInfo) clientId \<and> r_Err (mget Result0 (CompletedResult cInfo) clientId) \<noteq> OK
       then cInfo\<lparr>CompletedResult := (CompletedResult cInfo)(clientId \<mapsto> mget Result0 (CompletedResult info) clientId)\<rparr>
       else cInfo) cInfo"

section \<open>The server\<close>

datatype skv_gob = SInt int | SConfig Config | SShards "int \<rightharpoonup> bool" | SKV "string \<rightharpoonup> string" | SInfo ClientInfo
  | SNums "int \<rightharpoonup> int" | SDock "int \<rightharpoonup> (int \<rightharpoonup> ShiftShard)" | SInfos "int \<rightharpoonup> ClientInfo"

record ShardKV =
  skv_me :: int
  skv_rf :: "(skv_Op, skv_gob) Raft"
  skv_gid :: int
  skv_maxraftstate :: int
  skv_mck :: sc_Clerk
  skv_CommitedId :: int
  skv_LastConfig :: Config
  skv_CurConfig :: Config
  skv_Shards :: "int \<rightharpoonup> bool"
  skv_KV :: "string \<rightharpoonup> string"
  skv_ClientInfo :: ClientInfo
  CompletedChan :: "int \<rightharpoonup> nat"
  Gid2UnCompletedConfigNum :: "int \<rightharpoonup> int"
  OutShardsDock :: "int \<rightharpoonup> (int \<rightharpoonup> ShiftShard)"
  Config2ClientInfo :: "int \<rightharpoonup> ClientInfo"
  skv_Dead :: int

definition isMigrateFinished :: "ShardKV \<Rightarrow> bool \<times> int list" where
  "isMigrateFinished skv =
     fold (\<lambda>(shard, gid) (finished, unFinishedShard).
         if skv_gid skv = gid \<and> \<not> mget False (skv_Shards skv) shard
         then (False, unFinishedShard @ [shard]) else (finished, unFinishedShard))
       (go_enum (Shards (skv_CurConfig skv))) (True, [])"

definition Hello :: "HelloArgs \<Rightarrow> ShardKV \<Rightarrow> HelloReply" where
  "Hello args skv =
     (if \<not> snd (GetState (skv_rf skv)) then \<lparr>hr_ConfigNum = 0, hr_Success = False\<rparr>
      else if fst (isMigrateFinished skv) then \<lparr>hr_ConfigNum = Num (skv_CurConfig skv) + 1, hr_Success = True\<rparr>
      else \<lparr>hr_ConfigNum = Num (skv_CurConfig skv), hr_Success = True\<rparr>)"

text \<open>
  One round of \<open>sayHello\<close>, cut where it releases the mutex: the copy of the numbers and the
  configuration, the calls (\<open>call gid si\<close> is the outcome of the call to server \<open>si\<close> of group \<open>gid\<close>), and the rest.
\<close>

definition sayHello_begin :: "int list \<Rightarrow> ShardKV \<Rightarrow> (int \<rightharpoonup> int) \<times> Config" where
  "sayHello_begin ord skv =
     (go_range ord (Gid2UnCompletedConfigNum skv) (\<lambda>gid configNum m. m(gid \<mapsto> configNum)) Map.empty, skv_CurConfig skv)"

definition sayHello_calls ::
  "int list \<Rightarrow> (int \<Rightarrow> int \<Rightarrow> HelloReply option) \<Rightarrow> int \<Rightarrow> Config \<Rightarrow> (int \<rightharpoonup> int) \<Rightarrow> (int \<rightharpoonup> int)" where
  "sayHello_calls ord call me_gid curConfig =
     go_range ord (Groups curConfig) (\<lambda>gid srvs gid2ConfigNum.
       if gid = me_gid then gid2ConfigNum
       else fold (\<lambda>(si, server) gid2ConfigNum.
           case call gid si of
             Some reply \<Rightarrow> if hr_Success reply
               then gid2ConfigNum(gid \<mapsto> max_int (mget 0 gid2ConfigNum gid) (hr_ConfigNum reply)) else gid2ConfigNum
           | None \<Rightarrow> gid2ConfigNum) (go_enum srvs) gid2ConfigNum)"

record clean_orders =
  co_nums :: "int list"
  co_infos :: "int list"
  co_docks :: "int list"
  co_expinfos :: "int list"
  co_expdocks :: "int list"

definition lowestConfigNum :: "int list \<Rightarrow> (int \<rightharpoonup> int) \<Rightarrow> int" where
  "lowestConfigNum ord nums =
     go_range ord nums (\<lambda>_ configNum lowest. if lowest = 0 then configNum else min_int lowest configNum) 0"

definition expired :: "int list \<Rightarrow> int \<Rightarrow> (int \<rightharpoonup> 'a) \<Rightarrow> (int \<rightharpoonup> bool)" where
  "expired ord lowest m =
     go_range ord m (\<lambda>configNum _ e. if configNum < lowest then e(configNum \<mapsto> True) else e) Map.empty"

definition clean :: "clean_orders \<Rightarrow> ShardKV \<Rightarrow> ShardKV" where
  "clean ord skv =
     (let lowest = lowestConfigNum (co_nums ord) (Gid2UnCompletedConfigNum skv);
          expiredClientInfo = expired (co_infos ord) lowest (Config2ClientInfo skv);
          expiredOutShard = expired (co_docks ord) lowest (OutShardsDock skv);
          skv = skv\<lparr>Config2ClientInfo := go_range (co_expinfos ord) expiredClientInfo (\<lambda>configNum _ m. m(configNum := None)) (Config2ClientInfo skv)\<rparr>
      in skv\<lparr>OutShardsDock := go_range (co_expdocks ord) expiredOutShard (\<lambda>configNum _ m. m(configNum := None)) (OutShardsDock skv)\<rparr>)"

text \<open>\<open>len\<close> of the numbers is counted over the keys that a loop visits.\<close>

definition sayHello_end :: "int list \<Rightarrow> clean_orders \<Rightarrow> (int \<rightharpoonup> int) \<Rightarrow> ShardKV \<Rightarrow> ShardKV" where
  "sayHello_end ord cord gid2ConfigNum skv =
     (let skv = skv\<lparr>Gid2UnCompletedConfigNum :=
            go_range ord gid2ConfigNum (\<lambda>gid configNum m. m(gid \<mapsto> max_int (mget 0 m gid) configNum)) (Gid2UnCompletedConfigNum skv)\<rparr>
      in if len (co_nums cord) > 1 then clean cord skv else skv)"

section \<open>Configurations and migration\<close>

text \<open>One pass of the inner loop of \<open>updateConfig\<close>; \<open>query\<close> is the clerk of the shard controller.\<close>

definition updateConfig :: "(int \<Rightarrow> Config) \<Rightarrow> ShardKV \<Rightarrow> ShardKV option" where
  "updateConfig query skv =
     (if \<not> snd (GetState (skv_rf skv)) then Some skv
      else if \<not> fst (isMigrateFinished skv) then Some skv
      else let curConfig = skv_CurConfig skv; nextConfig = query (Num curConfig + 1)
      in if Num nextConfig \<le> Num curConfig then Some skv
      else do {
        (rf, _, _, _) \<leftarrow> Start ((skv_Op0 CONFIG)\<lparr>so_Config := nextConfig\<rparr>) (skv_rf skv);
        Some (skv\<lparr>skv_rf := rf\<rparr>)
      })"

definition PullShardReply0 :: PullShardReply where
  "PullShardReply0 = \<lparr>psr_Success = False, psr_ShiftShards = [], psr_ClientInfo = ClientInfo0\<rparr>"

definition ShardDock :: "(int \<Rightarrow> string list) \<Rightarrow> PullShardsArgs \<Rightarrow> ShardKV \<Rightarrow> PullShardReply" where
  "ShardDock ord args skv =
     (case OutShardsDock skv (psa_ConfigNum args) of
        None \<Rightarrow> PullShardReply0\<lparr>psr_Success := False\<rparr>
      | Some dock \<Rightarrow>
          let (unPrepared, retShards) = fold (\<lambda>shard (unPrepared, retShards).
                case dock shard of Some outShard \<Rightarrow> (False, retShards @ [ShiftShard_copy (ord shard) outShard])
                | None \<Rightarrow> (unPrepared, retShards)) (psa_ShardIds args) (True, [])
          in if unPrepared then PullShardReply0\<lparr>psr_Success := False\<rparr>
             else PullShardReply0\<lparr>psr_Success := True, psr_ShiftShards := retShards,
                    psr_ClientInfo := mget ClientInfo0 (Config2ClientInfo skv) (psa_ConfigNum args)\<rparr>)"

text \<open>
  \<open>doPullShards\<close>: \<open>call k i\<close> is the outcome of the call of round \<open>k\<close> to server \<open>i\<close> of the old group, \<open>cur k\<close> the
  number of the configuration after round \<open>k\<close>. It returns the command that it starts, if any.
\<close>

fun pullFrom :: "(nat \<Rightarrow> PullShardReply option) \<Rightarrow> nat \<Rightarrow> string list \<Rightarrow> skv_Op option" where
  "pullFrom call i [] = None"
| "pullFrom call i (server # srvs) =
     (case call i of
        Some reply \<Rightarrow> if psr_Success reply
          then Some ((skv_Op0 SHARDS)\<lparr>so_ShiftShards := psr_ShiftShards reply, so_ClientInfo := psr_ClientInfo reply\<rparr>)
          else pullFrom call (Suc i) srvs
      | None \<Rightarrow> pullFrom call (Suc i) srvs)"

partial_function (option) pullLoop ::
  "(nat \<Rightarrow> nat \<Rightarrow> PullShardReply option) \<Rightarrow> (nat \<Rightarrow> int) \<Rightarrow> string list \<Rightarrow> int \<Rightarrow> nat \<Rightarrow> skv_Op option option" where
  "pullLoop call cur srvs configNum k =
     (case pullFrom (call k) 0 srvs of
        Some op \<Rightarrow> Some (Some op)
      | None \<Rightarrow> if cur k \<noteq> configNum then Some None else pullLoop call cur srvs configNum (Suc k))"

definition doPullShards ::
  "(PullShardsArgs \<Rightarrow> nat \<Rightarrow> nat \<Rightarrow> PullShardReply option) \<Rightarrow> (nat \<Rightarrow> int) \<Rightarrow> string list \<Rightarrow> int \<Rightarrow> int list \<Rightarrow> skv_Op option option" where
  "doPullShards call cur srvs configNum unFinishedShard =
     (if srvs = [] then Some None
      else if unFinishedShard = [] then Some None
      else pullLoop (call \<lparr>psa_ConfigNum = configNum, psa_ShardIds = unFinishedShard\<rparr>) cur srvs configNum 0)"

text \<open>\<open>pullShards\<close> starts a command itself, or the goroutines \<open>doPullShards\<close> with these arguments.\<close>

datatype pull = StartOp skv_Op | PullFrom "(string list \<times> int \<times> int list) list"

definition pullShards :: "int list \<Rightarrow> Config \<Rightarrow> Config \<Rightarrow> int list \<Rightarrow> pull option" where
  "pullShards ord prevConfig curConfig unFinishedShard = do {
     gid0 \<leftarrow> go_nth (Shards prevConfig) 0;
     if gid0 = 0 then
       Some (StartOp ((skv_Op0 SHARDS)\<lparr>so_ShiftShards :=
         map (\<lambda>(shard, _). \<lparr>ss_ConfigNum = Num curConfig, ss_ShardId = shard, ss_KVMap = Map.empty\<rparr>) (go_enum (Shards curConfig))\<rparr>))
     else do {
       (targetGids, gid2Shards) \<leftarrow> fold (\<lambda>shard acc. do {
           (targetGids, gid2Shards) \<leftarrow> acc;
           gid \<leftarrow> go_nth (Shards prevConfig) shard;
           Some (targetGids(gid \<mapsto> True), gid2Shards(gid \<mapsto> mget [] gid2Shards gid @ [shard]))
         }) unFinishedShard (Some (Map.empty, Map.empty));
       Some (PullFrom (go_range ord targetGids
         (\<lambda>gid _ ps. ps @ [(mget [] (Groups prevConfig) gid, Num curConfig, mget [] gid2Shards gid)]) []))
     }
   }"

text \<open>One pass of the inner loop of \<open>checkMissShards\<close>; the inner \<open>None\<close> is its \<open>break\<close>.\<close>

definition checkMissShards :: "int list \<Rightarrow> ShardKV \<Rightarrow> pull option option" where
  "checkMissShards ord skv =
     (if \<not> snd (GetState (skv_rf skv)) then Some None
      else let (finished, unFinishedShards) = isMigrateFinished skv
      in if finished then Some None
      else map_option Some (pullShards ord (skv_LastConfig skv) (skv_CurConfig skv) unFinishedShards))"

text \<open>The orders in which one command visits the maps of the server.\<close>

record skv_orders =
  ko_req :: "int list"
  ko_res :: "int list"
  ko_out :: "int list"
  ko_dock :: "string list"
  ko_keep :: "string list"
  ko_in :: "nat \<Rightarrow> string list"
  ko_info :: "int list"

definition compareConfig :: "Config \<Rightarrow> ShardKV \<Rightarrow> (int \<rightharpoonup> bool) \<times> (int \<rightharpoonup> bool)" where
  "compareConfig nextConfig skv =
     fold (\<lambda>(shard, gid) (outShards, keepShards).
         (if mget False (skv_Shards skv) shard \<and> skv_gid skv \<noteq> gid then outShards(shard \<mapsto> True) else outShards,
          if mget False (skv_Shards skv) shard \<and> skv_gid skv = gid then keepShards(shard \<mapsto> True) else keepShards))
       (go_enum (Shards nextConfig)) (Map.empty, Map.empty)"

definition makeOutShards :: "skv_orders \<Rightarrow> (int \<rightharpoonup> bool) \<Rightarrow> Config \<Rightarrow> ShardKV \<Rightarrow> ShardKV option" where
  "makeOutShards ord outShards nextConfig skv = do {
     let outShardsMap = go_range (ko_out ord) outShards
       (\<lambda>shard _ m. m(shard \<mapsto> \<lparr>ss_ConfigNum = Num nextConfig, ss_ShardId = shard, ss_KVMap = Map.empty\<rparr>)) Map.empty;
     outShardsMap \<leftarrow> go_range (ko_dock ord) (skv_KV skv) (\<lambda>key val acc. do {
         m \<leftarrow> acc;
         let shard = key2shard key;
         if mget False outShards shard then do {
           ss \<leftarrow> m shard;
           Some (m(shard \<mapsto> ss\<lparr>ss_KVMap := (ss_KVMap ss)(key \<mapsto> val)\<rparr>))
         } else Some m
       }) (Some outShardsMap);
     Some (skv\<lparr>OutShardsDock := (OutShardsDock skv)(Num nextConfig \<mapsto> outShardsMap)\<rparr>)
   }"

definition doUpdateConfig :: "skv_orders \<Rightarrow> Config \<Rightarrow> ShardKV \<Rightarrow> ShardKV option" where
  "doUpdateConfig ord nextConfig skv =
     (if Num nextConfig \<le> Num (skv_CurConfig skv) then Some skv
      else if \<not> fst (isMigrateFinished skv) then Some skv
      else do {
        let (outShards, keepShards) = compareConfig nextConfig skv;
        let skv = skv\<lparr>Config2ClientInfo := (Config2ClientInfo skv)(Num nextConfig \<mapsto>
                    ClientInfo_copy (ko_req ord) (ko_res ord) (skv_ClientInfo skv))\<rparr>;
        skv \<leftarrow> makeOutShards ord outShards nextConfig skv;
        let keepKVMap = go_range (ko_keep ord) (skv_KV skv)
          (\<lambda>key val m. if mget False keepShards (key2shard key) then m(key \<mapsto> val) else m) Map.empty;
        Some (skv\<lparr>skv_Shards := keepShards, skv_KV := keepKVMap,
                  skv_LastConfig := skv_CurConfig skv, skv_CurConfig := nextConfig\<rparr>)
      })"

text \<open>One iteration of the loop of \<open>acceptShards\<close>, and the whole.\<close>

definition acceptShard :: "string list \<Rightarrow> ShiftShard \<Rightarrow> ShardKV \<Rightarrow> ShardKV option" where
  "acceptShard ord shiftShard skv =
     (if ss_ConfigNum shiftShard \<noteq> Num (skv_CurConfig skv) then Some skv
      else do {
        gid \<leftarrow> go_nth (Shards (skv_CurConfig skv)) (ss_ShardId shiftShard);
        if gid \<noteq> skv_gid skv \<or> mget False (skv_Shards skv) (ss_ShardId shiftShard) then Some skv
        else let skv = skv\<lparr>skv_KV := go_range ord (ss_KVMap shiftShard) (\<lambda>key val m. m(key \<mapsto> val)) (skv_KV skv)\<rparr>
        in if gid = skv_gid skv then Some (skv\<lparr>skv_Shards := (skv_Shards skv)(ss_ShardId shiftShard \<mapsto> True)\<rparr>)
           else Some skv
      })"

definition acceptShards :: "skv_orders \<Rightarrow> skv_Op \<Rightarrow> ShardKV \<Rightarrow> ShardKV option" where
  "acceptShards ord op skv = do {
     skv \<leftarrow> fold (\<lambda>(i, shiftShard) acc. do { skv \<leftarrow> acc; acceptShard (ko_in ord i) shiftShard skv })
       (zip [0..<length (so_ShiftShards op)] (so_ShiftShards op)) (Some skv);
     Some (skv\<lparr>skv_ClientInfo := merge (ko_info ord) (so_ClientInfo op) (skv_ClientInfo skv)\<rparr>)
   }"

section \<open>Requests of clients\<close>

text \<open>A request that is completed, and its completion succeeded (lines 400-401 and 455-456).\<close>

definition skv_dup :: "int \<Rightarrow> int \<Rightarrow> ShardKV \<Rightarrow> bool" where
  "skv_dup client req skv \<longleftrightarrow> req < mget 0 (CompletedReq (skv_ClientInfo skv)) client \<or>
     (req = mget 0 (CompletedReq (skv_ClientInfo skv)) client \<and> r_Err (mget Result0 (CompletedResult (skv_ClientInfo skv)) client) = OK)"

text \<open>
  The handlers up to the \<open>select\<close>: a reply, or the channel to wait on; \<open>c\<close> is the new channel. After the
  \<open>select\<close>: the reply, and the channel is removed.
\<close>

definition skv_GetReply0 :: skv_GetReply where
  "skv_GetReply0 = \<lparr>sgr_Err = [], sgr_Value = []\<rparr>"

definition skv_Get :: "nat \<Rightarrow> skv_GetArgs \<Rightarrow> ShardKV \<Rightarrow> (ShardKV \<times> (skv_GetReply + nat)) option" where
  "skv_Get c args skv =
     (if \<not> snd (GetState (skv_rf skv)) then Some (skv, Inl (skv_GetReply0\<lparr>sgr_Err := ErrWrongLeader\<rparr>))
      else do {
        gid \<leftarrow> go_nth (Shards (skv_CurConfig skv)) (key2shard (sg_Key args));
        if gid \<noteq> skv_gid skv then Some (skv, Inl (skv_GetReply0\<lparr>sgr_Err := ErrWrongGroup\<rparr>))
        else if skv_dup (sg_ClientId args) (sg_ReqNo args) skv then
          (if \<not> mget False (skv_Shards skv) (key2shard (sg_Key args))
           then Some (skv, Inl (skv_GetReply0\<lparr>sgr_Err := ErrNotReady\<rparr>))
           else Some (skv, Inl (skv_GetReply0\<lparr>sgr_Err := OK, sgr_Value := mget [] (skv_KV skv) (sg_Key args)\<rparr>)))
        else do {
          let op = (skv_Op0 GET)\<lparr>so_GetArg := args, so_ClientId := sg_ClientId args, so_ReqNo := sg_ReqNo args\<rparr>;
          (rf, index, _, isLeader) \<leftarrow> Start op (skv_rf skv);
          let skv = skv\<lparr>skv_rf := rf\<rparr>;
          if \<not> isLeader then Some (skv, Inl (skv_GetReply0\<lparr>sgr_Err := ErrWrongLeader\<rparr>))
          else Some (skv\<lparr>CompletedChan := (CompletedChan skv)(sg_ClientId args \<mapsto> c)\<rparr>, Inr c)
        }
      })"

definition skv_Get_finish :: "Result option \<Rightarrow> skv_GetArgs \<Rightarrow> ShardKV \<Rightarrow> ShardKV \<times> skv_GetReply" where
  "skv_Get_finish ch args skv =
     (skv\<lparr>CompletedChan := (CompletedChan skv)(sg_ClientId args := None)\<rparr>,
      case ch of
        None \<Rightarrow> skv_GetReply0\<lparr>sgr_Err := ErrTimeOut\<rparr>
      | Some result \<Rightarrow> if r_ClientId result = sg_ClientId args \<and> r_ReqNo result = sg_ReqNo args
          then skv_GetReply0\<lparr>sgr_Err := r_Err result, sgr_Value := r_Value result\<rparr>
          else skv_GetReply0)"

definition skv_PutAppend :: "nat \<Rightarrow> skv_PutAppendArgs \<Rightarrow> ShardKV \<Rightarrow> (ShardKV \<times> (skv_PutAppendReply + nat)) option" where
  "skv_PutAppend c args skv =
     (if \<not> snd (GetState (skv_rf skv)) then Some (skv, Inl \<lparr>spr_Err = ErrWrongLeader\<rparr>)
      else do {
        gid \<leftarrow> go_nth (Shards (skv_CurConfig skv)) (key2shard (sp_Key args));
        if gid \<noteq> skv_gid skv then Some (skv, Inl \<lparr>spr_Err = ErrWrongGroup\<rparr>)
        else if skv_dup (sp_ClientId args) (sp_ReqNo args) skv then Some (skv, Inl \<lparr>spr_Err = OK\<rparr>)
        else do {
          let op = (skv_Op0 PUT)\<lparr>so_PutAppendArg := args, so_ClientId := sp_ClientId args, so_ReqNo := sp_ReqNo args\<rparr>;
          let op = (if sp_Op args = ''Put'' then op\<lparr>so_OpType := PUT\<rparr> else op\<lparr>so_OpType := APPEND\<rparr>);
          (rf, index, _, isLeader) \<leftarrow> Start op (skv_rf skv);
          let skv = skv\<lparr>skv_rf := rf\<rparr>;
          if \<not> isLeader then Some (skv, Inl \<lparr>spr_Err = ErrWrongLeader\<rparr>)
          else Some (skv\<lparr>CompletedChan := (CompletedChan skv)(sp_ClientId args \<mapsto> c)\<rparr>, Inr c)
        }
      })"

definition skv_PutAppend_finish :: "Result option \<Rightarrow> skv_PutAppendArgs \<Rightarrow> ShardKV \<Rightarrow> ShardKV \<times> skv_PutAppendReply" where
  "skv_PutAppend_finish ch args skv =
     (skv\<lparr>CompletedChan := (CompletedChan skv)(sp_ClientId args := None)\<rparr>,
      case ch of
        None \<Rightarrow> \<lparr>spr_Err = ErrTimeOut\<rparr>
      | Some result \<Rightarrow> if r_ClientId result = sp_ClientId args \<and> r_ReqNo result = sp_ReqNo args
          then \<lparr>spr_Err = r_Err result\<rparr> else \<lparr>spr_Err = []\<rparr>)"

definition skv_Kill :: "ShardKV \<Rightarrow> ShardKV" where
  "skv_Kill skv = skv\<lparr>skv_rf := Kill (skv_rf skv), skv_Dead := 1\<rparr>"

definition skv_killed :: "ShardKV \<Rightarrow> bool" where
  "skv_killed skv \<longleftrightarrow> skv_Dead skv = 1"

section \<open>Snapshots\<close>

fun as_sint :: "skv_gob \<Rightarrow> int option" where
  "as_sint (SInt i) = Some i" | "as_sint _ = None"

fun as_sconfig :: "skv_gob \<Rightarrow> Config option" where
  "as_sconfig (SConfig c) = Some c" | "as_sconfig _ = None"

fun as_sshards :: "skv_gob \<Rightarrow> (int \<rightharpoonup> bool) option" where
  "as_sshards (SShards m) = Some m" | "as_sshards _ = None"

fun as_skv :: "skv_gob \<Rightarrow> (string \<rightharpoonup> string) option" where
  "as_skv (SKV m) = Some m" | "as_skv _ = None"

fun as_sinfo :: "skv_gob \<Rightarrow> ClientInfo option" where
  "as_sinfo (SInfo i) = Some i" | "as_sinfo _ = None"

fun as_snums :: "skv_gob \<Rightarrow> (int \<rightharpoonup> int) option" where
  "as_snums (SNums m) = Some m" | "as_snums _ = None"

fun as_sdock :: "skv_gob \<Rightarrow> (int \<rightharpoonup> (int \<rightharpoonup> ShiftShard)) option" where
  "as_sdock (SDock m) = Some m" | "as_sdock _ = None"

fun as_sinfos :: "skv_gob \<Rightarrow> (int \<rightharpoonup> ClientInfo) option" where
  "as_sinfos (SInfos m) = Some m" | "as_sinfos _ = None"

text \<open>What a snapshot holds: the part of the server that the log determines, and what it knows of other groups.\<close>

record skv_saved =
  sv_CommitedId :: int
  sv_LastConfig :: Config
  sv_CurConfig :: Config
  sv_Shards :: "int \<rightharpoonup> bool"
  sv_KV :: "string \<rightharpoonup> string"
  sv_ClientInfo :: ClientInfo
  sv_Nums :: "int \<rightharpoonup> int"
  sv_Dock :: "int \<rightharpoonup> (int \<rightharpoonup> ShiftShard)"
  sv_Infos :: "int \<rightharpoonup> ClientInfo"

definition skv_decode :: "skv_gob list \<Rightarrow> skv_saved option" where
  "skv_decode data = do {
     (commitedId, r) \<leftarrow> Decode as_sint data;
     (lastCfg, r) \<leftarrow> Decode as_sconfig r;
     (curCfg, r) \<leftarrow> Decode as_sconfig r;
     (shards, r) \<leftarrow> Decode as_sshards r;
     (kv, r) \<leftarrow> Decode as_skv r;
     (info, r) \<leftarrow> Decode as_sinfo r;
     (nums, r) \<leftarrow> Decode as_snums r;
     (dock, r) \<leftarrow> Decode as_sdock r;
     (infos, r) \<leftarrow> Decode as_sinfos r;
     Some \<lparr>sv_CommitedId = commitedId, sv_LastConfig = lastCfg, sv_CurConfig = curCfg, sv_Shards = shards,
           sv_KV = kv, sv_ClientInfo = info, sv_Nums = nums, sv_Dock = dock, sv_Infos = infos\<rparr>
   }"

definition skv_restore :: "skv_saved \<Rightarrow> ShardKV \<Rightarrow> ShardKV" where
  "skv_restore sv skv = skv\<lparr>skv_CommitedId := sv_CommitedId sv, skv_LastConfig := sv_LastConfig sv,
     skv_CurConfig := sv_CurConfig sv, skv_Shards := sv_Shards sv, skv_KV := sv_KV sv, skv_ClientInfo := sv_ClientInfo sv,
     Gid2UnCompletedConfigNum := sv_Nums sv, OutShardsDock := sv_Dock sv, Config2ClientInfo := sv_Infos sv\<rparr>"

definition skv_ReadSnapshot :: "skv_gob list \<Rightarrow> ShardKV \<Rightarrow> ShardKV option" where
  "skv_ReadSnapshot data skv =
     (if data = [] then Some skv
      else case skv_decode data of
        None \<Rightarrow> Some skv
      | Some sv \<Rightarrow> do {
          let skv = skv_restore sv skv;
          rf \<leftarrow> Snapshot (skv_CommitedId skv) data (skv_rf skv);
          Some (skv\<lparr>skv_rf := rf\<rparr>)
        })"

definition skv_save :: "ShardKV \<Rightarrow> skv_saved" where
  "skv_save skv = \<lparr>sv_CommitedId = skv_CommitedId skv, sv_LastConfig = skv_LastConfig skv, sv_CurConfig = skv_CurConfig skv,
     sv_Shards = skv_Shards skv, sv_KV = skv_KV skv, sv_ClientInfo = skv_ClientInfo skv,
     sv_Nums = Gid2UnCompletedConfigNum skv, sv_Dock = OutShardsDock skv, sv_Infos = Config2ClientInfo skv\<rparr>"

definition skv_stream :: "skv_saved \<Rightarrow> skv_gob list" where
  "skv_stream sv = Encode (SInfos (sv_Infos sv)) (Encode (SDock (sv_Dock sv)) (Encode (SNums (sv_Nums sv))
     (Encode (SInfo (sv_ClientInfo sv)) (Encode (SKV (sv_KV sv)) (Encode (SShards (sv_Shards sv))
     (Encode (SConfig (sv_CurConfig sv)) (Encode (SConfig (sv_LastConfig sv)) (Encode (SInt (sv_CommitedId sv)) []))))))))"

text \<open>One round of the goroutine \<open>Snapshot\<close>.\<close>

definition skv_Snapshot :: "(skv_Op raft_gob list \<Rightarrow> int) \<Rightarrow> ShardKV \<Rightarrow> ShardKV option" where
  "skv_Snapshot size_of skv =
     (if skv_maxraftstate skv = -1 \<or> GetRaftStateSize size_of (skv_rf skv) < skv_maxraftstate skv then Some skv
      else do {
        rf \<leftarrow> Snapshot (skv_CommitedId skv) (skv_stream (skv_save skv)) (skv_rf skv);
        Some (skv\<lparr>skv_rf := rf\<rparr>)
      })"

section \<open>Applying the log\<close>

text \<open>\<open>doOperation\<close>: the new state, and what it sends to which channel.\<close>

definition doOperation :: "skv_Op \<Rightarrow> ShardKV \<Rightarrow> (ShardKV \<times> (nat \<times> Result) option) option" where
  "doOperation op skv = do {
     let result = \<lparr>r_Err = OK, r_Value = [], r_ClientId = so_ClientId op, r_ReqNo = so_ReqNo op\<rparr>;
     (result, kv) \<leftarrow> (case so_OpType op of
         GET \<Rightarrow> do {
           gid \<leftarrow> go_nth (Shards (skv_CurConfig skv)) (sg_ShardId (so_GetArg op));
           Some (if gid \<noteq> skv_gid skv then (result\<lparr>r_Err := ErrWrongGroup\<rparr>, skv_KV skv)
             else if \<not> mget False (skv_Shards skv) (sg_ShardId (so_GetArg op)) then (result\<lparr>r_Err := ErrNotReady\<rparr>, skv_KV skv)
             else (result\<lparr>r_Value := mget [] (skv_KV skv) (sg_Key (so_GetArg op))\<rparr>, skv_KV skv))
         }
       | PUT \<Rightarrow> do {
           let arg = so_PutAppendArg op;
           gid \<leftarrow> go_nth (Shards (skv_CurConfig skv)) (sp_ShardId arg);
           Some (if gid \<noteq> skv_gid skv then (result\<lparr>r_Err := ErrWrongGroup\<rparr>, skv_KV skv)
             else if \<not> mget False (skv_Shards skv) (sp_ShardId arg) then (result\<lparr>r_Err := ErrNotReady\<rparr>, skv_KV skv)
             else (result, (skv_KV skv)(sp_Key arg \<mapsto> sp_Value arg)))
         }
       | APPEND \<Rightarrow> do {
           let arg = so_PutAppendArg op;
           gid \<leftarrow> go_nth (Shards (skv_CurConfig skv)) (sp_ShardId arg);
           Some (if gid \<noteq> skv_gid skv then (result\<lparr>r_Err := ErrWrongGroup\<rparr>, skv_KV skv)
             else if \<not> mget False (skv_Shards skv) (sp_ShardId arg) then (result\<lparr>r_Err := ErrNotReady\<rparr>, skv_KV skv)
             else (result, (skv_KV skv)(sp_Key arg \<mapsto> mget [] (skv_KV skv) (sp_Key arg) @ sp_Value arg)))
         }
       | _ \<Rightarrow> Some (result, skv_KV skv));
     let info = skv_ClientInfo skv;
     Some (skv\<lparr>skv_KV := kv, skv_ClientInfo := info\<lparr>CompletedReq := (CompletedReq info)(so_ClientId op \<mapsto> so_ReqNo op),
              CompletedResult := (CompletedResult info)(so_ClientId op \<mapsto> Result0\<lparr>r_Err := r_Err result\<rparr>)\<rparr>\<rparr>,
           map_option (\<lambda>ch. (ch, result)) (CompletedChan skv (so_ClientId op)))
   }"

text \<open>The effect of a committed command (lines 667-689): of a request of a client only if it is not a duplicate.\<close>

definition skv_exec :: "skv_orders \<Rightarrow> skv_Op \<Rightarrow> ShardKV \<Rightarrow> (ShardKV \<times> (nat \<times> Result) option) option" where
  "skv_exec ord op skv =
     (case so_OpType op of
        CONFIG \<Rightarrow> map_option (\<lambda>skv. (skv, None)) (doUpdateConfig ord (so_Config op) skv)
      | SHARDS \<Rightarrow> map_option (\<lambda>skv. (skv, None)) (acceptShards ord op skv)
      | _ \<Rightarrow>
          if so_ReqNo op > mget 0 (CompletedReq (skv_ClientInfo skv)) (so_ClientId op) \<or>
             (so_ReqNo op = mget 0 (CompletedReq (skv_ClientInfo skv)) (so_ClientId op) \<and>
              r_Err (mget Result0 (CompletedResult (skv_ClientInfo skv)) (so_ClientId op)) \<noteq> OK)
          then doOperation op skv else Some (skv, None))"

definition skv_applyLog ::
  "skv_orders \<Rightarrow> (skv_Op, skv_gob) ApplyMsg \<Rightarrow> ShardKV \<Rightarrow> (ShardKV \<times> (nat \<times> Result) option) option" where
  "skv_applyLog ord applyMsg skv =
     (if am_CommandValid applyMsg then do {
        op \<leftarrow> am_Command applyMsg;
        (skv, sent) \<leftarrow> skv_exec ord op skv;
        Some (skv\<lparr>skv_CommitedId := max_int (skv_CommitedId skv) (am_CommandIndex applyMsg)\<rparr>, sent)
      }
      else if am_SnapshotValid applyMsg \<and> am_SnapshotIndex applyMsg > skv_CommitedId skv
      then map_option (\<lambda>skv. (skv, None)) (skv_ReadSnapshot (am_Snapshot applyMsg) skv)
      else Some (skv, None))"

text \<open>\<open>ident\<close> is the counter of the controller's clerks; its new value is returned.\<close>

definition skv_StartServer ::
  "env \<Rightarrow> nat \<Rightarrow> int \<Rightarrow> (skv_Op raft_gob, skv_gob) Persister \<Rightarrow> int \<Rightarrow> int \<Rightarrow> nat \<Rightarrow> int \<Rightarrow> (ShardKV \<times> int) option" where
  "skv_StartServer ev n i ps maxstate gid nctrlers ident = do {
     let (mck, ident) = sc_MakeClerk nctrlers ident;
     skv \<leftarrow> skv_ReadSnapshot (ReadSnapshot ps)
       \<lparr>skv_me = i, skv_rf = Make ev n i ps, skv_gid = gid, skv_maxraftstate = maxstate, skv_mck = mck,
        skv_CommitedId = 0, skv_LastConfig = Config0, skv_CurConfig = Config0, skv_Shards = Map.empty,
        skv_KV = Map.empty, skv_ClientInfo = ClientInfo0, CompletedChan = Map.empty,
        Gid2UnCompletedConfigNum = Map.empty, OutShardsDock = Map.empty, Config2ClientInfo = Map.empty, skv_Dead = 0\<rparr>;
     Some (skv, ident)
   }"

section \<open>The clerk\<close>

text \<open>
  \<open>call k server\<close> is the outcome of the \<open>k\<close>-th call of a clerk, \<open>query q\<close> the answer to its \<open>q\<close>-th question to
  the shard controller. \<open>good\<close> replies end the loop, \<open>wrong\<close> ones (\<open>ErrWrongGroup\<close>) end the round.
\<close>

fun skv_tryServers ::
  "(nat \<Rightarrow> string \<Rightarrow> 'r option) \<Rightarrow> ('r \<Rightarrow> bool) \<Rightarrow> ('r \<Rightarrow> bool) \<Rightarrow> nat \<Rightarrow> string list \<Rightarrow> 'r + nat" where
  "skv_tryServers call good wrong k [] = Inr k"
| "skv_tryServers call good wrong k (server # srvs) =
     (case call k server of
        Some reply \<Rightarrow> if good reply then Inl reply
          else if wrong reply then Inr (Suc k)
          else skv_tryServers call good wrong (Suc k) srvs
      | None \<Rightarrow> skv_tryServers call good wrong (Suc k) srvs)"

partial_function (option) skv_clerkLoop ::
  "(nat \<Rightarrow> string \<Rightarrow> 'r option) \<Rightarrow> ('r \<Rightarrow> bool) \<Rightarrow> ('r \<Rightarrow> bool) \<Rightarrow> (nat \<Rightarrow> Config option) \<Rightarrow> int \<Rightarrow> nat \<Rightarrow> nat \<Rightarrow> Config \<Rightarrow> ('r \<times> Config) option" where
  "skv_clerkLoop call good wrong query shard k q config = do {
     gid \<leftarrow> go_nth (Shards config) shard;
     case (case Groups config gid of Some srvs \<Rightarrow> skv_tryServers call good wrong k srvs | None \<Rightarrow> Inr k) of
       Inl reply \<Rightarrow> Some (reply, config)
     | Inr k' \<Rightarrow> do {
         config' \<leftarrow> query q;
         skv_clerkLoop call good wrong query shard k' (Suc q) config'
       }
   }"

record skv_Clerk =
  skc_sm :: sc_Clerk
  skc_config :: Config
  skc_me :: int
  skc_reqNo :: int

definition skv_MakeClerk :: "nat \<Rightarrow> int \<Rightarrow> int \<Rightarrow> skv_Clerk \<times> int \<times> int" where
  "skv_MakeClerk nctrlers sc_ident ident =
     (let (sm, sc_ident) = sc_MakeClerk nctrlers sc_ident
      in (\<lparr>skc_sm = sm, skc_config = Config0, skc_me = ident + 1, skc_reqNo = 0\<rparr>, sc_ident, ident + 1))"

definition skc_Get ::
  "(skv_GetArgs \<Rightarrow> nat \<Rightarrow> string \<Rightarrow> skv_GetReply option) \<Rightarrow> (nat \<Rightarrow> Config option) \<Rightarrow> string \<Rightarrow> int \<Rightarrow> skv_Clerk \<Rightarrow> (string \<times> int \<times> skv_Clerk) option" where
  "skc_Get call query key seq ck = do {
     let args = \<lparr>sg_Key = key, sg_ShardId = key2shard key, sg_ClientId = skc_me ck, sg_ReqNo = seq + 1\<rparr>;
     (reply, config) \<leftarrow> skv_clerkLoop (call args) (\<lambda>r. sgr_Err r = OK \<or> sgr_Err r = ErrNoKey) (\<lambda>r. sgr_Err r = ErrWrongGroup)
       query (key2shard key) 0 0 (skc_config ck);
     Some (sgr_Value reply, seq + 1, ck\<lparr>skc_config := config\<rparr>)
   }"

definition skc_PutAppend ::
  "(skv_PutAppendArgs \<Rightarrow> nat \<Rightarrow> string \<Rightarrow> skv_PutAppendReply option) \<Rightarrow> (nat \<Rightarrow> Config option) \<Rightarrow> string \<Rightarrow> string \<Rightarrow> string \<Rightarrow> int \<Rightarrow> skv_Clerk \<Rightarrow> (int \<times> skv_Clerk) option" where
  "skc_PutAppend call query key val op seq ck = do {
     let args = \<lparr>sp_Key = key, sp_Value = val, sp_Op = op, sp_ShardId = key2shard key, sp_ClientId = skc_me ck, sp_ReqNo = seq + 1\<rparr>;
     (reply, config) \<leftarrow> skv_clerkLoop (call args) (\<lambda>r. spr_Err r = OK) (\<lambda>r. spr_Err r = ErrWrongGroup)
       query (key2shard key) 0 0 (skc_config ck);
     Some (seq + 1, ck\<lparr>skc_config := config\<rparr>)
   }"

definition skc_Put where
  "skc_Put call query key val = skc_PutAppend call query key val ''Put''"

definition skc_Append where
  "skc_Append call query key val = skc_PutAppend call query key val ''Append''"

end
