(* ===== verification/ShardKV_Correct.thy ===== *)
theory ShardKV_Correct
  imports ShardKV Raft_Steps
begin

text \<open>
  Correctness of the sharded key/value server, for one server: what a command does when the orders
  of the maps are left out, the invariant that a server only stores keys of shards that it owns and has
  received, that a completed request never takes effect again, and snapshots. The theory \<open>ShardKV_Migrate\<close>
  is about shards that move between groups.
\<close>

lemma err_distinct [simp]:
  "ErrWrongGroup \<noteq> OK" "ErrNotReady \<noteq> OK" "ErrWrongLeader \<noteq> OK" "ErrTimeOut \<noteq> OK" "[] \<noteq> OK" "ErrNoKey \<noteq> OK"
  "OK \<noteq> ErrWrongGroup" "OK \<noteq> ErrNotReady" "OK \<noteq> []" "ErrNotReady \<noteq> ErrWrongGroup" "ErrWrongGroup \<noteq> ErrNotReady"
  by (simp_all add: OK_def ErrWrongGroup_def ErrNotReady_def ErrWrongLeader_def ErrTimeOut_def ErrNoKey_def)

section \<open>Loops over the shards of a configuration\<close>

lemma key2shard_range: "0 \<le> key2shard key" "key2shard key < NShards"
  by (simp_all add: key2shard_def NShards_def)

lemma go_enum_snoc: "go_enum (xs @ [x]) = go_enum xs @ [(len xs, x)]"
proof -
  have "[0..len (xs @ [x]) - 1] = [0..len xs - 1] @ [len xs]"
    using upto_rec2 [of 0 "len xs"] by simp
  then show ?thesis by (simp add: go_enum_def len_def)
qed

lemma set_go_enum: "(i, x) \<in> set (go_enum xs) \<longleftrightarrow> go_nth xs i = Some x"
proof (induction xs rule: rev_induct)
  case (snoc y xs)
  then show ?case
    by (auto simp: go_enum_snoc go_nth_def in_range_def nth_append len_def nat_less_iff nat_eq_iff split: if_splits)
qed (auto simp: go_enum_def go_nth_def in_range_def)

lemma fst_go_enum: "map snd (go_enum xs) = xs"
  by (simp add: go_enum_def len_def)

lemma isMigrateFinished_eq:
  "isMigrateFinished skv =
     (let un = map fst (filter (\<lambda>(shard, gid). skv_gid skv = gid \<and> \<not> mget False (skv_Shards skv) shard) (go_enum (Shards (skv_CurConfig skv))))
      in (un = [], un))"
proof -
  have "fold (\<lambda>(shard, gid) (fin, un). if P shard gid then (False, un @ [shard]) else (fin, un)) xs (b, ys) =
      (b \<and> filter (\<lambda>(s, g). P s g) xs = [], ys @ map fst (filter (\<lambda>(s, g). P s g) xs))" for P xs b ys
    by (induction xs arbitrary: b ys) auto
  from this [of "\<lambda>shard gid. skv_gid skv = gid \<and> \<not> mget False (skv_Shards skv) shard"] show ?thesis
    by (simp add: isMigrateFinished_def Let_def)
qed

text \<open>The migration is finished exactly if every shard that the configuration gives the group has been received.\<close>

lemma isMigrateFinished_iff:
  "fst (isMigrateFinished skv) \<longleftrightarrow>
     (\<forall>s. go_nth (Shards (skv_CurConfig skv)) s = Some (skv_gid skv) \<longrightarrow> mget False (skv_Shards skv) s)"
  by (auto simp: isMigrateFinished_eq Let_def filter_empty_conv set_go_enum)

lemma compareConfig_eq:
  "compareConfig nextConfig skv =
     (\<lambda>s. if mget False (skv_Shards skv) s \<and> (\<exists>g. go_nth (Shards nextConfig) s = Some g \<and> g \<noteq> skv_gid skv) then Some True else None,
      \<lambda>s. if mget False (skv_Shards skv) s \<and> go_nth (Shards nextConfig) s = Some (skv_gid skv) then Some True else None)"
proof -
  have "fold (\<lambda>(shard, gid) (outShards, keepShards).
         (if mget False (skv_Shards skv) shard \<and> skv_gid skv \<noteq> gid then outShards(shard \<mapsto> True) else outShards,
          if mget False (skv_Shards skv) shard \<and> skv_gid skv = gid then keepShards(shard \<mapsto> True) else keepShards))
       (go_enum xs) (Map.empty, Map.empty) =
     (\<lambda>s. if mget False (skv_Shards skv) s \<and> (\<exists>g. go_nth xs s = Some g \<and> g \<noteq> skv_gid skv) then Some True else None,
      \<lambda>s. if mget False (skv_Shards skv) s \<and> go_nth xs s = Some (skv_gid skv) then Some True else None)" for xs
  proof (induction xs rule: rev_induct)
    case Nil
    then show ?case by (auto simp: go_enum_def go_nth_def in_range_def fun_eq_iff)
  next
    case (snoc x xs)
    have nth: "go_nth (xs @ [x]) s = (if s = len xs then Some x else go_nth xs s)" for s
      by (auto simp: go_nth_def in_range_def nth_append len_def nat_less_iff nat_eq_iff)
    have "go_nth xs (len xs) = None" by (simp add: go_nth_def in_range_def)
    with snoc show ?case by (auto simp: go_enum_snoc nth fun_eq_iff)
  qed
  then show ?thesis by (simp add: compareConfig_def)
qed

section \<open>Commands without the orders\<close>

lemma ShiftShard_copy_eq: "range_order (ss_KVMap ssd) ord \<Longrightarrow> ShiftShard_copy ord ssd = ssd"
  by (simp add: ShiftShard_copy_def go_range_copy)

lemma ClientInfo_copy_eq:
  "range_order (CompletedReq ci) o1 \<Longrightarrow> range_order (CompletedResult ci) o2 \<Longrightarrow> ClientInfo_copy o1 o2 ci = ci"
  by (simp add: ClientInfo_copy_def go_range_copy)

lemma go_range_filter:
  "range_order m ks \<Longrightarrow> go_range ks m (\<lambda>k v t. if P k then t(k \<mapsto> v) else t) Map.empty = (\<lambda>k. if P k then m k else None)"
proof -
  have *: "(\<lambda>k v t. if P k then t(k \<mapsto> v) else t) = (\<lambda>k v (t :: _ \<rightharpoonup> _). t(k := if P k then Some v else t k))"
    by (auto simp: fun_eq_iff)
  show "range_order m ks \<Longrightarrow> ?thesis"
    unfolding * by (subst go_range_pointwise) (auto simp: fun_eq_iff split: option.split)
qed

definition mergeReq :: "ClientInfo \<Rightarrow> ClientInfo \<Rightarrow> int \<rightharpoonup> int" where
  "mergeReq info ci c = (case CompletedReq info c of None \<Rightarrow> CompletedReq ci c
     | Some req \<Rightarrow> if req > mget 0 (CompletedReq ci) c then Some req else CompletedReq ci c)"

definition mergeResult :: "ClientInfo \<Rightarrow> ClientInfo \<Rightarrow> int \<rightharpoonup> Result" where
  "mergeResult info ci c = (case CompletedReq info c of None \<Rightarrow> CompletedResult ci c
     | Some req \<Rightarrow> if req > mget 0 (CompletedReq ci) c \<or>
           (req = mget 0 (CompletedReq ci) c \<and> r_Err (mget Result0 (CompletedResult ci) c) \<noteq> OK)
         then Some (mget Result0 (CompletedResult info) c) else CompletedResult ci c)"

lemma merge_aux:
  assumes "distinct ks"
  shows "go_range ks (CompletedReq info) (\<lambda>clientId req cInfo.
       if req > mget 0 (CompletedReq cInfo) clientId
       then cInfo\<lparr>CompletedReq := (CompletedReq cInfo)(clientId \<mapsto> req),
                  CompletedResult := (CompletedResult cInfo)(clientId \<mapsto> mget Result0 (CompletedResult info) clientId)\<rparr>
       else if req = mget 0 (CompletedReq cInfo) clientId \<and> r_Err (mget Result0 (CompletedResult cInfo) clientId) \<noteq> OK
       then cInfo\<lparr>CompletedResult := (CompletedResult cInfo)(clientId \<mapsto> mget Result0 (CompletedResult info) clientId)\<rparr>
       else cInfo) ci =
     ci\<lparr>CompletedReq := (\<lambda>c. if c \<in> set ks then mergeReq info ci c else CompletedReq ci c),
        CompletedResult := (\<lambda>c. if c \<in> set ks then mergeResult info ci c else CompletedResult ci c)\<rparr>"
  using assms
proof (induction ks arbitrary: ci)
  case (Cons k ks)
  let ?f = "\<lambda>req ci. if req > mget 0 (CompletedReq ci) k
       then ci\<lparr>CompletedReq := (CompletedReq ci)(k \<mapsto> req),
                  CompletedResult := (CompletedResult ci)(k \<mapsto> mget Result0 (CompletedResult info) k)\<rparr>
       else if req = mget 0 (CompletedReq ci) k \<and> r_Err (mget Result0 (CompletedResult ci) k) \<noteq> OK
       then ci\<lparr>CompletedResult := (CompletedResult ci)(k \<mapsto> mget Result0 (CompletedResult info) k)\<rparr>
       else ci"
  have step: "(case CompletedReq info k of None \<Rightarrow> ci | Some req \<Rightarrow> ?f req ci) =
      ci\<lparr>CompletedReq := (CompletedReq ci)(k := mergeReq info ci k), CompletedResult := (CompletedResult ci)(k := mergeResult info ci k)\<rparr>"
    by (cases ci) (auto simp: mergeReq_def mergeResult_def fun_upd_idem split: option.split)
  have other: "mergeReq info (ci\<lparr>CompletedReq := (CompletedReq ci)(k := a), CompletedResult := (CompletedResult ci)(k := b)\<rparr>) c = mergeReq info ci c"
    "mergeResult info (ci\<lparr>CompletedReq := (CompletedReq ci)(k := a), CompletedResult := (CompletedResult ci)(k := b)\<rparr>) c = mergeResult info ci c"
    if "c \<noteq> k" for a b c
    using that by (auto simp: mergeReq_def mergeResult_def mget_def split: option.split)
  have "k \<notin> set ks" using Cons.prems by simp
  let ?ci = "ci\<lparr>CompletedReq := (CompletedReq ci)(k := mergeReq info ci k), CompletedResult := (CompletedResult ci)(k := mergeResult info ci k)\<rparr>"
  have "(\<lambda>c. if c \<in> set ks then mergeReq info ?ci c else CompletedReq ?ci c) = (\<lambda>c. if c \<in> set (k # ks) then mergeReq info ci c else CompletedReq ci c)"
    "(\<lambda>c. if c \<in> set ks then mergeResult info ?ci c else CompletedResult ?ci c) = (\<lambda>c. if c \<in> set (k # ks) then mergeResult info ci c else CompletedResult ci c)"
    using \<open>k \<notin> set ks\<close> by (auto simp: fun_eq_iff intro!: other)
  with Cons.IH [of ?ci] Cons.prems show ?case by (simp add: step)
qed simp

lemma merge_eq:
  assumes "range_order (CompletedReq info) ord"
  shows "merge ord info ci = ci\<lparr>CompletedReq := mergeReq info ci, CompletedResult := mergeResult info ci\<rparr>"
proof -
  have "mergeReq info ci c = CompletedReq ci c \<and> mergeResult info ci c = CompletedResult ci c" if "c \<notin> set ord" for c
    using that assms by (auto simp: range_order_def mergeReq_def mergeResult_def split: option.split)
  then have "(\<lambda>c. if c \<in> set ord then mergeReq info ci c else CompletedReq ci c) = mergeReq info ci"
    "(\<lambda>c. if c \<in> set ord then mergeResult info ci c else CompletedResult ci c) = mergeResult info ci"
    by (auto simp: fun_eq_iff)
  with merge_aux [of ord info ci] assms show ?thesis by (simp add: merge_def range_order_def)
qed

text \<open>The dock for the next configuration: per shard that leaves, the keys of this shard.\<close>

definition outDock :: "(int \<rightharpoonup> bool) \<Rightarrow> int \<Rightarrow> (string \<rightharpoonup> string) \<Rightarrow> (int \<rightharpoonup> ShiftShard)" where
  "outDock out n kv s = (if mget False out s
     then Some \<lparr>ss_ConfigNum = n, ss_ShardId = s, ss_KVMap = (\<lambda>key. if key2shard key = s then kv key else None)\<rparr> else None)"

lemma makeOutShards_loop:
  assumes "set ks \<subseteq> dom kv"
  shows "go_range ks kv (\<lambda>key val acc. do {
         m \<leftarrow> acc;
         let shard = key2shard key;
         if mget False out shard then do {
           ss \<leftarrow> m shard;
           Some (m(shard \<mapsto> ss\<lparr>ss_KVMap := (ss_KVMap ss)(key \<mapsto> val)\<rparr>))
         } else Some m
       }) (Some (outDock out n (\<lambda>key. if key \<in> K then kv key else None))) =
     Some (outDock out n (\<lambda>key. if key \<in> K \<union> set ks then kv key else None))"
  using assms
proof (induction ks arbitrary: K)
  case (Cons k ks)
  from Cons.prems obtain v where v: "kv k = Some v" by auto
  let ?m = "outDock out n (\<lambda>key. if key \<in> K then kv key else None)"
  let ?m' = "outDock out n (\<lambda>key. if key \<in> insert k K then kv key else None)"
  have "(if mget False out (key2shard k)
      then Option.bind (?m (key2shard k)) (\<lambda>ss. Some (?m(key2shard k \<mapsto> ss\<lparr>ss_KVMap := (ss_KVMap ss)(k \<mapsto> v)\<rparr>)))
      else Some ?m) = Some ?m'"
    using v by (auto simp: outDock_def fun_eq_iff)
  with v Cons.IH [of "insert k K"] Cons.prems show ?case by (simp add: Let_def Un_insert_right)
qed simp

lemma makeOutShards_eq:
  assumes "range_order out (ko_out ord)" "range_order (skv_KV skv) (ko_dock ord)" "\<forall>s. out s \<noteq> Some False"
  shows "makeOutShards ord out nextConfig skv =
    Some (skv\<lparr>OutShardsDock := (OutShardsDock skv)(Num nextConfig \<mapsto> outDock out (Num nextConfig) (skv_KV skv))\<rparr>)"
proof -
  have true: "out s = Some b \<Longrightarrow> b" for s b using assms(3) by (cases b) auto
  have start: "go_range (ko_out ord) out
      (\<lambda>shard _ m. m(shard \<mapsto> \<lparr>ss_ConfigNum = Num nextConfig, ss_ShardId = shard, ss_KVMap = Map.empty\<rparr>)) Map.empty =
    outDock out (Num nextConfig) (\<lambda>key. if key \<in> {} then skv_KV skv key else None)"
    using true go_range_pointwise [OF assms(1), of "\<lambda>s _ _. Some \<lparr>ss_ConfigNum = Num nextConfig, ss_ShardId = s, ss_KVMap = Map.empty\<rparr>"]
    by (auto simp: outDock_def fun_eq_iff mget_def split: option.split)
  have "(\<lambda>key. if key \<in> {} \<union> set (ko_dock ord) then skv_KV skv key else None) = skv_KV skv"
    using assms(2) by (auto simp: range_order_def fun_eq_iff)
  with makeOutShards_loop [of "ko_dock ord" "skv_KV skv" out "Num nextConfig" "{}"] assms(2) show ?thesis
    unfolding makeOutShards_def start Let_def by (simp add: range_order_def)
qed

definition configUpdated :: "Config \<Rightarrow> ShardKV \<Rightarrow> ShardKV" where
  "configUpdated nextConfig skv =
     (if Num nextConfig \<le> Num (skv_CurConfig skv) \<or> \<not> fst (isMigrateFinished skv) then skv
      else let (out, keep) = compareConfig nextConfig skv in
        skv\<lparr>Config2ClientInfo := (Config2ClientInfo skv)(Num nextConfig \<mapsto> skv_ClientInfo skv),
            OutShardsDock := (OutShardsDock skv)(Num nextConfig \<mapsto> outDock out (Num nextConfig) (skv_KV skv)),
            skv_Shards := keep, skv_KV := (\<lambda>key. if mget False keep (key2shard key) then skv_KV skv key else None),
            skv_LastConfig := skv_CurConfig skv, skv_CurConfig := nextConfig\<rparr>)"

definition shardAccepted :: "ShiftShard \<Rightarrow> ShardKV \<Rightarrow> ShardKV option" where
  "shardAccepted ss skv =
     (if ss_ConfigNum ss \<noteq> Num (skv_CurConfig skv) then Some skv
      else do {
        gid \<leftarrow> go_nth (Shards (skv_CurConfig skv)) (ss_ShardId ss);
        Some (if gid \<noteq> skv_gid skv \<or> mget False (skv_Shards skv) (ss_ShardId ss) then skv
          else skv\<lparr>skv_KV := skv_KV skv ++ ss_KVMap ss, skv_Shards := (skv_Shards skv)(ss_ShardId ss \<mapsto> True)\<rparr>)
      })"

definition shardsAccepted :: "skv_Op \<Rightarrow> ShardKV \<Rightarrow> ShardKV option" where
  "shardsAccepted op skv = do {
     skv \<leftarrow> run_opt shardAccepted (so_ShiftShards op) skv;
     Some (skv\<lparr>skv_ClientInfo := (skv_ClientInfo skv)\<lparr>CompletedReq := mergeReq (so_ClientInfo op) (skv_ClientInfo skv),
                 CompletedResult := mergeResult (so_ClientInfo op) (skv_ClientInfo skv)\<rparr>\<rparr>)
   }"

text \<open>The orders that Go may take in a command.\<close>

definition skv_orders_ok :: "skv_orders \<Rightarrow> skv_Op \<Rightarrow> ShardKV \<Rightarrow> bool" where
  "skv_orders_ok ord op skv \<longleftrightarrow>
     (case so_OpType op of
        CONFIG \<Rightarrow> range_order (CompletedReq (skv_ClientInfo skv)) (ko_req ord) \<and>
          range_order (CompletedResult (skv_ClientInfo skv)) (ko_res ord) \<and>
          range_order (fst (compareConfig (so_Config op) skv)) (ko_out ord) \<and>
          range_order (skv_KV skv) (ko_dock ord) \<and> range_order (skv_KV skv) (ko_keep ord)
      | SHARDS \<Rightarrow> (\<forall>i < length (so_ShiftShards op). range_order (ss_KVMap (so_ShiftShards op ! i)) (ko_in ord i)) \<and>
          range_order (CompletedReq (so_ClientInfo op)) (ko_info ord)
      | _ \<Rightarrow> True)"

lemma doUpdateConfig_eq:
  assumes "so_OpType op = CONFIG" "skv_orders_ok ord op skv"
  shows "doUpdateConfig ord (so_Config op) skv = Some (configUpdated (so_Config op) skv)"
proof -
  have o: "range_order (CompletedReq (skv_ClientInfo skv)) (ko_req ord)" "range_order (CompletedResult (skv_ClientInfo skv)) (ko_res ord)"
    "range_order (fst (compareConfig (so_Config op) skv)) (ko_out ord)"
    "range_order (skv_KV skv) (ko_dock ord)" "range_order (skv_KV skv) (ko_keep ord)"
    using assms by (simp_all add: skv_orders_ok_def)
  obtain out keep where cmp: "compareConfig (so_Config op) skv = (out, keep)" by fastforce
  then have "\<forall>s. out s \<noteq> Some False" by (auto simp: compareConfig_eq split: if_splits)
  moreover have "range_order out (ko_out ord)" using o(3) cmp by simp
  ultimately show ?thesis
    using cmp o(1,2,4,5)
    by (simp add: doUpdateConfig_def configUpdated_def Let_def ClientInfo_copy_eq makeOutShards_eq go_range_filter)
qed

lemma acceptShard_eq: "range_order (ss_KVMap ss) ord \<Longrightarrow> acceptShard ord ss skv = shardAccepted ss skv"
proof -
  have "go_range ord m (\<lambda>key val t. t(key \<mapsto> val)) kv = kv ++ m" if "range_order m ord" for m kv :: "string \<rightharpoonup> string"
    using go_range_pointwise [OF that, of "\<lambda>k v _. Some v" kv] by (simp add: map_add_def)
  then show "range_order (ss_KVMap ss) ord \<Longrightarrow> ?thesis"
    by (cases "go_nth (Shards (skv_CurConfig skv)) (ss_ShardId ss)") (auto simp: acceptShard_def shardAccepted_def Let_def)
qed

lemma acceptShards_loop:
  "\<forall>i < length xs. range_order (ss_KVMap (xs ! i)) (f (n + i)) \<Longrightarrow>
   fold (\<lambda>(i, ss) acc. do { skv \<leftarrow> acc; acceptShard (f i) ss skv }) (zip [n..<n + length xs] xs) acc =
   Option.bind acc (run_opt shardAccepted xs)"
proof (induction xs arbitrary: n acc)
  case (Cons x xs)
  have "range_order (ss_KVMap x) (f n)" using Cons.prems by (metis add_0_right length_greater_0_conv list.discI nth_Cons_0)
  moreover have "\<forall>i < length xs. range_order (ss_KVMap (xs ! i)) (f (Suc n + i))"
    using Cons.prems by fastforce
  moreover have "[n..<n + length (x # xs)] = n # [Suc n..<Suc n + length xs]" using upt_conv_Cons [of n "n + length (x # xs)"] by simp
  ultimately show ?case
    using Cons.IH [of "Suc n"] by (cases acc) (simp_all add: acceptShard_eq)
next
  case Nil
  then show ?case by (cases acc) simp_all
qed

lemma acceptShards_eq:
  assumes "so_OpType op = SHARDS" "skv_orders_ok ord op skv"
  shows "acceptShards ord op skv = shardsAccepted op skv"
proof -
  have "\<forall>i < length (so_ShiftShards op). range_order (ss_KVMap (so_ShiftShards op ! i)) (ko_in ord (0 + i))"
    "range_order (CompletedReq (so_ClientInfo op)) (ko_info ord)"
    using assms by (simp_all add: skv_orders_ok_def)
  from acceptShards_loop [OF this(1), of "Some skv"] merge_eq [OF this(2)] show ?thesis
    by (simp add: acceptShards_def shardsAccepted_def)
qed

definition skv_exec0 :: "skv_Op \<Rightarrow> ShardKV \<Rightarrow> (ShardKV \<times> (nat \<times> Result) option) option" where
  "skv_exec0 op skv =
     (case so_OpType op of
        CONFIG \<Rightarrow> Some (configUpdated (so_Config op) skv, None)
      | SHARDS \<Rightarrow> map_option (\<lambda>skv. (skv, None)) (shardsAccepted op skv)
      | _ \<Rightarrow> if skv_dup (so_ClientId op) (so_ReqNo op) skv then Some (skv, None) else doOperation op skv)"

lemma skv_exec_eq: "skv_orders_ok ord op skv \<Longrightarrow> skv_exec ord op skv = skv_exec0 op skv"
  by (cases "so_OpType op") (auto simp: skv_exec_def skv_exec0_def doUpdateConfig_eq acceptShards_eq skv_dup_def)

section \<open>Requests\<close>

definition client_op :: "skv_Op \<Rightarrow> bool" where
  "client_op op \<longleftrightarrow> so_OpType op \<in> {GET, PUT, APPEND}"

definition op_shard :: "skv_Op \<Rightarrow> int" where
  "op_shard op = (if so_OpType op = GET then sg_ShardId (so_GetArg op) else sp_ShardId (so_PutAppendArg op))"

definition op_key :: "skv_Op \<Rightarrow> string" where
  "op_key op = (if so_OpType op = GET then sg_Key (so_GetArg op) else sp_Key (so_PutAppendArg op))"

text \<open>What a request means to the map: Get reads, Put writes, Append appends.\<close>

definition op_write :: "skv_Op \<Rightarrow> (string \<rightharpoonup> string) \<Rightarrow> (string \<rightharpoonup> string)" where
  "op_write op kv = (case so_OpType op of
     PUT \<Rightarrow> kv(op_key op \<mapsto> sp_Value (so_PutAppendArg op))
   | APPEND \<Rightarrow> kv(op_key op \<mapsto> mget [] kv (op_key op) @ sp_Value (so_PutAppendArg op))
   | _ \<Rightarrow> kv)"

definition op_value :: "skv_Op \<Rightarrow> (string \<rightharpoonup> string) \<Rightarrow> string" where
  "op_value op kv = (if so_OpType op = GET then mget [] kv (op_key op) else [])"

definition op_err :: "skv_Op \<Rightarrow> ShardKV \<Rightarrow> string" where
  "op_err op skv = (if go_nth (Shards (skv_CurConfig skv)) (op_shard op) \<noteq> Some (skv_gid skv) then ErrWrongGroup
     else if \<not> mget False (skv_Shards skv) (op_shard op) then ErrNotReady else OK)"

definition completedInfo :: "skv_Op \<Rightarrow> string \<Rightarrow> ClientInfo \<Rightarrow> ClientInfo" where
  "completedInfo op err info = info\<lparr>CompletedReq := (CompletedReq info)(so_ClientId op \<mapsto> so_ReqNo op),
     CompletedResult := (CompletedResult info)(so_ClientId op \<mapsto> Result0\<lparr>r_Err := err\<rparr>)\<rparr>"

lemma doOperation_eq:
  assumes "client_op op" "in_range (Shards (skv_CurConfig skv)) (op_shard op)"
  shows "doOperation op skv =
    Some (skv\<lparr>skv_KV := (if op_err op skv = OK then op_write op (skv_KV skv) else skv_KV skv),
              skv_ClientInfo := completedInfo op (op_err op skv) (skv_ClientInfo skv)\<rparr>,
          map_option (\<lambda>ch. (ch, \<lparr>r_Err = op_err op skv, r_Value = (if op_err op skv = OK then op_value op (skv_KV skv) else []),
              r_ClientId = so_ClientId op, r_ReqNo = so_ReqNo op\<rparr>)) (CompletedChan skv (so_ClientId op)))"
  using assms
  by (cases "so_OpType op")
    (auto simp: client_op_def doOperation_def op_shard_def op_key_def op_write_def op_value_def op_err_def completedInfo_def go_nth_def Let_def)

lemma doOperation_None: "client_op op \<Longrightarrow> \<not> in_range (Shards (skv_CurConfig skv)) (op_shard op) \<Longrightarrow> doOperation op skv = None"
  by (cases "so_OpType op") (auto simp: client_op_def doOperation_def op_shard_def go_nth_def Let_def)

section \<open>The invariant\<close>

text \<open>
  A server stores a key only if it has received the shard of the key, and it has received only shards
  that its configuration gives to its group. What is docked for a configuration carries its
  number and the keys of its shard only, and is not from the future.
\<close>

definition shift_ok :: "ShiftShard \<Rightarrow> bool" where
  "shift_ok ss \<longleftrightarrow> (\<forall>key \<in> dom (ss_KVMap ss). key2shard key = ss_ShardId ss)"

definition store_ok :: "int \<Rightarrow> Config \<Rightarrow> (int \<rightharpoonup> bool) \<Rightarrow> (string \<rightharpoonup> string) \<Rightarrow> bool" where
  "store_ok gid cfg shards kv \<longleftrightarrow> len (Shards cfg) = NShards \<and>
     (\<forall>key. kv key \<noteq> None \<longrightarrow> mget False shards (key2shard key)) \<and>
     (\<forall>s. mget False shards s \<longrightarrow> go_nth (Shards cfg) s = Some gid)"

definition dock_ok :: "int \<Rightarrow> (int \<rightharpoonup> (int \<rightharpoonup> ShiftShard)) \<Rightarrow> bool" where
  "dock_ok num docks \<longleftrightarrow> (\<forall>n dock. docks n = Some dock \<longrightarrow> n \<le> num \<and>
     (\<forall>s ss. dock s = Some ss \<longrightarrow> ss_ConfigNum ss = n \<and> ss_ShardId ss = s \<and> shift_ok ss))"

definition skv_inv :: "ShardKV \<Rightarrow> bool" where
  "skv_inv skv \<longleftrightarrow> store_ok (skv_gid skv) (skv_CurConfig skv) (skv_Shards skv) (skv_KV skv) \<and>
     dock_ok (Num (skv_CurConfig skv)) (OutShardsDock skv)"

text \<open>Commands as the clerks, the controller and the groups make them.\<close>

definition op_ok :: "skv_Op \<Rightarrow> bool" where
  "op_ok op \<longleftrightarrow> (case so_OpType op of
     CONFIG \<Rightarrow> len (Shards (so_Config op)) = NShards
   | SHARDS \<Rightarrow> \<forall>ss \<in> set (so_ShiftShards op). shift_ok ss \<and> 0 \<le> ss_ShardId ss \<and> ss_ShardId ss < NShards
   | _ \<Rightarrow> op_shard op = key2shard (op_key op))"

lemma outDock_ok: "outDock out n kv s = Some ss \<Longrightarrow> ss_ConfigNum ss = n \<and> ss_ShardId ss = s \<and> shift_ok ss"
  by (auto simp: outDock_def shift_ok_def split: if_splits)

lemma dock_ok_upd: "dock_ok num docks \<Longrightarrow> num \<le> n \<Longrightarrow> dock_ok n (docks(n \<mapsto> outDock out n kv))"
  using outDock_ok [of out n kv] by (fastforce simp: dock_ok_def)

lemma configUpdated_inv:
  assumes inv: "skv_inv skv" and len: "len (Shards nextConfig) = NShards"
  shows "skv_inv (configUpdated nextConfig skv)"
proof (cases "Num nextConfig \<le> Num (skv_CurConfig skv) \<or> \<not> fst (isMigrateFinished skv)")
  case True
  then show ?thesis using inv by (simp add: configUpdated_def)
next
  case False
  obtain out keep where cmp: "compareConfig nextConfig skv = (out, keep)" by fastforce
  have "mget False keep s \<Longrightarrow> go_nth (Shards nextConfig) s = Some (skv_gid skv)" for s
    using cmp by (auto simp: compareConfig_eq mget_def split: if_splits)
  then have "store_ok (skv_gid skv) nextConfig keep (\<lambda>key. if mget False keep (key2shard key) then skv_KV skv key else None)"
    using len by (auto simp: store_ok_def split: if_splits)
  moreover have "dock_ok (Num nextConfig) ((OutShardsDock skv)(Num nextConfig \<mapsto> outDock out (Num nextConfig) (skv_KV skv)))"
    using inv False by (intro dock_ok_upd [of "Num (skv_CurConfig skv)"]) (simp_all add: skv_inv_def)
  ultimately show ?thesis using False cmp by (simp add: skv_inv_def configUpdated_def)
qed

lemma store_ok_accept:
  assumes "store_ok gid cfg shards kv" "shift_ok ss" "go_nth (Shards cfg) (ss_ShardId ss) = Some gid"
  shows "store_ok gid cfg (shards(ss_ShardId ss \<mapsto> True)) (kv ++ ss_KVMap ss)"
  using assms by (auto simp: store_ok_def shift_ok_def map_add_def split: option.splits)

lemma shardAccepted_inv:
  assumes inv: "skv_inv skv" and ss: "shift_ok ss" and run: "shardAccepted ss skv = Some skv'"
  shows "skv_inv skv'"
  using run inv ss store_ok_accept [of "skv_gid skv" "skv_CurConfig skv" "skv_Shards skv" "skv_KV skv" ss]
  by (auto simp: shardAccepted_def skv_inv_def Option.bind_eq_Some_conv split: if_splits)

lemma shardsAccepted_inv:
  assumes "skv_inv skv" "\<forall>ss \<in> set (so_ShiftShards op). shift_ok ss" "shardsAccepted op skv = Some skv'"
  shows "skv_inv skv'"
proof -
  have "run_opt shardAccepted xs s = Some s' \<Longrightarrow> skv_inv s \<Longrightarrow> \<forall>ss \<in> set xs. shift_ok ss \<Longrightarrow> skv_inv s'" for xs s s'
    by (induction xs arbitrary: s) (auto simp: Option.bind_eq_Some_conv dest: shardAccepted_inv)
  with assms show ?thesis by (fastforce simp: shardsAccepted_def Option.bind_eq_Some_conv skv_inv_def)
qed

lemma doOperation_inv:
  assumes inv: "skv_inv skv" and op: "client_op op" "op_shard op = key2shard (op_key op)"
    and run: "doOperation op skv = Some (skv', sent)"
  shows "skv_inv skv'"
proof -
  have "in_range (Shards (skv_CurConfig skv)) (op_shard op)"
    using inv key2shard_range [of "op_key op"] op(2) by (simp add: skv_inv_def store_ok_def in_range_def)
  note eq = doOperation_eq [OF op(1) this]
  have "store_ok (skv_gid skv) (skv_CurConfig skv) (skv_Shards skv) (op_write op (skv_KV skv))" if "op_err op skv = OK"
    using that inv op(2) by (auto simp: skv_inv_def store_ok_def op_write_def op_err_def split: if_splits skv_OpType.splits)
  with run inv show ?thesis unfolding eq by (auto simp: skv_inv_def)
qed

lemma skv_exec0_inv:
  assumes "skv_inv skv" "op_ok op" "skv_exec0 op skv = Some (skv', sent)"
  shows "skv_inv skv'"
  using assms configUpdated_inv [OF assms(1), of "so_Config op"] shardsAccepted_inv [OF assms(1), of op] doOperation_inv [OF assms(1), of op]
  by (cases "so_OpType op") (auto simp: skv_exec0_def op_ok_def client_op_def split: if_splits)

section \<open>Deliveries\<close>

text \<open>Messages from Raft, each with the orders that Go takes in it; those of commands are applied one after the other.\<close>

type_synonym skv_delivery = "skv_orders \<times> (skv_Op, skv_gob) ApplyMsg"

definition skv_applyAll :: "skv_delivery list \<Rightarrow> ShardKV \<Rightarrow> ShardKV option" where
  "skv_applyAll = run_opt (\<lambda>(ord, am) skv. map_option fst (skv_applyLog ord am skv))"

definition command_of :: "skv_Op \<Rightarrow> (skv_Op, skv_gob) ApplyMsg \<Rightarrow> bool" where
  "command_of op am \<longleftrightarrow> am_CommandValid am \<and> am_Command am = Some op"

fun skv_deliverable :: "skv_delivery list \<Rightarrow> ShardKV \<Rightarrow> bool" where
  "skv_deliverable [] skv \<longleftrightarrow> True"
| "skv_deliverable ((ord, am) # ps) skv \<longleftrightarrow>
     am_CommandValid am \<and> am_Command am \<noteq> None \<and>
     skv_orders_ok ord (the (am_Command am)) skv \<and> op_ok (the (am_Command am)) \<and>
     (case skv_applyLog ord am skv of None \<Rightarrow> True | Some (skv', _) \<Rightarrow> skv_deliverable ps skv')"

lemma skv_applyLog_command:
  assumes "am_CommandValid am" "am_Command am = Some op" "skv_orders_ok ord op skv"
  shows "skv_applyLog ord am skv = map_option (\<lambda>(skv', sent).
    (skv'\<lparr>skv_CommitedId := max (skv_CommitedId skv') (am_CommandIndex am)\<rparr>, sent)) (skv_exec0 op skv)"
  using assms by (cases "skv_exec0 op skv") (auto simp: skv_applyLog_def skv_exec_eq max_int_def)

text \<open>What every command keeps, every list of deliveries keeps.\<close>

lemma skv_applyAll_keeps:
  assumes run: "skv_applyAll ps skv = Some skv'" and del: "skv_deliverable ps skv" and init: "P skv"
    and step: "\<And>op s s' sent. P s \<Longrightarrow> op_ok op \<Longrightarrow> skv_exec0 op s = Some (s', sent) \<Longrightarrow> P s'"
    and commit: "\<And>s i. P s \<Longrightarrow> P (s\<lparr>skv_CommitedId := i\<rparr>)"
  shows "P skv'"
  using run del init
proof (induction ps arbitrary: skv)
  case (Cons p ps)
  obtain ord am where p: "p = (ord, am)" by (cases p)
  from Cons.prems(2) obtain op where op: "am_CommandValid am" "am_Command am = Some op" "skv_orders_ok ord op skv" "op_ok op"
    by (auto simp: p)
  from Cons.prems(1) obtain s1 sent where s1: "skv_applyLog ord am skv = Some (s1, sent)" "skv_applyAll ps s1 = Some skv'"
    by (auto simp: p skv_applyAll_def Option.bind_eq_Some_conv)
  from s1(1) have "P s1" using step [OF Cons.prems(3) op(4)] commit by (auto simp: skv_applyLog_command [OF op(1-3)])
  with Cons s1 show ?case by (auto simp: p)
qed (simp add: skv_applyAll_def)

section \<open>At most once\<close>

lemma configUpdated_simps [simp]:
  "skv_ClientInfo (configUpdated nextConfig skv) = skv_ClientInfo skv"
  "skv_gid (configUpdated nextConfig skv) = skv_gid skv"
  by (simp_all add: configUpdated_def case_prod_beta Let_def)

lemma shardAccepted_info: "shardAccepted ss skv = Some skv' \<Longrightarrow> skv_ClientInfo skv' = skv_ClientInfo skv \<and>
    skv_CurConfig skv' = skv_CurConfig skv \<and> skv_gid skv' = skv_gid skv \<and> OutShardsDock skv' = OutShardsDock skv \<and> Config2ClientInfo skv' = Config2ClientInfo skv"
  by (auto simp: shardAccepted_def Option.bind_eq_Some_conv split: if_splits)

lemma run_shardAccepted_info:
  "run_opt shardAccepted xs skv = Some skv' \<Longrightarrow> skv_ClientInfo skv' = skv_ClientInfo skv \<and>
    skv_CurConfig skv' = skv_CurConfig skv \<and> skv_gid skv' = skv_gid skv \<and> OutShardsDock skv' = OutShardsDock skv \<and> Config2ClientInfo skv' = Config2ClientInfo skv"
  by (induction xs arbitrary: skv) (fastforce simp: Option.bind_eq_Some_conv dest: shardAccepted_info)+

text \<open>Merging keeps what is completed on either side.\<close>

definition info_done :: "int \<Rightarrow> int \<Rightarrow> ClientInfo \<Rightarrow> bool" where
  "info_done c r info \<longleftrightarrow> r < mget 0 (CompletedReq info) c \<or>
     (r = mget 0 (CompletedReq info) c \<and> r_Err (mget Result0 (CompletedResult info) c) = OK)"

definition mergedInfo :: "ClientInfo \<Rightarrow> ClientInfo \<Rightarrow> ClientInfo" where
  "mergedInfo info ci = ci\<lparr>CompletedReq := mergeReq info ci, CompletedResult := mergeResult info ci\<rparr>"

lemma skv_dup_info: "skv_dup c r skv = info_done c r (skv_ClientInfo skv)"
  by (simp add: skv_dup_def info_done_def)

lemma merged_own: "info_done c r ci \<Longrightarrow> info_done c r (mergedInfo info ci)"
  by (auto simp: info_done_def mergedInfo_def mergeReq_def mergeResult_def mget_def split: option.splits if_splits)

lemma merged_other: "0 < r \<Longrightarrow> info_done c r info \<Longrightarrow> info_done c r (mergedInfo info ci)"
  by (auto simp: info_done_def mergedInfo_def mergeReq_def mergeResult_def mget_def Result0_def split: option.splits if_splits)

lemma shardsAccepted_eq:
  "shardsAccepted op skv = map_option (\<lambda>s. s\<lparr>skv_ClientInfo := mergedInfo (so_ClientInfo op) (skv_ClientInfo skv)\<rparr>)
     (run_opt shardAccepted (so_ShiftShards op) skv)"
  by (cases "run_opt shardAccepted (so_ShiftShards op) skv")
    (auto simp: shardsAccepted_def mergedInfo_def dest: run_shardAccepted_info)

lemma doOperation_info:
  assumes "client_op op" "doOperation op skv = Some (skv', sent)"
  shows "skv_ClientInfo skv' = completedInfo op (op_err op skv) (skv_ClientInfo skv)"
proof -
  have "in_range (Shards (skv_CurConfig skv)) (op_shard op)" using assms doOperation_None by fastforce
  from doOperation_eq [OF assms(1) this] assms(2) show ?thesis by simp
qed

lemma completedInfo_done:
  "info_done c r info \<Longrightarrow> \<not> info_done (so_ClientId op) (so_ReqNo op) info \<Longrightarrow> info_done c r (completedInfo op err info)"
  "err = OK \<Longrightarrow> info_done (so_ClientId op) (so_ReqNo op) (completedInfo op err info)"
  by (auto simp: info_done_def completedInfo_def)

lemma skv_exec0_dup:
  assumes "skv_dup c r skv" "skv_exec0 op skv = Some (skv', sent)"
  shows "skv_dup c r skv'"
proof (cases "client_op op")
  case True
  show ?thesis
  proof (cases "skv_dup (so_ClientId op) (so_ReqNo op) skv")
    case dup: False
    have "doOperation op skv = Some (skv', sent)"
      using assms(2) True dup by (auto simp: skv_exec0_def client_op_def)
    from doOperation_info [OF True this] assms(1) dup show ?thesis by (simp add: skv_dup_info completedInfo_done(1))
  qed (use assms True in \<open>auto simp: skv_exec0_def client_op_def\<close>)
next
  case False
  then have "so_OpType op = CONFIG \<or> so_OpType op = SHARDS" by (cases "so_OpType op") (simp_all add: client_op_def)
  with assms show ?thesis
    by (auto simp: skv_exec0_def shardsAccepted_eq skv_dup_info merged_own)
qed

text \<open>
  C20: at most once. Once a group has applied a request successfully, no request of the same client with
  the same number ever changes its state again, whatever commands, configurations and shards it applies in between.
\<close>

theorem skv_at_most_once:
  assumes op: "client_op op" "client_op op'" "so_ClientId op' = so_ClientId op" "so_ReqNo op' = so_ReqNo op"
    and exec: "skv_exec ord op s = Some (s1, sent)" "op_err op s = OK \<or> skv_dup (so_ClientId op) (so_ReqNo op) s"
    and later: "skv_deliverable ps s1" "skv_applyAll ps s1 = Some s2"
  shows "skv_exec ord' op' s2 = Some (s2, None)"
proof -
  have triv: "skv_orders_ok ord op' s" if "client_op op'" for ord op' s
    using that by (auto simp: skv_orders_ok_def client_op_def)
  have "skv_dup (so_ClientId op) (so_ReqNo op) s1"
  proof (cases "skv_dup (so_ClientId op) (so_ReqNo op) s")
    case True
    then show ?thesis using exec(1) op(1) by (auto simp: skv_exec_eq [OF triv] skv_exec0_def client_op_def)
  next
    case False
    then have "doOperation op s = Some (s1, sent)" using exec(1) op(1) by (auto simp: skv_exec_eq [OF triv] skv_exec0_def client_op_def)
    from doOperation_info [OF op(1) this] False exec(2) show ?thesis by (simp add: skv_dup_info completedInfo_done(2))
  qed
  then have "skv_dup (so_ClientId op) (so_ReqNo op) s2"
    using skv_applyAll_keeps [OF later(2,1), of "skv_dup (so_ClientId op) (so_ReqNo op)"] skv_exec0_dup by (simp add: skv_dup_def)
  with op show ?thesis by (auto simp: skv_exec_eq [OF triv] skv_exec0_def client_op_def)
qed

section \<open>Reachable states\<close>

text \<open>The steps of a server, its Raft peer included, between two restarts.\<close>

inductive skv_step :: "ShardKV \<Rightarrow> ShardKV \<Rightarrow> bool" where
  apply_command: "skv_deliverable [(ord, am)] skv \<Longrightarrow> skv_applyLog ord am skv = Some (skv', sent) \<Longrightarrow> skv_step skv skv'"
| install: "skv_inv other \<Longrightarrow> skv_gid other = skv_gid skv \<Longrightarrow> \<not> am_CommandValid am \<Longrightarrow> am_Snapshot am = skv_stream (skv_save other) \<Longrightarrow>
    skv_applyLog ord am skv = Some (skv', sent) \<Longrightarrow> skv_step skv skv'"
| get: "skv_Get c gargs skv = Some (skv', r) \<Longrightarrow> skv_step skv skv'"
| get_finish: "skv_step skv (fst (skv_Get_finish res gargs skv))"
| put: "skv_PutAppend c pargs skv = Some (skv', r') \<Longrightarrow> skv_step skv skv'"
| put_finish: "skv_step skv (fst (skv_PutAppend_finish res pargs skv))"
| update: "updateConfig query skv = Some skv' \<Longrightarrow> skv_step skv skv'"
| hello: "skv_step skv (sayHello_end hord cord nums skv)"
| snap: "skv_Snapshot size_of skv = Some skv' \<Longrightarrow> skv_step skv skv'"
| raft: "skv_step skv (skv\<lparr>skv_rf := rf\<rparr>)"
| kill: "skv_step skv (skv_Kill skv)"

interpretation skv_codec: codec skv_stream skv_decode
  by unfold_locales (simp_all add: skv_stream_def skv_decode_def Encode_def)

lemma skv_inv_cong:
  assumes "skv_inv skv" "skv_gid skv' = skv_gid skv" "skv_CurConfig skv' = skv_CurConfig skv" "skv_Shards skv' = skv_Shards skv"
    "skv_KV skv' = skv_KV skv" "OutShardsDock skv' \<subseteq>\<^sub>m OutShardsDock skv"
  shows "skv_inv skv'"
proof -
  have "OutShardsDock skv n = Some d" if "OutShardsDock skv' n = Some d" for n d
    using assms(6) that by (force simp: map_le_def)
  then have "dock_ok (Num (skv_CurConfig skv)) (OutShardsDock skv')"
    using assms(1) unfolding skv_inv_def dock_ok_def by blast
  with assms show ?thesis by (simp add: skv_inv_def)
qed

lemma go_range_delete: "go_range ks m (\<lambda>k _ t. t(k := None)) t0 \<subseteq>\<^sub>m t0"
proof (induction ks arbitrary: t0)
  case (Cons k ks)
  have "t0(k := None) \<subseteq>\<^sub>m t0" by (auto simp: map_le_def)
  with Cons [of t0] Cons [of "t0(k := None)"] show ?case by (cases "m k") (auto intro: map_le_trans simp del: fun_upd_apply)
qed simp

lemma skv_step_inv: "skv_step skv skv' \<Longrightarrow> skv_inv skv \<Longrightarrow> skv_inv skv'"
proof (induction rule: skv_step.induct)
  case (apply_command ord am skv skv' sent)
  then obtain op where op: "am_CommandValid am" "am_Command am = Some op" "skv_orders_ok ord op skv" "op_ok op" by auto
  from apply_command(2) obtain s1 where "skv_exec0 op skv = Some (s1, sent)" "skv' = s1\<lparr>skv_CommitedId := max (skv_CommitedId s1) (am_CommandIndex am)\<rparr>"
    unfolding skv_applyLog_command [OF op(1-3)] by auto
  with skv_exec0_inv [OF apply_command(3) op(4)] show ?case by (simp add: skv_inv_def)
next
  case (install other skv am ord skv' sent)
  then show ?case
    by (auto simp: skv_applyLog_def skv_ReadSnapshot_def skv_codec.dec_enc skv_codec.enc_not_Nil Option.bind_eq_Some_conv
        skv_restore_def skv_save_def skv_inv_def split: if_splits)
next
  case (hello skv hord cord nums)
  have "OutShardsDock (sayHello_end hord cord nums skv) \<subseteq>\<^sub>m OutShardsDock skv"
    by (simp add: sayHello_end_def clean_def Let_def go_range_delete)
  with hello show ?case by (auto intro!: skv_inv_cong [OF hello] simp: sayHello_end_def clean_def Let_def)
qed (auto simp: skv_Get_def skv_Get_finish_def skv_PutAppend_def skv_PutAppend_finish_def updateConfig_def skv_Snapshot_def skv_Kill_def
      Let_def Option.bind_eq_Some_conv skv_inv_def split: if_splits)

definition skv_start :: "env \<Rightarrow> nat \<Rightarrow> int \<Rightarrow> int \<Rightarrow> int \<Rightarrow> ShardKV \<Rightarrow> bool" where
  "skv_start ev n i maxstate gid skv \<longleftrightarrow> (\<exists>nctrlers ident ident'. skv_StartServer ev n i MakePersister maxstate gid nctrlers ident = Some (skv, ident'))"

lemma skv_start_inv: "skv_start ev n i maxstate gid skv \<Longrightarrow> skv_inv skv"
  by (auto simp: skv_start_def skv_StartServer_def skv_ReadSnapshot_def ReadSnapshot_def MakePersister_def clone_def sc_MakeClerk_def
      skv_inv_def store_ok_def dock_ok_def Config0_def NShards_def len_def mget_def)

lemma skv_reach_inv: "skv_start ev n i maxstate gid start \<Longrightarrow> skv_step\<^sup>*\<^sup>* start skv \<Longrightarrow> skv_inv skv"
  by (rotate_tac, induction rule: rtranclp_induct) (auto intro: skv_start_inv skv_step_inv)

text \<open>
  C19: a server stores only its own keys. In every state that a server can reach from its first start by
  applying commands, installing snapshots of its group, serving clients and groups, cleaning up and
  whatever its Raft peer does: the configuration gives its group the shard of every key it stores, the
  shard has been received, and what it keeps for other groups is filed under its configuration and shard.
\<close>

theorem skv_stores_own_keys:
  assumes "skv_start ev n i maxstate gid start" "skv_step\<^sup>*\<^sup>* start skv"
  shows "(\<forall>key. skv_KV skv key \<noteq> None \<longrightarrow> mget False (skv_Shards skv) (key2shard key) \<and>
      go_nth (Shards (skv_CurConfig skv)) (key2shard key) = Some (skv_gid skv)) \<and>
    (\<forall>num dock s ss key. OutShardsDock skv num = Some dock \<and> dock s = Some ss \<and> ss_KVMap ss key \<noteq> None \<longrightarrow>
      num \<le> Num (skv_CurConfig skv) \<and> ss_ConfigNum ss = num \<and> ss_ShardId ss = s \<and> key2shard key = s)"
proof -
  have "skv_inv skv" using assms by (rule skv_reach_inv)
  then have store: "store_ok (skv_gid skv) (skv_CurConfig skv) (skv_Shards skv) (skv_KV skv)"
    and dock: "dock_ok (Num (skv_CurConfig skv)) (OutShardsDock skv)" by (simp_all add: skv_inv_def)
  show ?thesis
  proof (intro conjI allI impI)
    fix num dock s ss key
    assume a: "OutShardsDock skv num = Some dock \<and> dock s = Some ss \<and> ss_KVMap ss key \<noteq> None"
    with dock show "num \<le> Num (skv_CurConfig skv)" "ss_ConfigNum ss = num" "ss_ShardId ss = s"
      unfolding dock_ok_def by blast+
    from a dock have "shift_ok ss" unfolding dock_ok_def by blast
    with a \<open>ss_ShardId ss = s\<close> show "key2shard key = s" by (auto simp: shift_ok_def)
  qed (use store in \<open>auto simp: store_ok_def\<close>)
qed

text \<open>A group with all shards: it starts, takes its first configuration and its shards, and applies an Append.\<close>

definition skv_demo_config :: Config where
  "skv_demo_config = \<lparr>Num = 1, Shards = replicate 10 1, Groups = [1 \<mapsto> [''a'']]\<rparr>"

definition skv_demo_ord :: skv_orders where
  "skv_demo_ord = \<lparr>ko_req = [], ko_res = [], ko_out = [], ko_dock = [], ko_keep = [], ko_in = (\<lambda>_. []), ko_info = []\<rparr>"

definition skv_demo_shards :: skv_Op where
  "skv_demo_shards = (skv_Op0 SHARDS)\<lparr>so_ShiftShards := map (\<lambda>s. \<lparr>ss_ConfigNum = 1, ss_ShardId = s, ss_KVMap = Map.empty\<rparr>) [0..9]\<rparr>"

definition skv_demo_append :: skv_Op where
  "skv_demo_append = (skv_Op0 APPEND)\<lparr>so_ClientId := 3, so_ReqNo := 1,
     so_PutAppendArg := \<lparr>sp_Key = ''k'', sp_Value = ''v'', sp_Op = ''Append'', sp_ShardId = 7, sp_ClientId = 3, sp_ReqNo = 1\<rparr>\<rparr>"

definition skv_demo_msg :: "skv_Op \<Rightarrow> (skv_Op, skv_gob) ApplyMsg" where
  "skv_demo_msg op = \<lparr>am_CommandValid = True, am_Command = Some op, am_CommandIndex = 1, am_SnapshotValid = False,
     am_Snapshot = [], am_SnapshotTerm = 0, am_SnapshotIndex = 0\<rparr>"

definition skv_demo0 :: ShardKV where
  "skv_demo0 = fst (the (skv_StartServer \<lparr>now = 0, rnd = 0\<rparr> 3 0 MakePersister (-1) 1 3 0))"

definition skv_demo_apply :: "skv_Op \<Rightarrow> ShardKV \<Rightarrow> ShardKV" where
  "skv_demo_apply op skv = fst (the (skv_applyLog skv_demo_ord (skv_demo_msg op) skv))"

definition skv_demo2 :: ShardKV where
  "skv_demo2 = skv_demo_apply skv_demo_shards (skv_demo_apply ((skv_Op0 CONFIG)\<lparr>so_Config := skv_demo_config\<rparr>) skv_demo0)"

lemma skv_demo_start: "skv_start \<lparr>now = 0, rnd = 0\<rparr> 3 0 (-1) 1 skv_demo0"
  by (auto simp: skv_start_def skv_demo0_def skv_StartServer_def skv_ReadSnapshot_def ReadSnapshot_def MakePersister_def clone_def sc_MakeClerk_def)

lemma skv_demo0_empty:
  "skv_ClientInfo skv_demo0 = ClientInfo0" "skv_Shards skv_demo0 = Map.empty" "skv_KV skv_demo0 = Map.empty"
  by (simp_all add: skv_demo0_def skv_StartServer_def skv_ReadSnapshot_def ReadSnapshot_def MakePersister_def clone_def sc_MakeClerk_def)

lemma skv_demo_step:
  assumes "skv_orders_ok skv_demo_ord op skv" "op_ok op" "skv_applyLog skv_demo_ord (skv_demo_msg op) skv \<noteq> None"
  shows "skv_step skv (skv_demo_apply op skv)"
proof -
  obtain skv' sent where run: "skv_applyLog skv_demo_ord (skv_demo_msg op) skv = Some (skv', sent)" using assms(3) by fastforce
  from skv_step.apply_command [OF _ run] assms(1,2) show ?thesis
    by (auto simp: skv_demo_apply_def skv_demo_msg_def run [unfolded skv_demo_msg_def])
qed

lemma skv_demo2_reach: "skv_step\<^sup>*\<^sup>* skv_demo0 skv_demo2"
proof -
  let ?config = "(skv_Op0 CONFIG)\<lparr>so_Config := skv_demo_config\<rparr>"
  have "skv_step skv_demo0 (skv_demo_apply ?config skv_demo0)"
  proof (rule skv_demo_step)
    show "skv_orders_ok skv_demo_ord ?config skv_demo0"
      by (simp add: skv_orders_ok_def skv_Op0_def skv_demo0_empty ClientInfo0_def skv_demo_ord_def range_order_def compareConfig_eq)
    show "skv_applyLog skv_demo_ord (skv_demo_msg ?config) skv_demo0 \<noteq> None" by code_simp
  qed (simp add: op_ok_def skv_Op0_def skv_demo_config_def NShards_def len_def)
  moreover have "skv_step (skv_demo_apply ?config skv_demo0) skv_demo2" unfolding skv_demo2_def
  proof (rule skv_demo_step)
    show "skv_applyLog skv_demo_ord (skv_demo_msg skv_demo_shards) (skv_demo_apply ?config skv_demo0) \<noteq> None" by code_simp
  qed (auto simp: skv_orders_ok_def op_ok_def skv_demo_shards_def skv_Op0_def ClientInfo0_def skv_demo_ord_def range_order_def shift_ok_def NShards_def)
  ultimately show ?thesis by (meson converse_rtranclp_into_rtranclp rtranclp.rtrancl_refl)
qed

lemma skv_demo_reach: "skv_step\<^sup>*\<^sup>* skv_demo0 (skv_demo_apply skv_demo_append skv_demo2)"
proof -
  have "skv_step skv_demo2 (skv_demo_apply skv_demo_append skv_demo2)"
  proof (rule skv_demo_step)
    have "op_shard skv_demo_append = key2shard (op_key skv_demo_append)" by code_simp
    then show "op_ok skv_demo_append" by (simp add: op_ok_def skv_demo_append_def skv_Op0_def)
    show "skv_applyLog skv_demo_ord (skv_demo_msg skv_demo_append) skv_demo2 \<noteq> None" by code_simp
  qed (simp add: skv_orders_ok_def skv_demo_append_def skv_Op0_def)
  with skv_demo2_reach show ?thesis by (rule rtranclp.rtrancl_into_rtrancl)
qed

theorem skv_stores_own_keys_witness:
  "\<exists>skv. skv_step\<^sup>*\<^sup>* skv_demo0 skv \<and> skv_KV skv ''k'' = Some ''v'' \<and>
     go_nth (Shards (skv_CurConfig skv)) (key2shard ''k'') = Some (skv_gid skv)"
proof -
  have "skv_KV (skv_demo_apply skv_demo_append skv_demo2) ''k'' = Some ''v''" by code_simp
  with skv_stores_own_keys [OF skv_demo_start skv_demo_reach] skv_demo_reach show ?thesis by fastforce
qed

theorem skv_at_most_once_witness:
  "\<exists>s1 sent. skv_exec skv_demo_ord skv_demo_append skv_demo2 = Some (s1, sent) \<and>
     skv_exec skv_demo_ord skv_demo_append s1 = Some (s1, None)"
proof -
  have op: "client_op skv_demo_append" by code_simp
  have "skv_exec skv_demo_ord skv_demo_append skv_demo2 \<noteq> None" by code_simp
  then obtain s1 sent where run: "skv_exec skv_demo_ord skv_demo_append skv_demo2 = Some (s1, sent)" by fastforce
  have "op_err skv_demo_append skv_demo2 = OK" by code_simp
  with skv_at_most_once [OF op op refl refl run, of "[]" s1] run show ?thesis by (auto simp: skv_applyAll_def)
qed

section \<open>What a request does\<close>

text \<open>
  C22: requests. In a reachable state, a committed request that the client has already had completed changes
  nothing and sends nothing. Any other request is answered with ErrWrongGroup if the shard of its key belongs to
  another group, with ErrNotReady if the shard has not arrived, and with OK otherwise; only in the last case it
  reads or writes the map, and the answer goes to the client that waits for it with the value of the
  key. Its outcome is recorded, and nothing else changes.
\<close>

theorem skv_request_effect:
  assumes "skv_start ev n i maxstate gid start" "skv_step\<^sup>*\<^sup>* start skv" "client_op op" "op_shard op = key2shard (op_key op)"
  shows "skv_exec ord op skv =
    (if skv_dup (so_ClientId op) (so_ReqNo op) skv then Some (skv, None)
     else Some (skv\<lparr>skv_KV := (if op_err op skv = OK then op_write op (skv_KV skv) else skv_KV skv),
              skv_ClientInfo := completedInfo op (op_err op skv) (skv_ClientInfo skv)\<rparr>,
          map_option (\<lambda>ch. (ch, \<lparr>r_Err = op_err op skv, r_Value = (if op_err op skv = OK then op_value op (skv_KV skv) else []),
              r_ClientId = so_ClientId op, r_ReqNo = so_ReqNo op\<rparr>)) (CompletedChan skv (so_ClientId op))))"
proof -
  have "in_range (Shards (skv_CurConfig skv)) (op_shard op)"
    using skv_reach_inv [OF assms(1,2)] key2shard_range [of "op_key op"] assms(4)
    by (simp add: skv_inv_def store_ok_def in_range_def)
  note eq = doOperation_eq [OF assms(3) this]
  have "skv_orders_ok ord op skv" using assms(3) by (auto simp: skv_orders_ok_def client_op_def)
  then have "skv_exec ord op skv =
      (if skv_dup (so_ClientId op) (so_ReqNo op) skv then Some (skv, None) else doOperation op skv)"
    using assms(3) by (auto simp: skv_exec_eq skv_exec0_def client_op_def)
  with eq show ?thesis by simp
qed

theorem skv_request_effect_witness:
  "map_option (\<lambda>(s, _). skv_KV s ''k'') (skv_exec skv_demo_ord skv_demo_append skv_demo2) = Some (Some ''v'') \<and>
   (let skv = skv_demo_apply skv_demo_append skv_demo2 in skv_exec skv_demo_ord skv_demo_append skv = Some (skv, None))"
proof -
  have op: "client_op skv_demo_append" "op_shard skv_demo_append = key2shard (op_key skv_demo_append)" by code_simp+
  note effect = skv_request_effect [OF skv_demo_start skv_demo2_reach op, of skv_demo_ord]
  have "\<not> skv_dup (so_ClientId skv_demo_append) (so_ReqNo skv_demo_append) skv_demo2"
    "op_err skv_demo_append skv_demo2 = OK" "op_write skv_demo_append (skv_KV skv_demo2) ''k'' = Some ''v''" by code_simp+
  moreover have "skv_dup (so_ClientId skv_demo_append) (so_ReqNo skv_demo_append) (skv_demo_apply skv_demo_append skv_demo2)"
    by code_simp
  ultimately show ?thesis
    unfolding effect Let_def using skv_request_effect [OF skv_demo_start skv_demo_reach op, of skv_demo_ord] by simp
qed

section \<open>Replicas\<close>

text \<open>
  What the log determines of a server: the configurations, shards, keys and completed requests, and of
  what it holds for other groups the entries of the configuration numbers \<open>D\<close>. Each server cleans its
  docks on its own, so two of them need not agree on all numbers.
\<close>

definition skv_view :: "int set \<Rightarrow> ShardKV \<Rightarrow> int \<times> Config \<times> Config \<times> (int \<rightharpoonup> bool) \<times> (string \<rightharpoonup> string) \<times> ClientInfo
    \<times> (int \<rightharpoonup> (int \<rightharpoonup> ShiftShard)) \<times> (int \<rightharpoonup> ClientInfo)" where
  "skv_view D skv = (skv_gid skv, skv_LastConfig skv, skv_CurConfig skv, skv_Shards skv, skv_KV skv, skv_ClientInfo skv,
     OutShardsDock skv |` D, Config2ClientInfo skv |` D)"

lemma restrict_upd_cong: "m |` D = m' |` D \<Longrightarrow> m(k \<mapsto> v) |` D = m'(k \<mapsto> v) |` D"
  by (auto simp: restrict_map_def fun_eq_iff split: if_splits)

lemma isMigrateFinished_view: "skv_view D a = skv_view D b \<Longrightarrow> isMigrateFinished a = isMigrateFinished b"
  by (simp add: isMigrateFinished_def skv_view_def)

lemma configUpdated_view: "skv_view D a = skv_view D b \<Longrightarrow> skv_view D (configUpdated cfg a) = skv_view D (configUpdated cfg b)"
  using isMigrateFinished_view [of D a b]
  by (auto simp: configUpdated_def skv_view_def compareConfig_eq Let_def simp del: restrict_fun_upd intro: restrict_upd_cong)

lemma run_shardAccepted_view:
  "skv_view D a = skv_view D b \<Longrightarrow> map_option (skv_view D) (run_opt shardAccepted xs a) = map_option (skv_view D) (run_opt shardAccepted xs b)"
proof (induction xs arbitrary: a b)
  case (Cons ss xs)
  have "map_option (skv_view D) (shardAccepted ss a) = map_option (skv_view D) (shardAccepted ss b)"
    using Cons.prems by (cases "go_nth (Shards (skv_CurConfig a)) (ss_ShardId ss)") (auto simp: shardAccepted_def skv_view_def)
  then show ?case using Cons.IH [of "the (shardAccepted ss a)" "the (shardAccepted ss b)"]
    by (cases "shardAccepted ss a"; cases "shardAccepted ss b") simp_all
qed simp

lemma shardsAccepted_view:
  assumes "skv_view D a = skv_view D b"
  shows "map_option (skv_view D) (shardsAccepted op a) = map_option (skv_view D) (shardsAccepted op b)"
  using run_shardAccepted_view [OF assms, of "so_ShiftShards op"] assms
  by (cases "run_opt shardAccepted (so_ShiftShards op) a"; cases "run_opt shardAccepted (so_ShiftShards op) b")
    (auto simp: shardsAccepted_eq skv_view_def)

lemma doOperation_view:
  assumes "client_op op" "skv_view D a = skv_view D b"
  shows "map_option (skv_view D \<circ> fst) (doOperation op a) = map_option (skv_view D \<circ> fst) (doOperation op b)"
proof (cases "in_range (Shards (skv_CurConfig a)) (op_shard op)")
  case True
  then have "in_range (Shards (skv_CurConfig b)) (op_shard op)" using assms(2) by (simp add: skv_view_def)
  moreover have "op_err op a = op_err op b" using assms(2) by (simp add: op_err_def skv_view_def)
  ultimately show ?thesis using assms True by (simp add: doOperation_eq skv_view_def)
next
  case False
  then have "\<not> in_range (Shards (skv_CurConfig b)) (op_shard op)" using assms(2) by (simp add: skv_view_def)
  with False show ?thesis using assms(1) by (simp add: doOperation_None)
qed

lemma skv_exec0_view:
  assumes "skv_view D a = skv_view D b"
  shows "map_option (skv_view D \<circ> fst) (skv_exec0 op a) = map_option (skv_view D \<circ> fst) (skv_exec0 op b)"
proof -
  have "skv_dup c r a = skv_dup c r b" for c r using assms by (simp add: skv_dup_def skv_view_def)
  then show ?thesis
    using assms configUpdated_view [OF assms] shardsAccepted_view [OF assms, of op] doOperation_view [OF _ assms, of op]
    by (cases "so_OpType op") (auto simp: skv_exec0_def client_op_def option.map_comp comp_def)
qed

text \<open>
  C21: replicas agree. Two servers of a group that agree on configurations, shards, keys and completed
  requests, and on the docks and client tables they hold for other groups at the configuration numbers
  of a set \<open>D\<close>, still agree on all of that after applying the same commands, each in the orders that
  Go picks for it, or both panic. As each server cleans its docks when it likes, \<open>D\<close> is any set: the
  numbers neither has cleaned, all of them, or none.
\<close>

theorem skv_replicas_agree:
  assumes "map snd ps = map snd qs" "skv_deliverable ps a" "skv_deliverable qs b" "skv_view D a = skv_view D b"
  shows "map_option (skv_view D) (skv_applyAll ps a) = map_option (skv_view D) (skv_applyAll qs b)"
  using assms
proof (induction ps arbitrary: qs a b)
  case (Cons p ps)
  obtain o1 am where p: "p = (o1, am)" by (cases p)
  with Cons.prems(1) obtain o2 qs' where qs: "qs = (o2, am) # qs'" "map snd ps = map snd qs'" by (cases qs) auto
  from Cons.prems(2,3) obtain op where op: "am_CommandValid am" "am_Command am = Some op"
    "skv_orders_ok o1 op a" "skv_orders_ok o2 op b" by (auto simp: p qs)
  have com: "skv_view D (s\<lparr>skv_CommitedId := i\<rparr>) = skv_view D s" for s i by (simp add: skv_view_def)
  have "map_option (skv_view D \<circ> fst) (skv_applyLog o1 am a) = map_option (skv_view D \<circ> fst) (skv_applyLog o2 am b)"
    using skv_exec0_view [OF Cons.prems(4), of op]
    by (simp add: skv_applyLog_command [OF op(1,2,3)] skv_applyLog_command [OF op(1,2,4)] option.map_comp comp_def case_prod_beta com)
  then show ?case
    using Cons.IH [OF qs(2), of "fst (the (skv_applyLog o1 am a))" "fst (the (skv_applyLog o2 am b))"] Cons.prems(2,3) p qs(1)
    by (cases "skv_applyLog o1 am a"; cases "skv_applyLog o2 am b") (auto simp: skv_applyAll_def)
qed (simp add: skv_applyAll_def)

text \<open>Two servers that give up the shards 7 and 8, with the keys k and l, in different orders.\<close>

definition skv_pair :: "int \<Rightarrow> ShardKV" where
  "skv_pair i = skv_demo0\<lparr>skv_me := i, skv_Shards := [7 \<mapsto> True, 8 \<mapsto> True], skv_KV := [''k'' \<mapsto> ''v'', ''l'' \<mapsto> ''w''],
     skv_CurConfig := \<lparr>Num = 1, Shards = [2, 2, 2, 2, 2, 2, 2, 1, 1, 2], Groups = [1 \<mapsto> [''a''], 2 \<mapsto> [''b'']]\<rparr>\<rparr>"

definition skv_pair_op :: skv_Op where
  "skv_pair_op = (skv_Op0 CONFIG)\<lparr>so_Config := \<lparr>Num = 2, Shards = replicate 10 2, Groups = [2 \<mapsto> [''b'']]\<rparr>\<rparr>"

definition skv_pair_ord :: "string list \<Rightarrow> int list \<Rightarrow> skv_orders" where
  "skv_pair_ord keys shards = skv_demo_ord\<lparr>ko_out := shards, ko_dock := keys, ko_keep := keys\<rparr>"

lemma skv_pair_out: "dom (fst (compareConfig (so_Config skv_pair_op) (skv_pair i))) = {7, 8}"
proof -
  have "skv_gid skv_demo0 = 1" by code_simp
  then show ?thesis
    by (auto simp: compareConfig_eq skv_pair_def skv_pair_op_def go_nth_def in_range_def len_def mget_def split: if_splits)
qed

lemma skv_pair_orders:
  "skv_orders_ok (skv_pair_ord [''k'', ''l''] [7, 8]) skv_pair_op (skv_pair i)"
  "skv_orders_ok (skv_pair_ord [''l'', ''k''] [8, 7]) skv_pair_op (skv_pair i)"
proof -
  have ty: "so_OpType skv_pair_op = CONFIG" by (simp add: skv_pair_op_def skv_Op0_def)
  have kv: "dom (skv_KV (skv_pair i)) = {''k'', ''l''}" by (auto simp: skv_pair_def)
  have info: "skv_ClientInfo (skv_pair i) = ClientInfo0" by (simp add: skv_pair_def skv_demo0_empty)
  show "skv_orders_ok (skv_pair_ord [''k'', ''l''] [7, 8]) skv_pair_op (skv_pair i)"
    "skv_orders_ok (skv_pair_ord [''l'', ''k''] [8, 7]) skv_pair_op (skv_pair i)"
    by (simp_all add: skv_orders_ok_def ty range_order_def kv info skv_pair_out skv_pair_ord_def skv_demo_ord_def ClientInfo0_def insert_commute)
qed

theorem skv_replicas_agree_witness:
  "map_option (skv_view UNIV) (skv_applyAll [(skv_pair_ord [''k'', ''l''] [7, 8], skv_demo_msg skv_pair_op)] (skv_pair 0)) =
   map_option (skv_view UNIV) (skv_applyAll [(skv_pair_ord [''l'', ''k''] [8, 7], skv_demo_msg skv_pair_op)] (skv_pair 1))"
proof (rule skv_replicas_agree)
  have "op_ok skv_pair_op" by (simp add: op_ok_def skv_pair_op_def skv_Op0_def NShards_def len_def)
  then show "skv_deliverable [(skv_pair_ord [''k'', ''l''] [7, 8], skv_demo_msg skv_pair_op)] (skv_pair 0)"
    "skv_deliverable [(skv_pair_ord [''l'', ''k''] [8, 7], skv_demo_msg skv_pair_op)] (skv_pair 1)"
    using skv_pair_orders by (auto simp: skv_demo_msg_def split: option.split)
qed (simp_all add: skv_view_def skv_pair_def)

section \<open>Restart\<close>

text \<open>
  C36: snapshots. A server that has taken a snapshot and restarts from its disk comes back with everything the snapshot
  holds (configurations, shards, keys, completed requests, docks, applied index), and its Raft peer
  resumes delivery after the applied index.
\<close>

theorem skv_restart_restores:
  assumes inv: "raft_inv (skv_rf skv)" and le: "SnapshotLastIncludedIndex (skv_rf skv) \<le> skv_CommitedId skv"
    and big: "skv_maxraftstate skv \<noteq> -1" "skv_maxraftstate skv \<le> GetRaftStateSize size_of (skv_rf skv)"
  shows "\<exists>skv1 skv2 ident'. skv_Snapshot size_of skv = Some skv1 \<and>
    skv_StartServer ev n i (persister (skv_rf skv1)) maxstate gid nctrlers ident = Some (skv2, ident') \<and>
    skv_save skv2 = skv_save skv \<and> skv_gid skv2 = gid \<and> LastApplied (skv_rf skv2) = skv_CommitedId skv"
proof -
  obtain rf1 rf2 where rf1: "Snapshot (skv_CommitedId skv) (skv_stream (skv_save skv)) (skv_rf skv) = Some rf1"
    "ReadSnapshot (persister rf1) = skv_stream (skv_save skv)"
    and "Snapshot (skv_CommitedId skv) (skv_stream (skv_save skv)) (Make ev n i (persister rf1)) = Some rf2"
    "LastApplied rf2 = skv_CommitedId skv"
    using snapshot_restart [OF raft_invD(1) [OF inv] le] by blast
  moreover have "sv_CommitedId (skv_save skv) = skv_CommitedId skv" by (simp add: skv_save_def)
  ultimately show ?thesis using big
    by (simp add: skv_Snapshot_def skv_StartServer_def skv_ReadSnapshot_def skv_codec.dec_enc skv_codec.enc_not_Nil
        sc_MakeClerk_def not_less skv_restore_def Let_def) (simp add: skv_save_def)
qed

theorem skv_restart_restores_witness:
  "\<exists>skv1 skv2 ident'. skv_Snapshot (\<lambda>_. 100) (skv_demo0\<lparr>skv_maxraftstate := 50, skv_KV := [''k'' \<mapsto> ''v''], skv_CommitedId := 2\<rparr>) = Some skv1 \<and>
     skv_StartServer \<lparr>now = 0, rnd = 0\<rparr> 3 0 (persister (skv_rf skv1)) 50 1 3 1 = Some (skv2, ident') \<and> skv_KV skv2 = [''k'' \<mapsto> ''v'']"
proof -
  let ?skv = "skv_demo0\<lparr>skv_maxraftstate := 50, skv_KV := [''k'' \<mapsto> ''v''], skv_CommitedId := 2\<rparr>"
  have rf: "skv_rf skv_demo0 = Make \<lparr>now = 0, rnd = 0\<rparr> 3 0 MakePersister"
    by (simp add: skv_demo0_def skv_StartServer_def skv_ReadSnapshot_def ReadSnapshot_def MakePersister_def clone_def sc_MakeClerk_def)
  have "raft_inv (skv_rf ?skv)" by (simp add: rf boot_inv)
  moreover have "SnapshotLastIncludedIndex (skv_rf ?skv) \<le> skv_CommitedId ?skv"
    "skv_maxraftstate ?skv \<noteq> -1" "skv_maxraftstate ?skv \<le> GetRaftStateSize (\<lambda>_. 100) (skv_rf ?skv)"
    by (simp_all add: rf Make_eq GetRaftStateSize_def RaftStateSize_def)
  ultimately show ?thesis
    using skv_restart_restores [of ?skv "\<lambda>_. 100" "\<lparr>now = 0, rnd = 0\<rparr>" 3 0 50 1 3 1] by (fastforce simp: skv_save_def)
qed

end
