(* ===== verification/ShardKV_Migrate.thy ===== *)
theory ShardKV_Migrate
  imports ShardKV_Correct
begin

text \<open>
  Migration of shards between two groups of src/src/shardkv: the old group files the keys of a shard that it loses with a
  configuration (\<open>doUpdateConfig\<close>), the new group asks for it (\<open>ShardDock\<close>) and applies what it gets (\<open>acceptShards\<close>).
\<close>

section \<open>What the old group hands out\<close>

definition orders_for_dock :: "(int \<Rightarrow> string list) \<Rightarrow> (int \<rightharpoonup> ShiftShard) \<Rightarrow> bool" where
  "orders_for_dock ord dock \<longleftrightarrow> (\<forall>s ss. dock s = Some ss \<longrightarrow> range_order (ss_KVMap ss) (ord s))"

lemma ShardDock_eq:
  assumes "OutShardsDock skv n = Some dock" "orders_for_dock ord dock"
  shows "ShardDock ord \<lparr>psa_ConfigNum = n, psa_ShardIds = ids\<rparr> skv =
    (if List.map_filter dock ids = [] then PullShardReply0
     else \<lparr>psr_Success = True, psr_ShiftShards = List.map_filter dock ids, psr_ClientInfo = mget ClientInfo0 (Config2ClientInfo skv) n\<rparr>)"
proof -
  have "fold (\<lambda>shard (unPrepared, retShards).
      case dock shard of Some outShard \<Rightarrow> (False, retShards @ [ShiftShard_copy (ord shard) outShard]) | None \<Rightarrow> (unPrepared, retShards)) ids (b, xs) =
    (b \<and> List.map_filter dock ids = [], xs @ List.map_filter dock ids)" for b xs
  proof (induction ids arbitrary: b xs)
    case (Cons s ids)
    then show ?case
      using assms(2) by (cases "dock s") (auto simp: map_filter_simps ShiftShard_copy_eq orders_for_dock_def)
  qed (simp add: map_filter_simps)
  then show ?thesis using assms(1) by (simp add: ShardDock_def PullShardReply0_def)
qed

lemma set_map_filter_dock: "set (List.map_filter dock ids) = {ss. \<exists>s \<in> set ids. dock s = Some ss}"
  by (force simp: List.map_filter_def)

section \<open>What the new group takes in\<close>

definition held_as :: "(string \<rightharpoonup> string) \<Rightarrow> int \<Rightarrow> ShardKV \<Rightarrow> bool" where
  "held_as kv s skv \<longleftrightarrow> mget False (skv_Shards skv) s \<and> (\<forall>key. key2shard key = s \<longrightarrow> skv_KV skv key = kv key)"

lemma shardAccepted_cases:
  "shardAccepted ss skv = Some skv' \<Longrightarrow> skv' = skv \<or> skv' = skv\<lparr>skv_KV := skv_KV skv ++ ss_KVMap ss, skv_Shards := (skv_Shards skv)(ss_ShardId ss \<mapsto> True)\<rparr>"
  by (auto simp: shardAccepted_def bind_eq_Some_conv split: if_splits)

lemma shardAccepted_other:
  assumes "shardAccepted ss skv = Some skv'" "shift_ok ss" "ss_ShardId ss \<noteq> s"
  shows "mget False (skv_Shards skv') s = mget False (skv_Shards skv) s \<and> (\<forall>key. key2shard key = s \<longrightarrow> skv_KV skv' key = skv_KV skv key)"
proof -
  have none: "ss_KVMap ss key = None" if "key2shard key = s" for key using assms(2,3) that by (metis domIff shift_ok_def)
  from shardAccepted_cases [OF assms(1)] show ?thesis using assms(3) none by (auto simp: mget_def map_add_def)
qed

lemma shardAccepted_held:
  assumes "shardAccepted ss skv = Some skv'" "shift_ok ss" "held_as kv s skv"
  shows "held_as kv s skv'"
proof (cases "ss_ShardId ss = s")
  case True
  then have "skv' = skv" using assms(1,3) by (auto simp: shardAccepted_def held_as_def bind_eq_Some_conv split: if_splits)
  then show ?thesis using assms(3) by simp
next
  case False
  then show ?thesis using shardAccepted_other [OF assms(1,2)] assms(3) by (simp add: held_as_def)
qed

text \<open>Only the shard that a server waits for and its own configuration matter.\<close>

definition awaits :: "int \<Rightarrow> ShardKV \<Rightarrow> bool" where
  "awaits s skv \<longleftrightarrow> \<not> mget False (skv_Shards skv) s \<and> go_nth (Shards (skv_CurConfig skv)) s = Some (skv_gid skv) \<and>
     (\<forall>key. key2shard key = s \<longrightarrow> skv_KV skv key = None)"

lemma shardAccepted_own:
  assumes "shardAccepted ss skv = Some skv'" "ss_ShardId ss = s" "ss_ConfigNum ss = Num (skv_CurConfig skv)" "awaits s skv"
  shows "held_as (ss_KVMap ss) s skv'"
  using assms by (auto simp: shardAccepted_def awaits_def held_as_def map_add_def mget_def bind_eq_Some_conv split: option.splits)

lemma awaits_other:
  assumes "shardAccepted ss skv = Some skv'" "shift_ok ss" "ss_ShardId ss \<noteq> s" "awaits s skv"
  shows "awaits s skv'"
  using assms shardAccepted_other [OF assms(1,2,3)] shardAccepted_info [OF assms(1)] by (simp add: awaits_def)

lemma run_shardAccepted_held:
  "run_opt shardAccepted xs skv = Some skv' \<Longrightarrow> \<forall>ss \<in> set xs. shift_ok ss \<Longrightarrow> held_as kv s skv \<Longrightarrow> held_as kv s skv'"
  by (induction xs arbitrary: skv) (auto simp: bind_eq_Some_conv dest: shardAccepted_held)

lemma run_shardAccepted_Some:
  "\<forall>ss \<in> set xs. in_range (Shards (skv_CurConfig skv)) (ss_ShardId ss) \<Longrightarrow> \<exists>skv'. run_opt shardAccepted xs skv = Some skv'"
proof (induction xs arbitrary: skv)
  case (Cons ss xs)
  then have "in_range (Shards (skv_CurConfig skv)) (ss_ShardId ss)" by simp
  then have "shardAccepted ss skv \<noteq> None" by (simp add: shardAccepted_def go_nth_Some)
  then obtain s1 where s1: "shardAccepted ss skv = Some s1" by blast
  then have "skv_CurConfig s1 = skv_CurConfig skv" using shardAccepted_info by blast
  then show ?case using Cons s1 by simp
qed simp

lemma run_shardAccepted_gets:
  assumes "run_opt shardAccepted xs skv = Some skv'" "awaits s skv"
    "\<forall>ss \<in> set xs. shift_ok ss \<and> ss_ConfigNum ss = Num (skv_CurConfig skv) \<and> (ss_ShardId ss = s \<longrightarrow> ss_KVMap ss = kv)"
    "\<exists>ss \<in> set xs. ss_ShardId ss = s"
  shows "held_as kv s skv'"
  using assms
proof (induction xs arbitrary: skv)
  case (Cons ss xs)
  then obtain s1 where s1: "shardAccepted ss skv = Some s1" "run_opt shardAccepted xs s1 = Some skv'" by (auto simp: bind_eq_Some_conv)
  have ss: "shift_ok ss" "ss_ConfigNum ss = Num (skv_CurConfig skv)" using Cons.prems(3) by simp_all
  show ?case
  proof (cases "ss_ShardId ss = s")
    case True
    then have "held_as kv s s1" using shardAccepted_own [OF s1(1) True ss(2) Cons.prems(2)] Cons.prems(3) by simp
    then show ?thesis using run_shardAccepted_held [OF s1(2)] Cons.prems(3) by simp
  next
    case False
    then have "awaits s s1" using awaits_other [OF s1(1) ss(1)] Cons.prems(2) by simp
    then show ?thesis using Cons.IH [OF s1(2)] Cons.prems(3,4) False shardAccepted_info [OF s1(1)] by simp
  qed
qed simp

section \<open>From one group to the other\<close>

lemma configUpdated_dock:
  assumes "Num (skv_CurConfig skv) < Num cfg" "fst (isMigrateFinished skv)"
  shows "OutShardsDock (configUpdated cfg skv) (Num cfg) = Some (outDock (fst (compareConfig cfg skv)) (Num cfg) (skv_KV skv))"
    "Config2ClientInfo (configUpdated cfg skv) (Num cfg) = Some (skv_ClientInfo skv)"
    "mget False (skv_Shards (configUpdated cfg skv)) s \<longleftrightarrow> mget False (skv_Shards skv) s \<and> go_nth (Shards cfg) s = Some (skv_gid skv)"
    "skv_KV (configUpdated cfg skv) key = (if mget False (skv_Shards (configUpdated cfg skv)) (key2shard key) then skv_KV skv key else None)"
  using assms by (simp_all add: configUpdated_def compareConfig_eq mget_def)

lemma dock_of_lost_shard:
  assumes "mget False (skv_Shards skv) s" "go_nth (Shards cfg) s = Some g" "g \<noteq> skv_gid skv"
  shows "outDock (fst (compareConfig cfg skv)) n kv s = Some \<lparr>ss_ConfigNum = n, ss_ShardId = s, ss_KVMap = (\<lambda>key. if key2shard key = s then kv key else None)\<rparr>"
  using assms by (simp add: outDock_def compareConfig_eq mget_def)

lemma dock_in_range: "outDock (fst (compareConfig cfg skv)) n kv s = Some ss \<Longrightarrow> in_range (Shards cfg) (ss_ShardId ss)"
  by (auto simp: outDock_def compareConfig_eq mget_def go_nth_def split: if_splits)

text \<open>
  C18: A shard that moves between groups arrives as it was. The old group takes a new configuration that gives a shard it holds to
  another group; later, while it still keeps what it filed for this configuration, a server of the other group that has come to the same configuration
  and waits for the shard asks for it among others and applies the answer. Then the request succeeds, the old group holds no
  key of the shard any more, the new one has received the shard with exactly the keys and values the old one held, and every request completed
  there counts as completed here.
\<close>

theorem shard_migrates:
  assumes config: "so_OpType cop = CONFIG" "skv_orders_ok o1 cop old" "skv_exec o1 cop old = Some (old1, r1)"
      "Num (skv_CurConfig old) < Num (so_Config cop)" "fst (isMigrateFinished old)"
    and moves: "mget False (skv_Shards old) s" "go_nth (Shards (so_Config cop)) s = Some (skv_gid new)" "skv_gid new \<noteq> skv_gid old"
    and kept: "OutShardsDock old2 (Num (so_Config cop)) = OutShardsDock old1 (Num (so_Config cop))"
      "Config2ClientInfo old2 (Num (so_Config cop)) = Config2ClientInfo old1 (Num (so_Config cop))"
    and reply: "rep = ShardDock od \<lparr>psa_ConfigNum = Num (so_Config cop), psa_ShardIds = ids\<rparr> old2" "s \<in> set ids"
      "\<forall>dock. OutShardsDock old2 (Num (so_Config cop)) = Some dock \<longrightarrow> orders_for_dock od dock"
    and waits: "skv_start ev n i maxstate gid start" "skv_step\<^sup>*\<^sup>* start new" "skv_CurConfig new = so_Config cop" "\<not> mget False (skv_Shards new) s"
    and shards: "so_OpType sop = SHARDS" "so_ShiftShards sop = psr_ShiftShards rep" "so_ClientInfo sop = psr_ClientInfo rep" "skv_orders_ok o2 sop new"
  shows "psr_Success rep \<and> (\<forall>key. key2shard key = s \<longrightarrow> skv_KV old1 key = None) \<and>
    (\<exists>new1. skv_exec o2 sop new = Some (new1, None) \<and> mget False (skv_Shards new1) s \<and>
      (\<forall>key. key2shard key = s \<longrightarrow> skv_KV new1 key = skv_KV old key) \<and> (\<forall>c r. 0 < r \<and> skv_dup c r old \<longrightarrow> skv_dup c r new1))"
proof -
  let ?cfg = "so_Config cop" and ?dock = "outDock (fst (compareConfig (so_Config cop) old)) (Num (so_Config cop)) (skv_KV old)"
  let ?ssd = "\<lparr>ss_ConfigNum = Num ?cfg, ss_ShardId = s, ss_KVMap = (\<lambda>key. if key2shard key = s then skv_KV old key else None)\<rparr>"
  have old1: "old1 = configUpdated ?cfg old" using config(1,2,3) by (simp add: skv_exec_eq skv_exec0_def)
  note upd = configUpdated_dock [OF config(4,5)]
  have dock: "OutShardsDock old2 (Num ?cfg) = Some ?dock" "Config2ClientInfo old2 (Num ?cfg) = Some (skv_ClientInfo old)"
    using kept upd(1,2) by (simp_all add: old1)
  have s: "?dock s = Some ?ssd" by (rule dock_of_lost_shard [OF moves])
  let ?xs = "List.map_filter ?dock ids"
  have in_xs: "?ssd \<in> set ?xs" using s reply(2) by (auto simp: set_map_filter_dock)
  then have "?xs \<noteq> []" by auto
  then have rep: "rep = \<lparr>psr_Success = True, psr_ShiftShards = ?xs, psr_ClientInfo = skv_ClientInfo old\<rparr>"
    using ShardDock_eq [OF dock(1), of od ids] reply(1,3) dock by (simp add: mget_def)
  have xs: "\<forall>ss \<in> set ?xs. shift_ok ss \<and> ss_ConfigNum ss = Num ?cfg \<and> in_range (Shards ?cfg) (ss_ShardId ss) \<and> (ss_ShardId ss = s \<longrightarrow> ss_KVMap ss = ss_KVMap ?ssd)"
    using outDock_ok dock_in_range s by (fastforce simp: set_map_filter_dock)
  have inv: "skv_inv new" using waits(1,2) by (rule skv_reach_inv)
  have aw: "awaits s new" using inv moves(2) waits(3,4) by (auto simp: awaits_def skv_inv_def store_ok_def)
  obtain n1 where n1: "run_opt shardAccepted ?xs new = Some n1" using run_shardAccepted_Some [of ?xs new] xs waits(3) by auto
  have "\<exists>ss \<in> set ?xs. ss_ShardId ss = s" by (rule bexI [OF _ in_xs]) simp
  then have held: "held_as (ss_KVMap ?ssd) s n1" by (intro run_shardAccepted_gets [OF n1 aw]) (use xs waits(3) in simp_all)
  let ?new1 = "n1\<lparr>skv_ClientInfo := mergedInfo (skv_ClientInfo old) (skv_ClientInfo new)\<rparr>"
  have "skv_exec o2 sop new = Some (?new1, None)"
    using shards n1 by (simp add: skv_exec_eq skv_exec0_def shardsAccepted_eq rep)
  moreover have "skv_KV old1 key = None" if "key2shard key = s" for key
    using upd(3,4) moves that by (simp add: old1)
  moreover have "skv_dup c r ?new1" if "0 < r" "skv_dup c r old" for c r
    using merged_other [OF that(1)] that(2) by (simp add: skv_dup_info)
  ultimately show ?thesis using held rep by (auto simp: held_as_def)
qed

text \<open>
  Group 1 holds all shards and loses 7 and 8 to group 2, with a key in each and a completed request; group 2 has come from its
  first start to the new configuration.
\<close>

definition mig_op :: skv_Op where
  "mig_op = (skv_Op0 CONFIG)\<lparr>so_Config := \<lparr>Num = 2, Shards = [1, 1, 1, 1, 1, 1, 1, 2, 2, 1], Groups = [1 \<mapsto> [''a''], 2 \<mapsto> [''b'']]\<rparr>\<rparr>"

definition mig_old :: ShardKV where
  "mig_old = skv_demo2\<lparr>skv_KV := [''k'' \<mapsto> ''v'', ''l'' \<mapsto> ''w''],
     skv_ClientInfo := \<lparr>CompletedReq = [3 \<mapsto> 4], CompletedResult = [3 \<mapsto> Result0\<lparr>r_Err := OK\<rparr>]\<rparr>\<rparr>"

definition mig_ord :: skv_orders where
  "mig_ord = \<lparr>ko_req = [3], ko_res = [3], ko_out = [7, 8], ko_dock = [''k'', ''l''], ko_keep = [''l'', ''k''],
     ko_in = (\<lambda>i. if i = 0 then [''l''] else [''k'']), ko_info = [3]\<rparr>"

definition mig_new0 :: ShardKV where
  "mig_new0 = fst (the (skv_StartServer \<lparr>now = 0, rnd = 0\<rparr> 3 0 MakePersister (-1) 2 3 0))"

definition mig_new :: ShardKV where
  "mig_new = skv_demo_apply mig_op (skv_demo_apply ((skv_Op0 CONFIG)\<lparr>so_Config := skv_demo_config\<rparr>) mig_new0)"

definition mig_reply :: PullShardReply where
  "mig_reply = ShardDock (\<lambda>s. if s = 8 then [''l''] else [''k'']) \<lparr>psa_ConfigNum = 2, psa_ShardIds = [8, 7]\<rparr> (configUpdated (so_Config mig_op) mig_old)"

definition mig_shards :: skv_Op where
  "mig_shards = (skv_Op0 SHARDS)\<lparr>so_ShiftShards := psr_ShiftShards mig_reply, so_ClientInfo := psr_ClientInfo mig_reply\<rparr>"

lemma mig_start: "skv_start \<lparr>now = 0, rnd = 0\<rparr> 3 0 (-1) 2 mig_new0"
  by (auto simp: skv_start_def mig_new0_def skv_StartServer_def skv_ReadSnapshot_def ReadSnapshot_def MakePersister_def clone_def sc_MakeClerk_def)

definition untouched :: "ShardKV \<Rightarrow> bool" where
  "untouched skv \<longleftrightarrow> skv_ClientInfo skv = ClientInfo0 \<and> skv_Shards skv = Map.empty \<and> skv_KV skv = Map.empty"

lemma untouched_config:
  assumes "untouched skv" "so_OpType op = CONFIG" "len (Shards (so_Config op)) = NShards"
  shows "skv_step skv (skv_demo_apply op skv)"
    "skv_demo_apply op skv = (configUpdated (so_Config op) skv)\<lparr>skv_CommitedId := max_int (skv_CommitedId skv) 1\<rparr>"
    "untouched (skv_demo_apply op skv)"
proof -
  have ord: "skv_orders_ok skv_demo_ord op skv"
    using assms(1,2) by (simp add: skv_orders_ok_def untouched_def ClientInfo0_def skv_demo_ord_def range_order_def compareConfig_eq)
  have com: "skv_CommitedId (configUpdated (so_Config op) skv) = skv_CommitedId skv"
    by (simp add: configUpdated_def case_prod_beta Let_def)
  have run: "skv_applyLog skv_demo_ord (skv_demo_msg op) skv = Some ((configUpdated (so_Config op) skv)\<lparr>skv_CommitedId := max_int (skv_CommitedId skv) 1\<rparr>, None)"
    using skv_exec_eq [OF ord] assms(2) by (simp add: skv_applyLog_def skv_demo_msg_def skv_exec0_def com)
  then show eq: "skv_demo_apply op skv = (configUpdated (so_Config op) skv)\<lparr>skv_CommitedId := max_int (skv_CommitedId skv) 1\<rparr>"
    by (simp add: skv_demo_apply_def)
  show "skv_step skv (skv_demo_apply op skv)" by (rule skv_demo_step [OF ord]) (use run assms(2,3) in \<open>simp_all add: op_ok_def\<close>)
  show "untouched (skv_demo_apply op skv)"
    using assms(1) unfolding eq by (auto simp: untouched_def configUpdated_def compareConfig_eq Let_def)
qed

lemma mig_new0_untouched: "untouched mig_new0"
  by (simp add: untouched_def mig_new0_def skv_StartServer_def skv_ReadSnapshot_def ReadSnapshot_def MakePersister_def clone_def sc_MakeClerk_def)

lemma configUpdated_cur: "Num (skv_CurConfig skv) < Num cfg \<Longrightarrow> fst (isMigrateFinished skv) \<Longrightarrow> skv_CurConfig (configUpdated cfg skv) = cfg"
  by (simp add: configUpdated_def case_prod_beta Let_def)

lemma mig_reach: "skv_step\<^sup>*\<^sup>* mig_new0 mig_new \<and> untouched mig_new \<and> skv_CurConfig mig_new = so_Config mig_op \<and> skv_gid mig_new = 2"
proof -
  let ?op = "(skv_Op0 CONFIG)\<lparr>so_Config := skv_demo_config\<rparr>"
  have len: "so_OpType ?op = CONFIG" "len (Shards (so_Config ?op)) = NShards" "so_OpType mig_op = CONFIG" "len (Shards (so_Config mig_op)) = NShards"
    by (simp_all add: skv_Op0_def skv_demo_config_def mig_op_def NShards_def len_def)
  note s1 = untouched_config [OF mig_new0_untouched len(1,2)]
  note s2 = untouched_config [OF s1(3) len(3,4)]
  have "Num (skv_CurConfig (skv_demo_apply ?op mig_new0)) < Num (so_Config mig_op)" "fst (isMigrateFinished (skv_demo_apply ?op mig_new0))" by code_simp+
  then have "skv_CurConfig mig_new = so_Config mig_op" unfolding mig_new_def s2(2) by (simp add: configUpdated_cur)
  moreover have "skv_gid mig_new = 2" by code_simp
  moreover have "skv_step\<^sup>*\<^sup>* mig_new0 mig_new" unfolding mig_new_def using s1(1) s2(1) by (meson converse_rtranclp_into_rtranclp rtranclp.rtrancl_refl)
  ultimately show ?thesis using s2(3) unfolding mig_new_def by blast
qed

lemma mig_shard_ids: "key2shard ''k'' = 7" "key2shard ''l'' = 8" "skv_gid mig_old = 1"
  "mget False (skv_Shards mig_old) 7" "mget False (skv_Shards mig_old) 8" "Num (skv_CurConfig mig_old) < 2" "fst (isMigrateFinished mig_old)"
  by code_simp+

lemma mig_out: "fst (compareConfig (so_Config mig_op) mig_old) = [7 \<mapsto> True, 8 \<mapsto> True]"
proof -
  have "go_nth (Shards (so_Config mig_op)) s = Some g \<and> g \<noteq> 1 \<longleftrightarrow> (s = 7 \<or> s = 8) \<and> g = 2" for s g
    by (auto simp: mig_op_def go_nth_def in_range_def len_def nth_Cons' split: if_splits)
  then show ?thesis using mig_shard_ids by (auto simp: compareConfig_eq fun_eq_iff)
qed

lemma mig_orders: "skv_orders_ok mig_ord mig_op mig_old"
proof -
  have kv: "dom (skv_KV mig_old) = {''k'', ''l''}" by (auto simp: mig_old_def)
  have info: "skv_ClientInfo mig_old = \<lparr>CompletedReq = [3 \<mapsto> 4], CompletedResult = [3 \<mapsto> Result0\<lparr>r_Err := OK\<rparr>]\<rparr>" by (simp add: mig_old_def)
  have ty: "so_OpType mig_op = CONFIG" by (simp add: mig_op_def skv_Op0_def)
  show ?thesis by (simp add: skv_orders_ok_def ty mig_out range_order_def kv info mig_ord_def insert_commute)
qed

definition mig_dock :: "int \<rightharpoonup> ShiftShard" where
  "mig_dock = [7 \<mapsto> \<lparr>ss_ConfigNum = 2, ss_ShardId = 7, ss_KVMap = [''k'' \<mapsto> ''v'']\<rparr>, 8 \<mapsto> \<lparr>ss_ConfigNum = 2, ss_ShardId = 8, ss_KVMap = [''l'' \<mapsto> ''w'']\<rparr>]"

lemma mig_dock_eq: "OutShardsDock (configUpdated (so_Config mig_op) mig_old) 2 = Some mig_dock"
proof -
  have cfg: "Num (so_Config mig_op) = 2" by (simp add: mig_op_def)
  have kv: "skv_KV mig_old = [''k'' \<mapsto> ''v'', ''l'' \<mapsto> ''w'']" by (simp add: mig_old_def)
  have "(\<lambda>key. if key2shard key = 7 then skv_KV mig_old key else None) = [''k'' \<mapsto> ''v'']"
    "(\<lambda>key. if key2shard key = 8 then skv_KV mig_old key else None) = [''l'' \<mapsto> ''w'']"
    using mig_shard_ids(1,2) unfolding kv by (auto simp: fun_eq_iff)
  then have "outDock (fst (compareConfig (so_Config mig_op) mig_old)) 2 (skv_KV mig_old) = mig_dock"
    unfolding mig_out by (auto simp: outDock_def fun_eq_iff mig_dock_def mget_def)
  then show ?thesis using configUpdated_dock(1) [of mig_old "so_Config mig_op"] mig_shard_ids(6,7) cfg by simp
qed

lemma mig_dock_orders: "orders_for_dock (\<lambda>s. if s = 8 then [''l''] else [''k'']) mig_dock"
  by (simp add: orders_for_dock_def mig_dock_def range_order_def)

lemma mig_reply_eq:
  "psr_ShiftShards mig_reply = [\<lparr>ss_ConfigNum = 2, ss_ShardId = 8, ss_KVMap = [''l'' \<mapsto> ''w'']\<rparr>, \<lparr>ss_ConfigNum = 2, ss_ShardId = 7, ss_KVMap = [''k'' \<mapsto> ''v'']\<rparr>]"
  "psr_ClientInfo mig_reply = \<lparr>CompletedReq = [3 \<mapsto> 4], CompletedResult = [3 \<mapsto> Result0\<lparr>r_Err := OK\<rparr>]\<rparr>"
proof -
  have "Config2ClientInfo (configUpdated (so_Config mig_op) mig_old) 2 = Some (skv_ClientInfo mig_old)"
    using configUpdated_dock(2) [of mig_old "so_Config mig_op"] mig_shard_ids(6,7) by (simp add: mig_op_def)
  moreover have "skv_ClientInfo mig_old = \<lparr>CompletedReq = [3 \<mapsto> 4], CompletedResult = [3 \<mapsto> Result0\<lparr>r_Err := OK\<rparr>]\<rparr>" by (simp add: mig_old_def)
  ultimately show "psr_ShiftShards mig_reply = [\<lparr>ss_ConfigNum = 2, ss_ShardId = 8, ss_KVMap = [''l'' \<mapsto> ''w'']\<rparr>, \<lparr>ss_ConfigNum = 2, ss_ShardId = 7, ss_KVMap = [''k'' \<mapsto> ''v'']\<rparr>]"
    "psr_ClientInfo mig_reply = \<lparr>CompletedReq = [3 \<mapsto> 4], CompletedResult = [3 \<mapsto> Result0\<lparr>r_Err := OK\<rparr>]\<rparr>"
    unfolding mig_reply_def ShardDock_eq [OF mig_dock_eq mig_dock_orders] by (simp_all add: map_filter_simps mig_dock_def mget_def)
qed

lemma mig_shards_orders: "skv_orders_ok mig_ord mig_shards mig_new"
proof -
  have "so_OpType mig_shards = SHARDS" by (simp add: mig_shards_def skv_Op0_def)
  moreover have "so_ShiftShards mig_shards = psr_ShiftShards mig_reply" "so_ClientInfo mig_shards = psr_ClientInfo mig_reply" by (simp_all add: mig_shards_def)
  ultimately show ?thesis by (simp add: skv_orders_ok_def mig_reply_eq range_order_def mig_ord_def nth_Cons')
qed

theorem shard_migrates_witness:
  "\<exists>new1. skv_exec mig_ord mig_shards mig_new = Some (new1, None) \<and> skv_KV new1 ''k'' = Some ''v'' \<and> skv_dup 3 4 new1"
proof -
  have cop: "so_OpType mig_op = CONFIG" "Num (so_Config mig_op) = 2" "go_nth (Shards (so_Config mig_op)) 7 = Some 2"
    by (simp_all add: mig_op_def skv_Op0_def go_nth_def in_range_def len_def)
  have exec: "skv_exec mig_ord mig_op mig_old = Some (configUpdated (so_Config mig_op) mig_old, None)"
    using skv_exec_eq [OF mig_orders] cop(1) by (simp add: skv_exec0_def)
  note new = mig_reach
  have free: "\<not> mget False (skv_Shards mig_new) 7" using new by (simp add: untouched_def mget_def)
  have sop: "so_OpType mig_shards = SHARDS" "so_ShiftShards mig_shards = psr_ShiftShards mig_reply" "so_ClientInfo mig_shards = psr_ClientInfo mig_reply"
    by (simp_all add: mig_shards_def skv_Op0_def)
  have rep: "mig_reply = ShardDock (\<lambda>s. if s = 8 then [''l''] else [''k'']) \<lparr>psa_ConfigNum = Num (so_Config mig_op), psa_ShardIds = [8, 7]\<rparr> (configUpdated (so_Config mig_op) mig_old)"
    by (simp add: mig_reply_def cop(2))
  have "\<exists>new1. skv_exec mig_ord mig_shards mig_new = Some (new1, None) \<and> (\<forall>key. key2shard key = 7 \<longrightarrow> skv_KV new1 key = skv_KV mig_old key) \<and>
      (\<forall>c r. 0 < r \<and> skv_dup c r mig_old \<longrightarrow> skv_dup c r new1)"
    using shard_migrates [where s = 7 and old = mig_old and new = mig_new and ?old2.0 = "configUpdated (so_Config mig_op) mig_old", OF cop(1) mig_orders exec _ mig_shard_ids(7,4) _ _ refl refl rep _ _ mig_start _ _ free sop mig_shards_orders]
      new cop mig_shard_ids(3,6) mig_dock_eq mig_dock_orders by auto
  moreover have "skv_KV mig_old ''k'' = Some ''v''" "skv_dup 3 4 mig_old" by (simp_all add: mig_old_def skv_dup_def)
  ultimately show ?thesis using mig_shard_ids(1) by fastforce
qed

end
