(* ===== verification/Porcupine_Bitset.thy ===== *)
theory Porcupine_Bitset
  imports Prelude "HOL-Library.Word"
begin

text \<open>
  The bit sets of src/src/porcupine/bitset.go: a set of positions packed into 64-bit words. The
  checker keeps in one the operations it has linearized so far and looks it up, by its hash, in a
  cache. The words are \<open>64 word\<close>; positions, which Go has as \<open>uint\<close>, are \<open>nat\<close>. An
  index outside the slice is a panic (\<open>None\<close>).

  \<open>bits_of\<close> reads a bit set as a set of positions. The locale \<open>bit_sets\<close> is the contract the
  checker relies on, stated over that reading, and the operations of the file meet it.
\<close>

unbundle bit_operations_syntax

type_synonym bitset = "64 word list"

section \<open>Operations\<close>

definition newBitset :: "nat \<Rightarrow> bitset" where
  "newBitset bits = (let extra = (if bits mod 64 \<noteq> 0 then 1 else 0) in replicate (bits div 64 + extra) 0)"

definition bitset_clone :: "bitset \<Rightarrow> bitset" where
  "bitset_clone b = b"

definition bitsetIndex :: "nat \<Rightarrow> nat \<times> nat" where
  "bitsetIndex pos = (pos div 64, pos mod 64)"

definition bitset_set :: "bitset \<Rightarrow> nat \<Rightarrow> bitset option" where
  "bitset_set b pos = (case bitsetIndex pos of (major, minor) \<Rightarrow>
     if major < length b then Some (b[major := b ! major OR push_bit minor 1]) else None)"

definition bitset_clear :: "bitset \<Rightarrow> nat \<Rightarrow> bitset option" where
  "bitset_clear b pos = (case bitsetIndex pos of (major, minor) \<Rightarrow>
     if major < length b then Some (b[major := b ! major AND NOT (push_bit minor 1)]) else None)"

definition bitset_get :: "bitset \<Rightarrow> nat \<Rightarrow> bool option" where
  "bitset_get b pos = (case bitsetIndex pos of (major, minor) \<Rightarrow>
     if major < length b then Some (b ! major AND push_bit minor 1 \<noteq> 0) else None)"

text \<open>\<open>bits.OnesCount64\<close>: the number of bits that are one.\<close>

definition OnesCount64 :: "64 word \<Rightarrow> nat" where
  "OnesCount64 v = length (filter (bit v) [0..<64])"

definition popcnt :: "bitset \<Rightarrow> nat" where
  "popcnt b = fold (\<lambda>v total. total + OnesCount64 v) b 0"

definition bitset_hash :: "bitset \<Rightarrow> 64 word" where
  "bitset_hash b = fold (\<lambda>v h. h XOR v) b (of_nat (popcnt b))"

definition bitset_equals :: "bitset \<Rightarrow> bitset \<Rightarrow> bool" where
  "bitset_equals b b2 \<longleftrightarrow> length b = length b2 \<and> list_all (\<lambda>i. b ! i = b2 ! i) [0..<length b]"

section \<open>Bit sets as sets\<close>

definition bits_of :: "bitset \<Rightarrow> nat set" where
  "bits_of b = {p. p < 64 * length b \<and> bit (b ! (p div 64)) (p mod 64)}"

lemma bits_of_iff: "p \<in> bits_of b \<longleftrightarrow> p < 64 * length b \<and> bit (b ! (p div 64)) (p mod 64)"
  by (simp add: bits_of_def)

lemma div_less_chunks: "p < 64 * n \<longleftrightarrow> p div 64 < (n :: nat)"
  by (simp add: div_less_iff_less_mult mult.commute)

lemma same_position: "p div 64 = q div 64 \<Longrightarrow> p mod 64 = q mod 64 \<longleftrightarrow> p = (q :: nat)"
  by (metis div_mult_mod_eq)

lemma word64_bit_pos: "bit (2 ^ (p mod 64) :: 64 word) j \<longleftrightarrow> j = p mod 64"
  by (auto simp: bit_simps)

lemma newBitset_length: "length (newBitset n) = (n + 63) div 64"
proof -
  define q r where "q = n div 64" and "r = n mod 64"
  then have n: "n = r + 64 * q" and "r < 64" by simp_all
  then have "(n + 63) div 64 = (r + 63) div 64 + q" by simp
  moreover have "(r + 63) div 64 = (if r = 0 then 0 else 1)"
    using \<open>r < 64\<close> by (simp add: div_nat_eqI)
  ultimately show ?thesis by (simp add: newBitset_def q_def r_def)
qed

lemma newBitset_bits: "bits_of (newBitset n) = {}"
  by (auto simp: bits_of_def newBitset_def Let_def div_less_chunks)

lemma bits_of_update:
  assumes "m < length b"
  shows "bits_of (b[m := w]) = {p. if p div 64 = m then bit w (p mod 64) else p \<in> bits_of b}"
  using assms unfolding bits_of_def div_less_chunks by (simp add: nth_list_update set_eq_iff)

lemma bitset_set_bits:
  assumes "pos < 64 * length b"
  shows "\<exists>b'. bitset_set b pos = Some b' \<and> bits_of b' = insert pos (bits_of b) \<and> length b' = length b"
proof -
  let ?w = "b ! (pos div 64) OR 2 ^ (pos mod 64)"
  have m: "pos div 64 < length b" using assms by (simp only: div_less_chunks)
  have "p \<in> bits_of (b[pos div 64 := ?w]) \<longleftrightarrow> p \<in> insert pos (bits_of b)" for p
    unfolding bits_of_update [OF m] using m same_position [of p pos]
    by (cases "p div 64 = pos div 64") (auto simp: bits_of_iff div_less_chunks bit_or_iff word64_bit_pos)
  then have "bits_of (b[pos div 64 := ?w]) = insert pos (bits_of b)" by (rule set_eqI)
  then show ?thesis using m by (simp add: bitset_set_def bitsetIndex_def)
qed

lemma bitset_clear_bits:
  assumes "pos < 64 * length b"
  shows "\<exists>b'. bitset_clear b pos = Some b' \<and> bits_of b' = bits_of b - {pos} \<and> length b' = length b"
proof -
  let ?w = "b ! (pos div 64) AND NOT (2 ^ (pos mod 64))"
  have m: "pos div 64 < length b" using assms by (simp only: div_less_chunks)
  have "p \<in> bits_of (b[pos div 64 := ?w]) \<longleftrightarrow> p \<in> bits_of b - {pos}" for p
    unfolding bits_of_update [OF m] using m same_position [of p pos]
    by (cases "p div 64 = pos div 64") (auto simp: bits_of_iff div_less_chunks bit_and_iff bit_not_iff word64_bit_pos)
  then have "bits_of (b[pos div 64 := ?w]) = bits_of b - {pos}" by (rule set_eqI)
  then show ?thesis using m by (simp add: bitset_clear_def bitsetIndex_def)
qed

lemma word_test_bit: "w AND 2 ^ (p mod 64) \<noteq> (0 :: 64 word) \<longleftrightarrow> bit w (p mod 64)"
  by (auto simp: bit_eq_iff [where 'a = "64 word"] bit_and_iff word64_bit_pos)

lemma bitset_get_bits: "bitset_get b pos = (if pos < 64 * length b then Some (pos \<in> bits_of b) else None)"
  by (simp add: bitset_get_def bitsetIndex_def bits_of_iff div_less_chunks word_test_bit)

lemma bitset_out_of_range:
  "\<not> pos < 64 * length b \<Longrightarrow> bitset_set b pos = None \<and> bitset_clear b pos = None"
  by (simp add: bitset_set_def bitset_clear_def bitsetIndex_def div_less_chunks)

lemma bitset_equals_iff: "bitset_equals b b2 \<longleftrightarrow> b = b2"
  unfolding bitset_equals_def list_eq_iff_nth_eq [of b b2] by (simp add: list_all_iff Ball_def)

lemma bits_of_inject: "length b = length c \<Longrightarrow> bits_of b = bits_of c \<longleftrightarrow> b = c"
proof
  assume len: "length b = length c" and eq: "bits_of b = bits_of c"
  show "b = c"
  proof (rule nth_equalityI [OF len], rule bit_word_eqI)
    fix i n assume i: "i < length b" and n: "n < LENGTH(64)"
    then have pos: "(64 * i + n) div 64 = i" "(64 * i + n) mod 64 = n" by simp_all
    have "64 * i + n \<in> bits_of b \<longleftrightarrow> 64 * i + n \<in> bits_of c" by (simp only: eq)
    then show "bit (b ! i) n = bit (c ! i) n"
      unfolding bits_of_iff div_less_chunks pos using i len by simp
  qed
next
  assume "b = c"
  then show "bits_of b = bits_of c" by (simp only:)
qed

lemma fold_plus_sum: "fold (\<lambda>v t. t + f v) xs (n :: nat) = n + sum_list (map f xs)"
  by (induction xs arbitrary: n) simp_all

lemma bits_of_Cons: "bits_of (w # b) = {p. p < 64 \<and> bit w p} \<union> (\<lambda>p. p + 64) ` bits_of b"
proof (rule set_eqI)
  fix p
  show "p \<in> bits_of (w # b) \<longleftrightarrow> p \<in> {p. p < 64 \<and> bit w p} \<union> (\<lambda>p. p + 64) ` bits_of b"
  proof (cases "p < 64")
    case False
    then obtain q where "p = q + 64" by (metis add.commute le_iff_add not_less)
    then have "p div 64 = Suc (q div 64)" "p mod 64 = q mod 64" by simp_all
    then show ?thesis using \<open>p = q + 64\<close> by (auto simp: bits_of_iff image_iff)
  qed (auto simp: bits_of_iff)
qed

lemma OnesCount64_card: "OnesCount64 w = card {p. p < 64 \<and> bit w p}"
proof -
  have "set (filter (bit w) [0..<64]) = {p. p < 64 \<and> bit w p}" by auto
  then show ?thesis
    unfolding OnesCount64_def by (metis distinct_card distinct_filter distinct_upt)
qed

lemma finite_bits_of: "finite (bits_of b)"
  by (rule finite_subset [of _ "{..<64 * length b}"]) (auto simp: bits_of_def)

lemma popcnt_card: "popcnt b = card (bits_of b)"
proof (induction b)
  case Nil
  show ?case by (simp add: popcnt_def bits_of_def)
next
  case (Cons w b)
  have "card (bits_of (w # b)) = OnesCount64 w + card (bits_of b)"
    unfolding bits_of_Cons OnesCount64_card
    by (subst card_Un_disjoint) (auto simp: card_image inj_on_def finite_bits_of)
  with Cons show ?case by (simp add: popcnt_def fold_plus_sum)
qed

section \<open>The contract\<close>

text \<open>
  What the checker needs of bit sets: they behave as sets of the positions below a capacity, and
  two of the same capacity are \<open>equals\<close>, with the same hash, exactly when they are the same set.
  The lemmas are about a table with a bucket of entries per hash, which is how the checker caches
  the configurations it has been in.
\<close>

locale bit_sets =
  fixes mk :: "nat \<Rightarrow> 'b" and add del :: "'b \<Rightarrow> nat \<Rightarrow> 'b option" and mem :: "'b \<Rightarrow> nat \<Rightarrow> bool option"
    and same :: "'b \<Rightarrow> 'b \<Rightarrow> bool" and hash :: "'b \<Rightarrow> 'h" and elems :: "'b \<Rightarrow> nat set" and cap :: "'b \<Rightarrow> nat"
  assumes mk_elems: "elems (mk n) = {}" and mk_cap: "n \<le> cap (mk n)"
    and add_elems: "p < cap b \<Longrightarrow> \<exists>b'. add b p = Some b' \<and> elems b' = insert p (elems b) \<and> cap b' = cap b"
    and del_elems: "p < cap b \<Longrightarrow> \<exists>b'. del b p = Some b' \<and> elems b' = elems b - {p} \<and> cap b' = cap b"
    and mem_elems: "p < cap b \<Longrightarrow> mem b p = Some (p \<in> elems b)"
    and same_elems: "cap b = cap c \<Longrightarrow> same b c \<longleftrightarrow> elems b = elems c"
    and same_hash: "cap b = cap c \<Longrightarrow> elems b = elems c \<Longrightarrow> hash b = hash c"
begin

definition filed :: "('h \<rightharpoonup> ('b \<times> 's) list) \<Rightarrow> bool" where
  "filed cache \<longleftrightarrow> (\<forall>h. \<forall>(b, s) \<in> set (mget [] cache h). hash b = h)"

definition entries_of :: "('h \<rightharpoonup> ('b \<times> 's) list) \<Rightarrow> ('b \<times> 's) set" where
  "entries_of cache = (\<Union>h. set (mget [] cache h))"

lemma bucket_lookup:
  assumes "filed cache" "\<forall>(c, t) \<in> entries_of cache. cap c = cap b"
  shows "(\<exists>(c, t) \<in> set (mget [] cache (hash b)). same b c \<and> R t) \<longleftrightarrow>
    (\<exists>t. (elems b, t) \<in> (\<lambda>(c, t). (elems c, t)) ` entries_of cache \<and> R t)" (is "?L \<longleftrightarrow> ?R")
proof
  assume ?L
  then obtain c t where c: "(c, t) \<in> set (mget [] cache (hash b))" "same b c" "R t" by blast
  then have "(c, t) \<in> entries_of cache" by (auto simp: entries_of_def)
  moreover from this have "elems b = elems c" using c(2) assms(2) same_elems by fastforce
  ultimately show ?R using c(3) by (metis (no_types, lifting) case_prod_conv image_eqI)
next
  assume ?R
  then obtain c t where c: "elems b = elems c" "(c, t) \<in> entries_of cache" "R t" by auto
  then have "cap c = cap b" using assms(2) by blast
  then have "same b c" "hash b = hash c" using c(1) same_elems same_hash by metis+
  moreover from c(2) have "(c, t) \<in> set (mget [] cache (hash c))"
    using assms(1) by (fastforce simp: entries_of_def filed_def)
  ultimately show ?L using c(3) by auto
qed

lemma bucket_insert:
  fixes cache :: "'h \<rightharpoonup> ('b \<times> 's) list"
  assumes "filed cache" "cache' = cache(hash b \<mapsto> mget [] cache (hash b) @ [(b, s)])"
  shows "filed cache'" "entries_of cache' = insert (b, s) (entries_of cache)"
  using assms by (auto simp: filed_def entries_of_def split: if_splits)

end

interpretation bs: bit_sets newBitset bitset_set bitset_clear bitset_get bitset_equals bitset_hash bits_of "\<lambda>b. 64 * length b"
proof
  show "bits_of (newBitset n) = {}" for n by (rule newBitset_bits)
  show "n \<le> 64 * length (newBitset n)" for n by (simp add: newBitset_length)
  show "64 * length b = 64 * length c \<Longrightarrow> bitset_equals b c \<longleftrightarrow> bits_of b = bits_of c" for b c
    by (simp add: bitset_equals_iff bits_of_inject)
  show "64 * length b = 64 * length c \<Longrightarrow> bits_of b = bits_of c \<Longrightarrow> bitset_hash b = bitset_hash c" for b c
    by (simp add: bits_of_inject)
qed (use bitset_set_bits bitset_clear_bits bitset_get_bits in auto)

section \<open>Properties\<close>

text \<open>
  C31: bit sets implement sets. From a new bit set for n positions, \<open>set\<close>, \<open>clear\<close> and \<open>get\<close> at a position below n
  never leave the slice and act as insertion, deletion and membership; \<open>popcnt\<close> is the cardinality;
  and two bit sets with room for the same positions are \<open>equals\<close> exactly when they hold the same
  positions.
\<close>

theorem bitset_refines_set:
  "bits_of (newBitset n) = {} \<and> n \<le> 64 * length (newBitset n) \<and> bits_of (bitset_clone b) = bits_of b \<and>
   (pos < 64 * length b \<longrightarrow> map_option bits_of (bitset_set b pos) = Some (insert pos (bits_of b)) \<and>
      map_option bits_of (bitset_clear b pos) = Some (bits_of b - {pos}) \<and> bitset_get b pos = Some (pos \<in> bits_of b)) \<and>
   popcnt b = card (bits_of b) \<and>
   (length b = length c \<longrightarrow> bitset_equals b c = (bits_of b = bits_of c))"
  using bs.add_elems [of pos b] bs.del_elems [of pos b] bs.mk_cap [of n]
  by (auto simp: bs.mk_elems bs.mem_elems popcnt_card bs.same_elems bitset_clone_def)

theorem bitset_refines_set_witness:
  "map_option bits_of (bitset_set (newBitset 70) 65) = Some {65} \<and> bitset_get (newBitset 70) 65 = Some False"
proof -
  have "65 < 64 * length (newBitset 70)" by (simp add: newBitset_length)
  then show ?thesis using bitset_refines_set [of 70 "newBitset 70" 65 "[]"] by (auto simp: newBitset_length)
qed

end
