(* ===== verification/Porcupine.thy ===== *)
theory Porcupine
  imports Porcupine_Bitset
begin

text \<open>
  The linearizability checker of src/src/porcupine: model.go, checker.go and porcupine.go.

  \<^item> An \<open>interface{}\<close> value is \<open>'v iface\<close>, \<open>None\<close> being nil. The states of a model have a type \<open>'s\<close> of their own.
    A step function may panic (a failed type assertion), which is \<open>None\<close>.
  \<^item> The doubly linked list that \<open>checkSingle\<close> takes entries out of and puts them back into is an
    explicit store: a list of nodes, a pointer being an index and \<open>None\<close> nil. A nil dereference is a panic.
  \<^item> The loop of \<open>checkSingle\<close> reads the shared \<open>kill\<close> flag once per iteration. The values it reads are
    an argument, and the recursion is on it: a loop that has not returned when they are used up is still running (\<open>Inl\<close>).
  \<^item> \<open>sort.Sort\<close> does not fix the order of equal elements: the sorted slice is \<open>srt xs\<close> for any \<open>srt\<close>
    with \<open>sorts_by_time srt\<close>.
  \<^item> \<open>checkParallel\<close> receives from the channel of results and the timer in an order that the scheduler chooses,
    the argument \<open>sels\<close>.

  The functions that only describe operations and states for a picture are left out, with
  visualization.go, their only user.
\<close>

type_synonym 'v iface = "'v option"

section \<open>Histories and models\<close>

record 'v Operation =
  op_ClientId :: int
  op_Input :: "'v iface"
  op_Call :: int
  op_Output :: "'v iface"
  op_Return :: int

datatype EventKind = CallEvent | ReturnEvent

record 'v Event =
  ev_ClientId :: int
  ev_Kind :: EventKind
  ev_Value :: "'v iface"
  ev_Id :: int

record ('v, 's) Model =
  Partition :: "('v Operation list \<Rightarrow> 'v Operation list list option) option"
  PartitionEvent :: "('v Event list \<Rightarrow> 'v Event list list option) option"
  Init :: 's
  Step :: "'s \<Rightarrow> 'v iface \<Rightarrow> 'v iface \<Rightarrow> (bool \<times> 's) option"
  Equal :: "('s \<Rightarrow> 's \<Rightarrow> bool) option"

definition NoPartition :: "'v Operation list \<Rightarrow> 'v Operation list list option" where
  "NoPartition history = Some [history]"

definition NoPartitionEvent :: "'v Event list \<Rightarrow> 'v Event list list option" where
  "NoPartitionEvent history = Some [history]"

definition ShallowEqual :: "'s \<Rightarrow> 's \<Rightarrow> bool" where
  "ShallowEqual state1 state2 \<longleftrightarrow> state1 = state2"

datatype CheckResult = Unknown | Ok | Illegal

section \<open>Entries\<close>

datatype entryKind = callEntry | returnEntry

record 'v entry =
  en_kind :: entryKind
  en_value :: "'v iface"
  en_id :: int
  en_time :: int
  en_clientId :: int

definition Less :: "'v entry \<Rightarrow> 'v entry \<Rightarrow> bool" where
  "Less a b =
     (if en_time a \<noteq> en_time b then en_time a < en_time b
      else en_kind a = callEntry \<and> en_kind b = returnEntry)"

definition sorts_by_time :: "('v entry list \<Rightarrow> 'v entry list) \<Rightarrow> bool" where
  "sorts_by_time srt \<longleftrightarrow> (\<forall>xs. mset (srt xs) = mset xs \<and> sorted_wrt (\<lambda>a b. \<not> Less b a) (srt xs))"

fun operationEntries :: "int \<Rightarrow> 'v Operation list \<Rightarrow> 'v entry list" where
  "operationEntries i [] = []"
| "operationEntries i (elem # history) =
     \<lparr>en_kind = callEntry, en_value = op_Input elem, en_id = i, en_time = op_Call elem, en_clientId = op_ClientId elem\<rparr> #
     \<lparr>en_kind = returnEntry, en_value = op_Output elem, en_id = i, en_time = op_Return elem, en_clientId = op_ClientId elem\<rparr> #
     operationEntries (i + 1) history"

definition makeEntries :: "('v entry list \<Rightarrow> 'v entry list) \<Rightarrow> 'v Operation list \<Rightarrow> 'v entry list" where
  "makeEntries srt history = srt (operationEntries 0 history)"

fun renumberLoop :: "(int \<rightharpoonup> int) \<Rightarrow> int \<Rightarrow> 'v Event list \<Rightarrow> 'v Event list" where
  "renumberLoop m i [] = []"
| "renumberLoop m i (v # events) =
     (case m (ev_Id v) of
        Some r \<Rightarrow> v\<lparr>ev_Id := r\<rparr> # renumberLoop m i events
      | None \<Rightarrow> v\<lparr>ev_Id := i\<rparr> # renumberLoop (m(ev_Id v \<mapsto> i)) (i + 1) events)"

definition renumber :: "'v Event list \<Rightarrow> 'v Event list" where
  "renumber events = renumberLoop Map.empty 0 events"

fun convertLoop :: "int \<Rightarrow> 'v Event list \<Rightarrow> 'v entry list" where
  "convertLoop i [] = []"
| "convertLoop i (elem # events) =
     \<lparr>en_kind = (if ev_Kind elem = ReturnEvent then returnEntry else callEntry), en_value = ev_Value elem,
       en_id = ev_Id elem, en_time = i, en_clientId = ev_ClientId elem\<rparr> # convertLoop (i + 1) events"

definition convertEntries :: "'v Event list \<Rightarrow> 'v entry list" where
  "convertEntries events = convertLoop 0 events"

section \<open>The linked list\<close>

type_synonym ptr = "nat option"

record 'v node =
  n_value :: "'v iface"
  n_match :: ptr
  n_id :: int
  n_next :: ptr
  n_prev :: ptr

type_synonym 'v heap = "'v node list"

definition load :: "'v heap \<Rightarrow> ptr \<Rightarrow> 'v node option" where
  "load h p = (case p of None \<Rightarrow> None | Some a \<Rightarrow> if a < length h then Some (h ! a) else None)"

definition store :: "'v heap \<Rightarrow> ptr \<Rightarrow> ('v node \<Rightarrow> 'v node) \<Rightarrow> 'v heap option" where
  "store h p f = (case p of None \<Rightarrow> None | Some a \<Rightarrow> if a < length h then Some (h[a := f (h ! a)]) else None)"

definition new_node :: "'v iface \<Rightarrow> ptr \<Rightarrow> int \<Rightarrow> 'v node" where
  "new_node v m i = \<lparr>n_value = v, n_match = m, n_id = i, n_next = None, n_prev = None\<rparr>"

definition insertBefore :: "'v heap \<Rightarrow> nat \<Rightarrow> ptr \<Rightarrow> 'v heap option" where
  "insertBefore h n mark =
     (if mark \<noteq> None then do {
        m \<leftarrow> load h mark;
        let beforeMark = n_prev m;
        h \<leftarrow> store h mark (n_prev_update (\<lambda>_. Some n));
        h \<leftarrow> store h (Some n) (n_next_update (\<lambda>_. mark));
        if beforeMark \<noteq> None then do {
          h \<leftarrow> store h (Some n) (n_prev_update (\<lambda>_. beforeMark));
          store h beforeMark (n_next_update (\<lambda>_. Some n))
        } else Some h
      } else Some h)"

partial_function (option) length_node :: "'v heap \<Rightarrow> ptr \<Rightarrow> nat option" where
  "length_node h n =
     (case n of None \<Rightarrow> Some 0
      | Some a \<Rightarrow> do { m \<leftarrow> load h (Some a); l \<leftarrow> length_node h (n_next m); Some (Suc l) })"

declare length_node.simps [code]

fun linkEntries :: "'v entry list \<Rightarrow> 'v heap \<Rightarrow> ptr \<Rightarrow> (int \<rightharpoonup> nat) \<Rightarrow> ('v heap \<times> ptr) option" where
  "linkEntries [] h root matches = Some (h, root)"
| "linkEntries (elem # rest) h root matches =
     (let n = length h in
      if en_kind elem = returnEntry then do {
        h \<leftarrow> insertBefore (h @ [new_node (en_value elem) None (en_id elem)]) n root;
        linkEntries rest h (Some n) (matches(en_id elem \<mapsto> n))
      } else do {
        h \<leftarrow> insertBefore (h @ [new_node (en_value elem) (matches (en_id elem)) (en_id elem)]) n root;
        linkEntries rest h (Some n) matches
      })"

definition makeLinkedEntries :: "'v entry list \<Rightarrow> ('v heap \<times> ptr) option" where
  "makeLinkedEntries entries = linkEntries (rev entries) [] None Map.empty"

definition lift :: "'v heap \<Rightarrow> ptr \<Rightarrow> 'v heap option" where
  "lift h entry = do {
     e \<leftarrow> load h entry;
     h \<leftarrow> store h (n_prev e) (n_next_update (\<lambda>_. n_next e));
     e \<leftarrow> load h entry;
     h \<leftarrow> store h (n_next e) (n_prev_update (\<lambda>_. n_prev e));
     e \<leftarrow> load h entry;
     m \<leftarrow> load h (n_match e);
     h \<leftarrow> store h (n_prev m) (n_next_update (\<lambda>_. n_next m));
     m \<leftarrow> load h (n_match e);
     if n_next m \<noteq> None then store h (n_next m) (n_prev_update (\<lambda>_. n_prev m)) else Some h
   }"

definition unlift :: "'v heap \<Rightarrow> ptr \<Rightarrow> 'v heap option" where
  "unlift h entry = do {
     e \<leftarrow> load h entry;
     let match = n_match e;
     m \<leftarrow> load h match;
     h \<leftarrow> store h (n_prev m) (n_next_update (\<lambda>_. match));
     m \<leftarrow> load h match;
     h \<leftarrow> (if n_next m \<noteq> None then store h (n_next m) (n_prev_update (\<lambda>_. match)) else Some h);
     e \<leftarrow> load h entry;
     h \<leftarrow> store h (n_prev e) (n_next_update (\<lambda>_. entry));
     e \<leftarrow> load h entry;
     store h (n_next e) (n_prev_update (\<lambda>_. entry))
   }"

section \<open>The search\<close>

type_synonym 's cacheEntry = "bitset \<times> 's"

type_synonym 's cache = "64 word \<rightharpoonup> 's cacheEntry list"

type_synonym 's callsEntry = "nat \<times> 's"

definition model_Equal :: "('v, 's) Model \<Rightarrow> 's \<Rightarrow> 's \<Rightarrow> bool" where
  "model_Equal model = (case Equal model of None \<Rightarrow> ShallowEqual | Some eq \<Rightarrow> eq)"

definition cacheContains :: "('v, 's) Model \<Rightarrow> 's cache \<Rightarrow> 's cacheEntry \<Rightarrow> bool" where
  "cacheContains model cache entry =
     list_ex (\<lambda>elem. bitset_equals (fst entry) (fst elem) \<and> model_Equal model (snd entry) (snd elem))
       (mget [] cache (bitset_hash (fst entry)))"

text \<open>
  The variables of \<open>checkSingle\<close>. A pointer to a sequence, \<open>*[]int\<close>, is an index into \<open>seqs\<close>, the
  sequences allocated so far: \<open>checkParallel\<close> compares these pointers.
\<close>

record ('v, 's) search =
  heap :: "'v heap"
  cursor :: ptr
  linearized :: bitset
  cache :: "'s cache"
  calls :: "'s callsEntry list"
  longest :: "nat option list"
  seqs :: "int list list"
  sr_state :: 's

type_synonym longestSeqs = "nat option list \<times> int list list"

definition uint :: "int \<Rightarrow> nat" where
  "uint i = (if i < 0 then nat (i + 2 ^ 64) else nat i)"

definition callIds :: "('v, 's) search \<Rightarrow> int list option" where
  "callIds st = those (map (\<lambda>v. map_option n_id (load (heap st) (Some (fst v)))) (calls st))"

fun longestLoop :: "int list list \<Rightarrow> nat \<Rightarrow> nat \<Rightarrow> int list \<Rightarrow> nat option list \<Rightarrow> nat option list option" where
  "longestLoop sq p callsLen [] l = Some l"
| "longestLoop sq p callsLen (i # is) l = do {
     q \<leftarrow> go_nth l i;
     if (case q of None \<Rightarrow> True | Some a \<Rightarrow> callsLen > length (sq ! a)) then do {
       l \<leftarrow> go_set l i (Some p);
       longestLoop sq p callsLen is l
     } else longestLoop sq p callsLen is l
   }"

definition updateLongest :: "('v, 's) search \<Rightarrow> ('v, 's) search option" where
  "updateLongest st = do {
     seq \<leftarrow> callIds st;
     l \<leftarrow> longestLoop (seqs st @ [seq]) (length (seqs st)) (length (calls st)) seq (longest st);
     Some (st\<lparr>longest := l, seqs := seqs st @ [seq]\<rparr>)
   }"

definition linearize :: "('v, 's) Model \<Rightarrow> 'v node \<Rightarrow> nat \<Rightarrow> nat \<Rightarrow> 's \<Rightarrow> ('v, 's) search \<Rightarrow> ('v, 's) search option" where
  "linearize model e headEntry a newState st = do {
     newLinearized \<leftarrow> bitset_set (bitset_clone (linearized st)) (uint (n_id e));
     let newCacheEntry = (newLinearized, newState);
     if \<not> cacheContains model (cache st) newCacheEntry then do {
       let hash = bitset_hash newLinearized;
       lin \<leftarrow> bitset_set (linearized st) (uint (n_id e));
       h \<leftarrow> lift (heap st) (Some a);
       hd \<leftarrow> load h (Some headEntry);
       Some (st\<lparr>cache := (cache st)(hash \<mapsto> mget [] (cache st) hash @ [newCacheEntry]),
         calls := calls st @ [(a, sr_state st)], sr_state := newState, linearized := lin, heap := h, cursor := n_next hd\<rparr>)
     } else Some (st\<lparr>cursor := n_next e\<rparr>)
   }"

definition backtrack :: "bool \<Rightarrow> ('v, 's) search \<Rightarrow> ('v, 's) search option" where
  "backtrack computePartial st = do {
     st \<leftarrow> (if computePartial then updateLongest st else Some st);
     let (a, s) = last (calls st);
     e \<leftarrow> load (heap st) (Some a);
     lin \<leftarrow> bitset_clear (linearized st) (uint (n_id e));
     h \<leftarrow> unlift (heap st) (Some a);
     e \<leftarrow> load h (Some a);
     Some (st\<lparr>sr_state := s, linearized := lin, calls := butlast (calls st), heap := h, cursor := n_next e\<rparr>)
   }"

text \<open>One iteration: \<open>Inr\<close> is a return statement of the function.\<close>

definition checkStep :: "('v, 's) Model \<Rightarrow> bool \<Rightarrow> nat \<Rightarrow> ('v, 's) search \<Rightarrow> (('v, 's) search + bool \<times> longestSeqs) option" where
  "checkStep model computePartial headEntry st = do {
     e \<leftarrow> load (heap st) (cursor st);
     if n_match e \<noteq> None then do {
       matching \<leftarrow> load (heap st) (n_match e);
       (ok, newState) \<leftarrow> Step model (sr_state st) (n_value e) (n_value matching);
       if ok then map_option Inl (linearize model e headEntry (the (cursor st)) newState st)
       else Some (Inl (st\<lparr>cursor := n_next e\<rparr>))
     } else if calls st = [] then Some (Inr (False, longest st, seqs st))
     else map_option Inl (backtrack computePartial st)
   }"

definition checkReturn :: "nat \<Rightarrow> ('v, 's) search \<Rightarrow> (bool \<times> longestSeqs) option" where
  "checkReturn n st = do {
     seq \<leftarrow> callIds st;
     Some (True, replicate n (Some (length (seqs st))), seqs st @ [seq])
   }"

fun checkLoop :: "('v, 's) Model \<Rightarrow> bool \<Rightarrow> nat \<Rightarrow> nat \<Rightarrow> bool list \<Rightarrow> ('v, 's) search \<Rightarrow> (('v, 's) search + bool \<times> longestSeqs) option" where
  "checkLoop model computePartial n headEntry [] st = do {
     hd \<leftarrow> load (heap st) (Some headEntry);
     if n_next hd = None then map_option Inr (checkReturn n st) else Some (Inl st)
   }"
| "checkLoop model computePartial n headEntry (kill # kills) st = do {
     hd \<leftarrow> load (heap st) (Some headEntry);
     if n_next hd = None then map_option Inr (checkReturn n st)
     else if kill then Some (Inr (False, longest st, seqs st))
     else do {
       r \<leftarrow> checkStep model computePartial headEntry st;
       (case r of Inl st \<Rightarrow> checkLoop model computePartial n headEntry kills st | Inr ret \<Rightarrow> Some (Inr ret))
     }
   }"

definition checkSingle :: "('v, 's) Model \<Rightarrow> 'v entry list \<Rightarrow> bool \<Rightarrow> bool list \<Rightarrow> (('v, 's) search + bool \<times> longestSeqs) option" where
  "checkSingle model history computePartial kills = do {
     (h, entry) \<leftarrow> makeLinkedEntries history;
     l \<leftarrow> length_node h entry;
     let n = l div 2;
     let headEntry = length h;
     h \<leftarrow> insertBefore (h @ [new_node None None (-1)]) headEntry entry;
     checkLoop model computePartial n headEntry kills
       \<lparr>heap = h, cursor = entry, linearized = newBitset n, cache = Map.empty, calls = [],
        longest = replicate n None, seqs = [], sr_state = Init model\<rparr>
   }"

section \<open>Partitions in parallel\<close>

definition fillDefault :: "('v, 's) Model \<Rightarrow> ('v, 's) Model" where
  "fillDefault model = model\<lparr>
     Partition := Some (case Partition model of None \<Rightarrow> NoPartition | Some p \<Rightarrow> p),
     PartitionEvent := Some (case PartitionEvent model of None \<Rightarrow> NoPartitionEvent | Some p \<Rightarrow> p),
     Equal := Some (case Equal model of None \<Rightarrow> ShallowEqual | Some eq \<Rightarrow> eq)\<rparr>"

text \<open>
  What the \<open>select\<close> statement picks: the result of a goroutine that has returned, or the timer. \<open>None\<close>:
  it waits for ever.
\<close>

datatype select = Recv nat | TimeOut

fun selectLoop :: "nat \<Rightarrow> bool \<Rightarrow> (nat \<rightharpoonup> bool) \<Rightarrow> select list \<Rightarrow> nat \<Rightarrow> bool \<Rightarrow> (bool \<times> bool \<times> nat) option" where
  "selectLoop n computeInfo res [] cnt ok = None"
| "selectLoop n computeInfo res (TimeOut # sels) cnt ok = Some (ok, True, cnt)"
| "selectLoop n computeInfo res (Recv i # sels) cnt ok =
     (case res i of None \<Rightarrow> None
      | Some result \<Rightarrow>
          let cnt = cnt + 1; ok = (ok \<and> result) in
          if \<not> ok \<and> \<not> computeInfo then Some (ok, False, cnt)
          else if cnt \<ge> n then Some (ok, False, cnt)
          else selectLoop n computeInfo res sels cnt ok)"

record 'v linearizationInfo =
  li_history :: "'v entry list list"
  li_partials :: "int list list list"

definition linearizationInfo0 :: "'v linearizationInfo" where
  "linearizationInfo0 = \<lparr>li_history = [], li_partials = []\<rparr>"

text \<open>
  The distinct sequences of one partition, in the order \<open>ord\<close> in which \<open>range\<close> visits the set of pointers
  to them.
\<close>

definition pointerSet :: "longestSeqs \<Rightarrow> nat \<rightharpoonup> unit" where
  "pointerSet l p = (if Some p \<in> set (fst l) then Some () else None)"

definition uniquePartials :: "nat list \<Rightarrow> longestSeqs \<Rightarrow> int list list" where
  "uniquePartials ord l = go_range ord (pointerSet l) (\<lambda>k _ partials. partials @ [snd l ! k]) []"

definition run_result :: "('a + bool \<times> longestSeqs) option \<Rightarrow> bool option" where
  "run_result r = (case r of Some (Inr (ok, _)) \<Rightarrow> Some ok | _ \<Rightarrow> None)"

definition run_longest :: "('a + bool \<times> longestSeqs) option \<Rightarrow> longestSeqs option" where
  "run_longest r = (case r of Some (Inr (_, l)) \<Rightarrow> Some l | _ \<Rightarrow> None)"

definition checkParallel :: "('v, 's) Model \<Rightarrow> 'v entry list list \<Rightarrow> bool \<Rightarrow> (nat \<Rightarrow> bool list) \<Rightarrow> select list \<Rightarrow> (nat \<Rightarrow> nat list) \<Rightarrow>
    (CheckResult \<times> 'v linearizationInfo) option" where
  "checkParallel model history computeInfo kills sels ords = do {
     let n = length history;
     let runs = map (\<lambda>i. checkSingle model (history ! i) computeInfo (kills i)) [0..<n];
     (ok, timedOut, cnt) \<leftarrow> selectLoop n computeInfo (\<lambda>i. if i < n then run_result (runs ! i) else None) sels 0 True;
     info \<leftarrow> (if computeInfo then do {
         ls \<leftarrow> those (map run_longest runs);
         Some \<lparr>li_history = history, li_partials = map (\<lambda>i. uniquePartials (ords i) (ls ! i)) [0..<n]\<rparr>
       } else Some linearizationInfo0);
     Some (if \<not> ok then Illegal else if timedOut then Unknown else Ok, info)
   }"

definition checkEvents :: "('v, 's) Model \<Rightarrow> 'v Event list \<Rightarrow> bool \<Rightarrow> (nat \<Rightarrow> bool list) \<Rightarrow> select list \<Rightarrow> (nat \<Rightarrow> nat list) \<Rightarrow>
    (CheckResult \<times> 'v linearizationInfo) option" where
  "checkEvents model history verbose kills sels ords = do {
     let model = fillDefault model;
     partitions \<leftarrow> the (PartitionEvent model) history;
     let l = map (\<lambda>subhistory. convertEntries (renumber subhistory)) partitions;
     checkParallel model l verbose kills sels ords
   }"

definition checkOperations :: "('v entry list \<Rightarrow> 'v entry list) \<Rightarrow> ('v, 's) Model \<Rightarrow> 'v Operation list \<Rightarrow> bool \<Rightarrow> (nat \<Rightarrow> bool list) \<Rightarrow> select list \<Rightarrow>
    (nat \<Rightarrow> nat list) \<Rightarrow> (CheckResult \<times> 'v linearizationInfo) option" where
  "checkOperations srt model history verbose kills sels ords = do {
     let model = fillDefault model;
     partitions \<leftarrow> the (Partition model) history;
     let l = map (makeEntries srt) partitions;
     checkParallel model l verbose kills sels ords
   }"

section \<open>The interface\<close>

definition CheckOperations :: "('v entry list \<Rightarrow> 'v entry list) \<Rightarrow> ('v, 's) Model \<Rightarrow> 'v Operation list \<Rightarrow> (nat \<Rightarrow> bool list) \<Rightarrow> select list \<Rightarrow>
    (nat \<Rightarrow> nat list) \<Rightarrow> bool option" where
  "CheckOperations srt model history kills sels ords = do {
     (res, _) \<leftarrow> checkOperations srt model history False kills sels ords;
     Some (res = Ok)
   }"

definition CheckOperationsTimeout :: "('v entry list \<Rightarrow> 'v entry list) \<Rightarrow> ('v, 's) Model \<Rightarrow> 'v Operation list \<Rightarrow> (nat \<Rightarrow> bool list) \<Rightarrow> select list \<Rightarrow>
    (nat \<Rightarrow> nat list) \<Rightarrow> CheckResult option" where
  "CheckOperationsTimeout srt model history kills sels ords = map_option fst (checkOperations srt model history False kills sels ords)"

definition CheckOperationsVerbose :: "('v entry list \<Rightarrow> 'v entry list) \<Rightarrow> ('v, 's) Model \<Rightarrow> 'v Operation list \<Rightarrow> (nat \<Rightarrow> bool list) \<Rightarrow> select list \<Rightarrow>
    (nat \<Rightarrow> nat list) \<Rightarrow> (CheckResult \<times> 'v linearizationInfo) option" where
  "CheckOperationsVerbose srt model history kills sels ords = checkOperations srt model history True kills sels ords"

definition CheckEvents :: "('v, 's) Model \<Rightarrow> 'v Event list \<Rightarrow> (nat \<Rightarrow> bool list) \<Rightarrow> select list \<Rightarrow> (nat \<Rightarrow> nat list) \<Rightarrow> bool option" where
  "CheckEvents model history kills sels ords = do {
     (res, _) \<leftarrow> checkEvents model history False kills sels ords;
     Some (res = Ok)
   }"

definition CheckEventsTimeout :: "('v, 's) Model \<Rightarrow> 'v Event list \<Rightarrow> (nat \<Rightarrow> bool list) \<Rightarrow> select list \<Rightarrow> (nat \<Rightarrow> nat list) \<Rightarrow> CheckResult option" where
  "CheckEventsTimeout model history kills sels ords = map_option fst (checkEvents model history False kills sels ords)"

definition CheckEventsVerbose :: "('v, 's) Model \<Rightarrow> 'v Event list \<Rightarrow> (nat \<Rightarrow> bool list) \<Rightarrow> select list \<Rightarrow> (nat \<Rightarrow> nat list) \<Rightarrow>
    (CheckResult \<times> 'v linearizationInfo) option" where
  "CheckEventsVerbose model history kills sels ords = checkEvents model history True kills sels ords"

end
