(* ===== verification/Porcupine_Links.thy ===== *)
theory Porcupine_Links
  imports Porcupine
begin

text \<open>
  The doubly linked list of src/src/porcupine/checker.go: what \<open>insertBefore\<close>, \<open>makeLinkedEntries\<close>,
  \<open>lift\<close> and \<open>unlift\<close> do to the list that starts at a node, and that \<open>unlift\<close> undoes \<open>lift\<close>
  exactly, so that a search that backtracks finds the list as it was.
\<close>

section \<open>Linked lists in the store\<close>

definition linked :: "'v heap \<Rightarrow> nat \<Rightarrow> nat \<Rightarrow> bool" where
  "linked h a b \<longleftrightarrow> n_next (h ! a) = Some b \<and> n_prev (h ! b) = Some a"

definition dll :: "'v heap \<Rightarrow> nat list \<Rightarrow> bool" where
  "dll h xs \<longleftrightarrow> xs \<noteq> [] \<and> distinct xs \<and> set xs \<subseteq> {..<length h} \<and> successively (linked h) xs \<and> n_next (h ! last xs) = None"

text \<open>Two stores whose nodes differ in their links only.\<close>

definition same_nodes :: "'v heap \<Rightarrow> 'v heap \<Rightarrow> bool" where
  "same_nodes h h' \<longleftrightarrow> length h' = length h \<and>
     (\<forall>a < length h. n_value (h' ! a) = n_value (h ! a) \<and> n_match (h' ! a) = n_match (h ! a) \<and> n_id (h' ! a) = n_id (h ! a))"

lemma same_nodes_refl [simp]: "same_nodes h h"
  by (simp add: same_nodes_def)

lemma same_nodes_trans: "same_nodes h h' \<Longrightarrow> same_nodes h' h'' \<Longrightarrow> same_nodes h h''"
  by (simp add: same_nodes_def)

lemma load_Some [simp]: "load h (Some a) = (if a < length h then Some (h ! a) else None)"
  by (simp add: load_def)

lemma store_Some [simp]: "store h (Some a) f = (if a < length h then Some (h[a := f (h ! a)]) else None)"
  by (simp add: store_def)

lemma successively_linked_cong:
  assumes "successively (linked h) xs"
    and "\<And>x. x \<in> set (butlast xs) \<Longrightarrow> n_next (h' ! x) = n_next (h ! x)"
    and "\<And>x. x \<in> set (tl xs) \<Longrightarrow> n_prev (h' ! x) = n_prev (h ! x)"
  shows "successively (linked h') xs"
  using assms
proof (induction "linked h" xs rule: successively.induct)
  case (3 x y xs)
  then show ?case by (cases xs) (auto simp: linked_def)
qed simp_all

lemma lift_same: "lift h (Some a) = Some h' \<Longrightarrow> same_nodes h h'"
  by (auto simp: lift_def Option.bind_eq_Some_conv load_def store_def same_nodes_def nth_list_update split: option.splits if_splits)

text \<open>\<open>lift\<close> takes out the call and then its return; \<open>unlift\<close> puts them back in the opposite order.\<close>

definition unlink :: "'v heap \<Rightarrow> nat \<Rightarrow> 'v heap option" where
  "unlink h x = do {
     n \<leftarrow> load h (Some x);
     h \<leftarrow> store h (n_prev n) (n_next_update (\<lambda>_. n_next n));
     n \<leftarrow> load h (Some x);
     if n_next n \<noteq> None then store h (n_next n) (n_prev_update (\<lambda>_. n_prev n)) else Some h
   }"

definition relink :: "'v heap \<Rightarrow> nat \<Rightarrow> 'v heap option" where
  "relink h x = do {
     n \<leftarrow> load h (Some x);
     h \<leftarrow> store h (n_prev n) (n_next_update (\<lambda>_. Some x));
     n \<leftarrow> load h (Some x);
     if n_next n \<noteq> None then store h (n_next n) (n_prev_update (\<lambda>_. Some x)) else Some h
   }"

lemma node_update_same: "n_next n = p \<Longrightarrow> n\<lparr>n_next := p\<rparr> = n" "n_prev n = p \<Longrightarrow> n\<lparr>n_prev := p\<rparr> = n"
  by auto

lemma unlink_dll:
  assumes "dll h (p @ u # x # suf)"
  shows "\<exists>h'. unlink h x = Some h' \<and> dll h' (p @ u # suf) \<and> relink h' x = Some h \<and> h' ! x = h ! x \<and> length h' = length h"
proof (cases suf)
  case Nil
  define h' where "h' = h[u := (h ! u)\<lparr>n_next := None\<rparr>]"
  from assms Nil have facts: "n_next (h ! u) = Some x" "n_prev (h ! x) = Some u" "n_next (h ! x) = None" "u < length h" "x < length h" "u \<noteq> x"
    by (auto simp: dll_def successively_append_iff linked_def)
  then have "unlink h x = Some h'" by (simp add: unlink_def h'_def)
  moreover have "successively (linked h') (p @ [u])"
    by (rule successively_linked_cong [of h]) (use assms Nil in \<open>auto simp: dll_def h'_def successively_append_iff nth_list_update\<close>)
  then have "dll h' (p @ [u])" using assms Nil facts(4) by (auto simp: dll_def h'_def)
  moreover have "relink h' x = Some h"
    using facts by (simp add: relink_def h'_def nth_list_update list_update_same_conv)
  ultimately show ?thesis using Nil facts by (auto simp: h'_def)
next
  case (Cons d suf')
  define h' where "h' = h[u := (h ! u)\<lparr>n_next := Some d\<rparr>, d := (h ! d)\<lparr>n_prev := Some u\<rparr>]"
  from assms Cons have facts: "n_next (h ! u) = Some x" "n_prev (h ! x) = Some u" "n_next (h ! x) = Some d" "n_prev (h ! d) = Some x"
    "u < length h" "x < length h" "d < length h" "u \<noteq> x" "d \<noteq> x" "u \<noteq> d"
    by (auto simp: dll_def successively_append_iff linked_def successively_Cons)
  then have "unlink h x = Some h'" by (simp add: unlink_def h'_def)
  moreover have "successively (linked h') (p @ [u])" "successively (linked h') (d # suf')"
    by (rule successively_linked_cong [of h];
        use assms Cons in \<open>auto simp: dll_def h'_def successively_append_iff nth_list_update dest: list.set_sel(2) [rotated] in_set_butlastD split: if_splits\<close>)+
  then have "successively (linked h') ((p @ [u]) @ d # suf')"
    unfolding successively_append_iff using facts by (simp add: linked_def h'_def nth_list_update)
  then have "dll h' (p @ u # d # suf')"
    using assms Cons by (auto simp: dll_def h'_def nth_list_update)
  moreover have "relink h' x = Some h"
    using facts by (auto simp: relink_def h'_def nth_list_update node_update_same intro!: nth_equalityI)
  ultimately show ?thesis using Cons facts by (auto simp: h'_def)
qed

lemma lift_unlink:
  assumes "n_match (h ! a) = Some m" "n_next (h ! a) \<noteq> None" "a < length h" "n_prev (h ! a) \<noteq> Some a"
  shows "lift h (Some a) = do { h \<leftarrow> unlink h a; unlink h m }"
  using assms by (auto simp: lift_def unlink_def load_def store_def nth_list_update split: option.split if_splits)

lemma unlift_relink:
  assumes "n_match (h ! a) = Some m" "a < length h" "relink h m = Some h'" "a < length h'" "n_next (h' ! a) \<noteq> None"
  shows "unlift h (Some a) = relink h' a"
proof -
  have "unlift h (Some a) = relink h m \<bind> (\<lambda>h. load h (Some a) \<bind> (\<lambda>e. store h (n_prev e) (n_next_update (\<lambda>_. Some a)) \<bind>
      (\<lambda>h. load h (Some a) \<bind> (\<lambda>e. store h (n_next e) (n_prev_update (\<lambda>_. Some a))))))"
    using assms(1,2) by (simp add: unlift_def relink_def Let_def cong: if_cong)
  also have "\<dots> = relink h' a"
    using assms(4,5) by (cases "n_prev (h' ! a)") (auto simp: assms(3) relink_def [of h' a] store_def nth_list_update)
  finally show ?thesis .
qed

lemma lift_dll:
  assumes "dll h (p @ u # a # mid @ m # suf)" "n_match (h ! a) = Some m"
  shows "\<exists>h'. lift h (Some a) = Some h' \<and> dll h' (p @ u # mid @ suf) \<and> unlift h' (Some a) = Some h"
proof -
  from assms(1) have a: "a < length h" "n_prev (h ! a) = Some u" "u \<noteq> a" "n_next (h ! a) \<noteq> None" "a \<noteq> m"
    by (cases mid; auto simp: dll_def successively_append_iff linked_def)+
  obtain h1 where h1: "unlink h a = Some h1" "dll h1 (p @ u # mid @ m # suf)" "relink h1 a = Some h" "h1 ! a = h ! a" "length h1 = length h"
    using unlink_dll [OF assms(1)] by blast
  obtain p' u' where p': "p @ u # mid = p' @ [u']" by (metis append_is_Nil_conv list.distinct(1) rev_exhaust)
  then have "dll h1 (p' @ u' # m # suf)" using h1(2) by (metis append.assoc append_Cons append_Nil)
  then obtain h2 where h2: "unlink h1 m = Some h2" "dll h2 (p' @ u' # suf)" "relink h2 m = Some h1"
    using unlink_dll by blast
  have "lift h (Some a) = Some h2"
    using lift_unlink [OF assms(2) a(4,1)] a(2,3) h1(1) h2(1) by simp
  moreover from this have "unlift h2 (Some a) = relink h1 a"
    using lift_same [of h a h2] h1 h2(3) a assms(2) by (intro unlift_relink) (auto simp: same_nodes_def)
  ultimately show ?thesis using h1(3) h2(2) p' by (metis append.assoc append_Cons append_Nil)
qed

section \<open>Building the list\<close>

text \<open>
  The list is built from the last entry to the first: the entry built in step \<open>i\<close> is the node with address
  \<open>i\<close>, and precedes in the list the nodes with smaller addresses.
\<close>

definition chained :: "'v heap \<Rightarrow> bool" where
  "chained h \<longleftrightarrow> (\<forall>i < length h. n_next (h ! i) = (if i = 0 then None else Some (i - 1)) \<and>
     n_prev (h ! i) = (if Suc i = length h then None else Some (Suc i)))"

definition root_of :: "'v heap \<Rightarrow> ptr" where
  "root_of h = (if h = [] then None else Some (length h - 1))"

lemma chained_dll: "chained h \<Longrightarrow> h \<noteq> [] \<Longrightarrow> dll h (rev [0..<length h])"
  by (auto simp: dll_def chained_def last_rev successively_conv_nth rev_nth linked_def)

lemma insertBefore_chained:
  assumes "chained h"
  shows "\<exists>h'. insertBefore (h @ [new_node v m i]) (length h) (root_of h) = Some h' \<and> chained h' \<and> same_nodes (h @ [new_node v m i]) h'"
proof (cases "length h")
  case (Suc k)
  then have "h \<noteq> []" by auto
  then show ?thesis using assms Suc
    by (auto simp: insertBefore_def root_of_def chained_def same_nodes_def new_node_def nth_append nth_list_update Let_def less_Suc_eq)
qed (simp add: insertBefore_def root_of_def chained_def new_node_def)

lemma length_node_chained: "chained h \<Longrightarrow> length_node h (root_of h) = Some (length h)"
proof -
  assume h: "chained h"
  have "a < length h \<Longrightarrow> length_node h (Some a) = Some (Suc a)" for a
  proof (induction a)
    case 0
    then show ?case using h by (subst length_node.simps) (simp add: chained_def length_node.simps [of h None])
  next
    case (Suc a)
    then show ?case using h by (subst length_node.simps) (simp add: chained_def)
  qed
  then show ?thesis by (auto simp: root_of_def length_node.simps [of _ None] simp flip: length_greater_0_conv)
qed

fun return_nodes :: "(int \<rightharpoonup> nat) \<Rightarrow> nat \<Rightarrow> 'v entry list \<Rightarrow> int \<rightharpoonup> nat" where
  "return_nodes m k [] = m"
| "return_nodes m k (e # es) = return_nodes (if en_kind e = returnEntry then m(en_id e \<mapsto> k) else m) (Suc k) es"

lemma linkEntries_chained:
  assumes "chained h"
  shows "\<exists>h'. linkEntries es h (root_of h) m = Some (h', root_of h') \<and> chained h' \<and> length h' = length h + length es \<and>
    same_nodes h (take (length h) h') \<and>
    (\<forall>j < length es. n_value (h' ! (length h + j)) = en_value (es ! j) \<and> n_id (h' ! (length h + j)) = en_id (es ! j) \<and>
       n_match (h' ! (length h + j)) = (if en_kind (es ! j) = returnEntry then None
         else return_nodes m (length h) (take j es) (en_id (es ! j))))"
  using assms
proof (induction es arbitrary: h m)
  case (Cons e es)
  let ?m = "if en_kind e = returnEntry then None else m (en_id e)"
  let ?m' = "if en_kind e = returnEntry then m(en_id e \<mapsto> length h) else m"
  obtain h1 where h1: "insertBefore (h @ [new_node (en_value e) ?m (en_id e)]) (length h) (root_of h) = Some h1" "chained h1"
    "same_nodes (h @ [new_node (en_value e) ?m (en_id e)]) h1"
    using insertBefore_chained [OF Cons.prems] by blast
  then have len: "length h1 = Suc (length h)" and root: "root_of h1 = Some (length h)" by (auto simp: same_nodes_def root_of_def)
  obtain h' where h': "linkEntries es h1 (root_of h1) ?m' = Some (h', root_of h')" "chained h'" "length h' = length h1 + length es"
    "same_nodes h1 (take (length h1) h')"
    "\<And>j. j < length es \<Longrightarrow> n_value (h' ! (length h1 + j)) = en_value (es ! j) \<and> n_id (h' ! (length h1 + j)) = en_id (es ! j) \<and>
       n_match (h' ! (length h1 + j)) = (if en_kind (es ! j) = returnEntry then None
         else return_nodes ?m' (length h1) (take j es) (en_id (es ! j)))"
    using Cons.IH [OF h1(2), of ?m'] by blast
  have "linkEntries (e # es) h (root_of h) m = Some (h', root_of h')"
    using h1(1) h'(1) root by (auto simp: Let_def)
  moreover have same: "same_nodes (h @ [new_node (en_value e) ?m (en_id e)]) (take (length h1) h')"
    using same_nodes_trans h1(3) h'(4) by blast
  then have "same_nodes h (take (length h) h')"
    using len h'(3) by (auto simp: same_nodes_def nth_append)
  moreover have "n_value (h' ! (length h + j)) = en_value ((e # es) ! j) \<and> n_id (h' ! (length h + j)) = en_id ((e # es) ! j) \<and>
      n_match (h' ! (length h + j)) = (if en_kind ((e # es) ! j) = returnEntry then None
        else return_nodes m (length h) (take j (e # es)) (en_id ((e # es) ! j)))" if "j < length (e # es)" for j
  proof (cases j)
    case 0
    then show ?thesis using same len by (auto simp: same_nodes_def new_node_def nth_append)
  next
    case (Suc j')
    then show ?thesis using h'(5) [of j'] that len by simp
  qed
  ultimately show ?case using h'(2,3) len by auto
qed (auto simp: root_of_def)

end
