(* ===== verification/Porcupine_Search.thy ===== *)
theory Porcupine_Search
  imports Porcupine_Links
begin

text \<open>
  The search of \<open>checkSingle\<close> (src/src/porcupine/checker.go): what it looks for, the invariant of its
  loop, and a measure that every iteration decreases.

  Here \<open>es\<close> is a history from the last entry to the first, so that the index of an entry in \<open>es\<close> is the address
  of its node, and of two entries the earlier one has the larger address.
\<close>

section \<open>Histories\<close>

definition is_call :: "'v entry list \<Rightarrow> nat \<Rightarrow> bool" where
  "is_call es a \<longleftrightarrow> en_kind (es ! a) = callEntry"

definition op_of :: "'v entry list \<Rightarrow> nat \<Rightarrow> nat" where
  "op_of es a = nat (en_id (es ! a))"

text \<open>Every call returns later, every return has its call, and the operations are numbered from 0.\<close>

definition wf_entries :: "'v entry list \<Rightarrow> bool" where
  "wf_entries es \<longleftrightarrow> distinct (map (\<lambda>e. (en_kind e, en_id e)) es) \<and>
     (\<forall>e \<in> set es. 0 \<le> en_id e \<and> en_id e < len es div 2) \<and>
     (\<forall>a < length es. is_call es a \<longrightarrow> (\<exists>r < a. \<not> is_call es r \<and> en_id (es ! r) = en_id (es ! a))) \<and>
     (\<forall>r < length es. \<not> is_call es r \<longrightarrow> (\<exists>a < length es. is_call es a \<and> en_id (es ! a) = en_id (es ! r)))"

definition match_at :: "'v entry list \<Rightarrow> nat \<Rightarrow> nat option" where
  "match_at es a = (if en_kind (es ! a) = returnEntry then None else return_nodes Map.empty 0 (take a es) (en_id (es ! a)))"

lemma not_call: "\<not> is_call es a \<longleftrightarrow> en_kind (es ! a) = returnEntry"
  by (cases "en_kind (es ! a)") (simp_all add: is_call_def)

lemma wf_entry_eq:
  assumes "wf_entries es" "a < length es" "b < length es" "is_call es a = is_call es b" "en_id (es ! a) = en_id (es ! b)"
  shows "a = b"
proof -
  have "en_kind (es ! a) = en_kind (es ! b)" using assms(4) by (metis is_call_def not_call)
  moreover have "distinct (map (\<lambda>e. (en_kind e, en_id e)) es)" using assms(1) by (simp add: wf_entries_def)
  ultimately show ?thesis using assms(2,3,5) nth_eq_iff_index_eq [of "map (\<lambda>e. (en_kind e, en_id e)) es" a b] by simp
qed

lemma wf_id: "wf_entries es \<Longrightarrow> a < length es \<Longrightarrow> 0 \<le> en_id (es ! a) \<and> en_id (es ! a) < len es div 2"
  by (simp add: wf_entries_def)

lemma op_of_eq:
  "wf_entries es \<Longrightarrow> a < length es \<Longrightarrow> b < length es \<Longrightarrow> op_of es a = op_of es b \<longleftrightarrow> en_id (es ! a) = en_id (es ! b)"
  using wf_id [of es a] wf_id [of es b] by (auto simp: op_of_def)

lemma op_of_less: "wf_entries es \<Longrightarrow> a < length es \<Longrightarrow> op_of es a < length es div 2"
  using wf_id [of es a] by (auto simp: op_of_def len_def nat_less_iff zdiv_int)

lemma return_nodes_Some:
  "return_nodes m k es i = Some r \<Longrightarrow> m i = Some r \<or> (\<exists>j < length es. r = k + j \<and> en_kind (es ! j) = returnEntry \<and> en_id (es ! j) = i)"
proof (induction es arbitrary: m k)
  case (Cons e es)
  from Cons.IH [OF Cons.prems [simplified]] show ?case
  proof (elim disjE exE conjE)
    fix j assume "j < length es" "r = Suc k + j" "en_kind (es ! j) = returnEntry" "en_id (es ! j) = i"
    then show ?thesis by (intro disjI2 exI [of _ "Suc j"]) simp
  qed (auto split: if_splits)
qed simp

lemma return_nodes_found:
  "j < length es \<Longrightarrow> en_kind (es ! j) = returnEntry \<Longrightarrow> return_nodes m k es (en_id (es ! j)) \<noteq> None"
proof (induction es arbitrary: m k j)
  case (Cons e es)
  have keep: "m i \<noteq> None \<Longrightarrow> return_nodes m k es i \<noteq> None" for m k i
    by (induction es arbitrary: m k) auto
  show ?case
  proof (cases j)
    case 0
    then show ?thesis using Cons.prems keep [of "m(en_id e \<mapsto> k)" "en_id e" "Suc k"] by simp
  next
    case (Suc j')
    then show ?thesis using Cons by simp
  qed
qed simp

lemma match_at_call:
  assumes "wf_entries es" "a < length es" "is_call es a"
  obtains r where "match_at es a = Some r" "r < a" "\<not> is_call es r" "op_of es r = op_of es a"
proof -
  obtain r where r: "r < a" "\<not> is_call es r" "en_id (es ! r) = en_id (es ! a)"
    using assms by (auto simp: wf_entries_def)
  then have "return_nodes Map.empty 0 (take a es) (en_id (take a es ! r)) \<noteq> None"
    using assms(2) by (intro return_nodes_found) (simp_all add: not_call)
  then obtain q where q: "return_nodes Map.empty 0 (take a es) (en_id (es ! a)) = Some q" using r assms(2) by auto
  from return_nodes_Some [OF q] assms(2) have "q < a" "\<not> is_call es q" "en_id (es ! q) = en_id (es ! a)"
    by (auto simp: not_call)
  moreover have "match_at es a = Some q" using q assms(3) by (simp add: match_at_def is_call_def)
  ultimately show ?thesis using that assms(1,2) by (simp add: op_of_def)
qed

lemma match_at_iff: "wf_entries es \<Longrightarrow> a < length es \<Longrightarrow> match_at es a = None \<longleftrightarrow> \<not> is_call es a"
  by (metis match_at_call match_at_def not_call option.distinct(1))

lemma same_op_cases:
  assumes "wf_entries es" "a < length es" "is_call es a" "match_at es a = Some r" "x < length es" "op_of es x = op_of es a"
  shows "x = a \<or> x = r"
proof -
  obtain r' where r': "match_at es a = Some r'" "r' < a" "\<not> is_call es r'" "op_of es r' = op_of es a"
    using match_at_call [OF assms(1-3)] .
  then have "r' = r" "r < length es" using assms(2,4) by auto
  then show ?thesis
    using wf_entry_eq [OF assms(1), of x a] wf_entry_eq [OF assms(1), of x r] r' assms op_of_eq by metis
qed

section \<open>What is left to linearize\<close>

definition remaining :: "'v entry list \<Rightarrow> nat set \<Rightarrow> nat list" where
  "remaining es S = filter (\<lambda>a. op_of es a \<notin> S) (rev [0..<length es])"

lemma in_remaining: "a \<in> set (remaining es S) \<longleftrightarrow> a < length es \<and> op_of es a \<notin> S"
  by (auto simp: remaining_def)

lemma remaining_length: "length (remaining es S) \<le> length es"
  unfolding remaining_def by (metis diff_zero length_filter_le length_rev length_upt)

lemma remaining_desc: "sorted_wrt (>) (remaining es S)"
  by (simp add: remaining_def sorted_wrt_filter sorted_wrt_rev)

lemma remaining_distinct: "distinct (remaining es S)"
  by (simp add: remaining_def)

lemma remaining_insert: "remaining es (insert (op_of es a) S) = filter (\<lambda>x. op_of es x \<noteq> op_of es a) (remaining es S)"
  by (simp add: remaining_def conj_commute)

lemma remaining_split:
  assumes "wf_entries es" "remaining es S = pre @ a # rest" "is_call es a"
  obtains mid r suf where "rest = mid @ r # suf" "match_at es a = Some r" "remaining es (insert (op_of es a) S) = pre @ mid @ suf"
proof -
  have a: "a < length es" "op_of es a \<notin> S" using assms(2) in_remaining [of a es S] by auto
  obtain r where r: "match_at es a = Some r" "r < a" "op_of es r = op_of es a"
    using match_at_call [OF assms(1) a(1) assms(3)] by metis
  then have "r \<in> set (remaining es S)" using a by (simp add: in_remaining)
  moreover have "\<forall>x \<in> set pre. a < x" using remaining_desc [of es S] by (auto simp: assms(2) sorted_wrt_append)
  ultimately have "r \<in> set rest" using r(2) assms(2) by force
  then obtain mid suf where rest: "rest = mid @ r # suf" by (meson split_list)
  have "distinct (pre @ a # mid @ r # suf)" using remaining_distinct [of es S] by (simp add: assms(2) rest)
  moreover have "\<forall>x \<in> set (pre @ a # mid @ r # suf). op_of es x = op_of es a \<longrightarrow> x = a \<or> x = r"
    using same_op_cases [OF assms(1) a(1) assms(3) r(1)] in_remaining [of _ es S] by (auto simp: assms(2) rest)
  ultimately have "filter (\<lambda>x. op_of es x \<noteq> op_of es a) (pre @ a # mid @ r # suf) = pre @ mid @ suf"
    using r(3) by (subst filter_append, simp, intro conjI filter_True arg_cong2 [where f = append]) auto
  then show ?thesis using that [OF rest r(1)] by (simp add: remaining_insert assms(2) rest)
qed

text \<open>
  What the search looks for: from a state, with the operations \<open>S\<close> done, the rest can be done one by one,
  taking next an operation that was called before any of the others returned.
\<close>

definition step_at :: "('v, 's) Model \<Rightarrow> 'v entry list \<Rightarrow> 's \<Rightarrow> nat \<Rightarrow> (bool \<times> 's) option" where
  "step_at M es s a = (case match_at es a of None \<Rightarrow> None | Some r \<Rightarrow> Step M s (en_value (es ! a)) (en_value (es ! r)))"

inductive lin :: "('v, 's) Model \<Rightarrow> 'v entry list \<Rightarrow> nat set \<Rightarrow> 's \<Rightarrow> bool" for M es where
  lin_done: "remaining es S = [] \<Longrightarrow> lin M es S s"
| lin_step: "remaining es S = pre @ a # suf \<Longrightarrow> \<forall>x \<in> set (pre @ [a]). is_call es x \<Longrightarrow>
    step_at M es s a = Some (True, s') \<Longrightarrow> lin M es (insert (op_of es a) S) s' \<Longrightarrow> lin M es S s"

text \<open>A call that cannot be the next one.\<close>

definition dead :: "('v, 's) Model \<Rightarrow> 'v entry list \<Rightarrow> nat set \<Rightarrow> 's \<Rightarrow> nat \<Rightarrow> bool" where
  "dead M es S s a \<longleftrightarrow> (\<forall>s'. step_at M es s a = Some (True, s') \<longrightarrow> \<not> lin M es (insert (op_of es a) S) s')"

lemma all_dead:
  assumes "remaining es S = pre @ r # suf" "\<not> is_call es r" "\<forall>x \<in> set pre. dead M es S s x"
  shows "\<not> lin M es S s"
proof
  assume "lin M es S s"
  then show False
  proof cases
    case (lin_step pre' a suf' s')
    have "a \<in> set pre"
    proof (rule ccontr)
      assume "a \<notin> set pre"
      moreover have "pre @ r # suf = pre' @ a # suf'" using assms(1) lin_step(1) by simp
      ultimately have "r \<in> set (pre' @ [a])" by (auto simp: append_eq_append_conv2 append_eq_Cons_conv Cons_eq_append_conv)
      then show False using lin_step(2) assms(2) by blast
    qed
    then show False using lin_step(3,4) assms(3) by (auto simp: dead_def)
  qed (simp add: assms(1))
qed

text \<open>Equal states, as the model tells them, have the same future.\<close>

definition Equal_sound :: "('v, 's) Model \<Rightarrow> bool" where
  "Equal_sound M \<longleftrightarrow> (\<forall>s t i out s'. model_Equal M s t \<longrightarrow> Step M s i out = Some (True, s') \<longrightarrow>
     (\<exists>t'. Step M t i out = Some (True, t') \<and> model_Equal M s' t'))"

lemma lin_Equal:
  assumes "Equal_sound M" "lin M es S s"
  shows "model_Equal M s t \<Longrightarrow> lin M es S t"
  using assms(2)
proof (induction arbitrary: t)
  case (lin_step S pre a suf s s')
  obtain r where r: "match_at es a = Some r" "Step M s (en_value (es ! a)) (en_value (es ! r)) = Some (True, s')"
    using lin_step.hyps(3) by (auto simp: step_at_def split: option.splits)
  obtain t' where "Step M t (en_value (es ! a)) (en_value (es ! r)) = Some (True, t')" "model_Equal M s' t'"
    using assms(1) lin_step.prems r(2) unfolding Equal_sound_def by blast
  then show ?case
    using lin.lin_step [OF lin_step.hyps(1,2), of M t t'] lin_step.IH [of t'] r(1) by (simp add: step_at_def)
qed (rule lin.lin_done)

text \<open>The sequences of operations that lead somewhere legally, complete or not, with the state they lead to.\<close>

inductive reach :: "('v, 's) Model \<Rightarrow> 'v entry list \<Rightarrow> int list \<Rightarrow> 's \<Rightarrow> bool" for M es where
  reach_init: "reach M es [] (Init M)"
| reach_step: "reach M es seq s \<Longrightarrow> remaining es (nat ` set seq) = pre @ a # suf \<Longrightarrow> \<forall>x \<in> set (pre @ [a]). is_call es x \<Longrightarrow>
    step_at M es s a = Some (True, s') \<Longrightarrow> reach M es (seq @ [en_id (es ! a)]) s'"

lemma reach_lin: "reach M es seq s \<Longrightarrow> lin M es (nat ` set seq) s \<Longrightarrow> lin M es {} (Init M)"
proof (induction rule: reach.induct)
  case (reach_step seq s pre a suf s')
  then have "lin M es (insert (op_of es a) (nat ` set seq)) s'" by (simp add: op_of_def)
  then have "lin M es (nat ` set seq) s" by (rule lin.lin_step [OF reach_step.hyps(2-4)])
  then show ?case by (rule reach_step.IH)
qed simp

section \<open>The path of the search\<close>

definition ids :: "'v entry list \<Rightarrow> (nat \<times> 's) list \<Rightarrow> nat set" where
  "ids es cs = op_of es ` fst ` set cs"

definition list_ok :: "'v entry list \<Rightarrow> nat set \<Rightarrow> 'v heap \<Rightarrow> bool" where
  "list_ok es S h \<longleftrightarrow> length h = Suc (length es) \<and> dll h (length es # remaining es S) \<and>
     (\<forall>a < length es. n_value (h ! a) = en_value (es ! a) \<and> n_match (h ! a) = match_at es a \<and> n_id (h ! a) = en_id (es ! a))"

text \<open>
  The calls on the stack, the state they lead to, the store after lifting them and the configurations
  passed, when every call before one that was chosen is known not to lead to a linearization.
\<close>

inductive trail :: "('v, 's) Model \<Rightarrow> 'v entry list \<Rightarrow> 'v heap \<Rightarrow> (nat \<times> 's) list \<Rightarrow> 's \<Rightarrow> 'v heap \<Rightarrow> (nat set \<times> 's) set \<Rightarrow> bool"
  for M es h0 where
  trail_init: "trail M es h0 [] (Init M) h0 {}"
| trail_call: "trail M es h0 cs s h P \<Longrightarrow> remaining es (ids es cs) = pre @ a # suf \<Longrightarrow> \<forall>x \<in> set (pre @ [a]). is_call es x \<Longrightarrow>
    \<forall>x \<in> set pre. dead M es (ids es cs) s x \<Longrightarrow> step_at M es s a = Some (True, s') \<Longrightarrow> lift h (Some a) = Some h' \<Longrightarrow>
    trail M es h0 (cs @ [(a, s)]) s' h' (insert (insert (op_of es a) (ids es cs), s') P)"

inductive_cases trail_callE: "trail M es h0 (cs @ [(a, s)]) s' h' P'"

inductive_cases trail_initE: "trail M es h0 [] s h P"

lemma ids_simps [simp]: "ids es [] = {}" "ids es (cs @ [(a, s)]) = insert (op_of es a) (ids es cs)"
  by (simp_all add: ids_def)

lemma list_ok_lift:
  assumes "wf_entries es" "list_ok es S h" "remaining es S = pre @ a # suf" "is_call es a"
  shows "\<exists>h'. lift h (Some a) = Some h' \<and> list_ok es (insert (op_of es a) S) h' \<and> unlift h' (Some a) = Some h"
proof -
  obtain mid r suf' where s: "suf = mid @ r # suf'" "match_at es a = Some r" "remaining es (insert (op_of es a) S) = pre @ mid @ suf'"
    using remaining_split [OF assms(1,3,4)] .
  have a: "a < length es" using assms(3) in_remaining [of a es S] by simp
  obtain p u where p: "length es # pre = p @ [u]" by (metis list.distinct(1) rev_exhaust)
  then have "dll h (p @ u # a # mid @ r # suf')"
    using assms(2,3) s(1) by (simp add: list_ok_def) (metis append.assoc append_Cons append_Nil)
  moreover have "n_match (h ! a) = Some r" using assms(2) a s(2) by (simp add: list_ok_def)
  ultimately obtain h' where h': "lift h (Some a) = Some h'" "dll h' (p @ u # mid @ suf')" "unlift h' (Some a) = Some h"
    using lift_dll by blast
  moreover have "dll h' (length es # pre @ mid @ suf')" using h'(2) p by (metis append.assoc append_Cons append_Nil)
  ultimately show ?thesis using lift_same [OF h'(1)] assms(2) s(3) by (auto simp: list_ok_def same_nodes_def)
qed

lemma trail_list:
  assumes "wf_entries es" "list_ok es {} h0" "trail M es h0 cs s h P"
  shows "list_ok es (ids es cs) h"
  using assms(3)
proof induction
  case (trail_call cs s h P pre a suf s' h')
  then show ?case using list_ok_lift [OF assms(1) trail_call.IH trail_call.hyps(2)] by auto
qed (simp add: assms(2))

lemma trail_configs:
  assumes "trail M es h0 cs s h P"
  shows "\<forall>(T, t) \<in> P. T \<subseteq> ids es cs" "ids es cs = nat ` set (map (\<lambda>c. en_id (es ! fst c)) cs)"
  using assms by induction (auto simp: op_of_def ids_def)

lemma trail_reach:
  assumes "trail M es h0 cs s h P"
  shows "reach M es (map (\<lambda>c. en_id (es ! fst c)) cs) s"
  using assms
proof induction
  case (trail_call cs s h P pre a suf s' h')
  then show ?case
    using reach_step [OF trail_call.IH, of pre a suf s'] trail_configs(2) [OF trail_call.hyps(1)] by simp
qed (simp add: reach_init)

lemma trail_length:
  assumes "wf_entries es" "trail M es h0 cs s h P"
  shows "length cs = card (ids es cs) \<and> ids es cs \<subseteq> {..<length es div 2}"
  using assms(2)
proof induction
  case (trail_call cs s h P pre a suf s' h')
  then have "a \<in> set (remaining es (ids es cs))" by simp
  then have "a < length es" "op_of es a \<notin> ids es cs" by (simp_all add: in_remaining)
  moreover have "finite (ids es cs)" by (simp add: ids_def)
  ultimately show ?case using trail_call.IH op_of_less [OF assms(1)] by auto
qed simp

section \<open>The invariant of the loop\<close>

definition first :: "nat list \<Rightarrow> ptr" where
  "first xs = (case xs of [] \<Rightarrow> None | x # _ \<Rightarrow> Some x)"

lemma first_simps [simp]: "first [] = None" "first (x # xs) = Some x"
  by (simp_all add: first_def)

lemma dll_next: "dll h (pre @ a # suf) \<Longrightarrow> n_next (h ! a) = first suf"
  by (cases suf) (auto simp: dll_def successively_append_iff linked_def)

definition cache_ok :: "('v, 's) Model \<Rightarrow> 'v entry list \<Rightarrow> (nat set \<times> 's) set \<Rightarrow> 's cache \<Rightarrow> bool" where
  "cache_ok M es P c \<longleftrightarrow> bs.filed c \<and>
     (\<forall>(b, t) \<in> bs.entries_of c. 64 * length b = 64 * length (newBitset (length es div 2)) \<and> ((bits_of b, t) \<in> P \<or> \<not> lin M es (bits_of b) t))"

definition longest_ok :: "('v, 's) Model \<Rightarrow> 'v entry list \<Rightarrow> longestSeqs \<Rightarrow> bool" where
  "longest_ok M es l \<longleftrightarrow> length (fst l) = length es div 2 \<and>
     (\<forall>i < length es div 2. \<forall>p. fst l ! i = Some p \<longrightarrow> p < length (snd l) \<and> int i \<in> set (snd l ! p) \<and> (\<exists>s. reach M es (snd l ! p) s))"

text \<open>
  The search has \<open>suf\<close> before it: its cursor is at the first of \<open>suf\<close>, having passed \<open>pre\<close> in vain.
\<close>

definition searching :: "('v, 's) Model \<Rightarrow> 'v entry list \<Rightarrow> 'v heap \<Rightarrow> ('v, 's) search \<Rightarrow> (nat set \<times> 's) set \<Rightarrow> nat list \<Rightarrow> nat list \<Rightarrow> bool" where
  "searching M es h0 st P pre suf \<longleftrightarrow>
     trail M es h0 (calls st) (sr_state st) (heap st) P \<and>
     remaining es (ids es (calls st)) = pre @ suf \<and>
     (\<forall>x \<in> set pre. is_call es x \<and> dead M es (ids es (calls st)) (sr_state st) x) \<and>
     cursor st = first suf \<and>
     bits_of (linearized st) = ids es (calls st) \<and> length (linearized st) = length (newBitset (length es div 2)) \<and>
     cache_ok M es P (cache st) \<and> longest_ok M es (longest st, seqs st)"

lemma searching_skip:
  assumes "wf_entries es" "list_ok es {} h0" "searching M es h0 st P pre (a # suf)" "is_call es a"
    and "dead M es (ids es (calls st)) (sr_state st) a"
  shows "searching M es h0 (st\<lparr>cursor := n_next (heap st ! a)\<rparr>) P (pre @ [a]) suf"
proof -
  have "dll (heap st) ((length es # pre) @ a # suf)"
    using trail_list [OF assms(1,2)] assms(3) by (fastforce simp: searching_def list_ok_def)
  from dll_next [OF this] show ?thesis using assms(3-5) by (auto simp: searching_def)
qed

lemma cacheContains_dead:
  assumes "Equal_sound M" "cache_ok M es P c" "\<forall>(T, t) \<in> P. T \<noteq> bits_of b" "length b = length (newBitset (length es div 2))"
    and "cacheContains M c (b, s)"
  shows "\<not> lin M es (bits_of b) s"
proof -
  have "\<exists>(c', t) \<in> set (mget [] c (bitset_hash b)). bitset_equals b c' \<and> model_Equal M s t"
    using assms(5) by (auto simp: cacheContains_def list_ex_iff)
  moreover have "bs.filed c" "\<forall>(c', t) \<in> bs.entries_of c. 64 * length c' = 64 * length b"
    using assms(2,4) by (auto simp: cache_ok_def)
  ultimately obtain t where t: "(bits_of b, t) \<in> (\<lambda>(c, t). (bits_of c, t)) ` bs.entries_of c" "model_Equal M s t"
    using bs.bucket_lookup [of c b "model_Equal M s"] by blast
  then have "\<not> lin M es (bits_of b) t" using assms(2,3) by (fastforce simp: cache_ok_def)
  then show ?thesis using lin_Equal [OF assms(1)] t(2) by blast
qed

lemma cache_ok_insert:
  assumes "cache_ok M es P c" "length b = length (newBitset (length es div 2))"
  shows "cache_ok M es (insert (bits_of b, s) P) (c(bitset_hash b \<mapsto> mget [] c (bitset_hash b) @ [(b, s)]))"
  using assms bs.bucket_insert [of c _ b s] by (auto simp: cache_ok_def simp del: fun_upd_apply)

lemma cache_ok_drop:
  assumes "cache_ok M es (insert (S, s) P) c" "\<not> lin M es S s"
  shows "cache_ok M es P c"
  using assms by (fastforce simp: cache_ok_def)

section \<open>What an iteration does\<close>

lemma op_in_bitset: "wf_entries es \<Longrightarrow> a < length es \<Longrightarrow> length b = length (newBitset (length es div 2)) \<Longrightarrow> op_of es a < 64 * length b"
  using op_of_less [of es a] bs.mk_cap [of "length es div 2"] by simp

lemma uint_id: "wf_entries es \<Longrightarrow> a < length es \<Longrightarrow> uint (en_id (es ! a)) = op_of es a"
  using wf_id [of es a] by (auto simp: uint_def op_of_def)

lemma searching_call:
  assumes "wf_entries es" "list_ok es {} h0" "Equal_sound M" "searching M es h0 st P pre (a # suf)" "is_call es a"
    and "step_at M es (sr_state st) a = Some (True, s')"
  shows "\<exists>st'. linearize M (heap st ! a) (length es) a s' st = Some st' \<and>
    (st' = st\<lparr>cursor := n_next (heap st ! a)\<rparr> \<and> dead M es (ids es (calls st)) (sr_state st) a \<or>
     calls st' = calls st @ [(a, sr_state st)] \<and>
     (\<exists>P'. searching M es h0 st' P' [] (remaining es (insert (op_of es a) (ids es (calls st))))))"
proof -
  let ?S = "ids es (calls st)"
  have tr: "trail M es h0 (calls st) (sr_state st) (heap st) P" and rem: "remaining es ?S = pre @ a # suf"
    and pre: "\<forall>x \<in> set pre. is_call es x \<and> dead M es ?S (sr_state st) x"
    and bits: "bits_of (linearized st) = ?S" "length (linearized st) = length (newBitset (length es div 2))"
    and cache: "cache_ok M es P (cache st)" and lng: "longest_ok M es (longest st, seqs st)"
    using assms(4) by (simp_all add: searching_def)
  note ok = trail_list [OF assms(1,2) tr]
  have a: "a < length es" "op_of es a \<notin> ?S" using rem in_remaining [of a es ?S] by auto
  obtain b where b: "bitset_set (linearized st) (op_of es a) = Some b" "bits_of b = insert (op_of es a) ?S" "length b = length (linearized st)"
    using bs.add_elems [OF op_in_bitset [OF assms(1) a(1) bits(2)]] bits(1) by auto
  obtain h' where h': "lift (heap st) (Some a) = Some h'" "list_ok es (insert (op_of es a) ?S) h'"
    using list_ok_lift [OF assms(1) ok rem assms(5)] by blast
  have id: "uint (n_id (heap st ! a)) = op_of es a" using ok a(1) uint_id [OF assms(1) a(1)] by (simp add: list_ok_def)
  show ?thesis
  proof (cases "cacheContains M (cache st) (b, s')")
    case True
    moreover have "\<forall>(T, t) \<in> P. T \<noteq> bits_of b" using trail_configs(1) [OF tr] a(2) b(2) by auto
    ultimately have "\<not> lin M es (bits_of b) s'" using cacheContains_dead [OF assms(3) cache] b(3) bits(2) by simp
    then have "dead M es ?S (sr_state st) a" using assms(6) b(2) by (simp add: dead_def)
    then show ?thesis using True b(1) by (simp add: linearize_def bitset_clone_def id Let_def)
  next
    case False
    have hd: "n_next (h' ! length es) = first (remaining es (insert (op_of es a) ?S))"
      using dll_next [of h' "[]"] h'(2) by (simp add: list_ok_def)
    have "trail M es h0 (calls st @ [(a, sr_state st)]) s' h' (insert (insert (op_of es a) ?S, s') P)"
      using trail_call [OF tr rem _ _ assms(6) h'(1)] pre assms(5) by auto
    moreover have "cache_ok M es (insert (insert (op_of es a) ?S, s') P)
        ((cache st)(bitset_hash b \<mapsto> mget [] (cache st) (bitset_hash b) @ [(b, s')]))"
      using cache_ok_insert [OF cache, of b s'] b(2,3) bits(2) by simp
    moreover have "linearize M (heap st ! a) (length es) a s' st = Some (st\<lparr>
        cache := (cache st)(bitset_hash b \<mapsto> mget [] (cache st) (bitset_hash b) @ [(b, s')]), calls := calls st @ [(a, sr_state st)],
        sr_state := s', linearized := b, heap := h', cursor := first (remaining es (insert (op_of es a) ?S))\<rparr>)"
      using False b(1) h' hd by (simp add: linearize_def bitset_clone_def id Let_def list_ok_def)
    ultimately show ?thesis using b(2,3) bits(2) lng by (fastforce simp: searching_def)
  qed
qed

lemma trail_addresses: "trail M es h0 cs s h P \<Longrightarrow> c \<in> set cs \<Longrightarrow> fst c < length es"
proof (induction rule: trail.induct)
  case (trail_call cs s h P pre a suf s' h')
  then show ?case using in_remaining [of a es "ids es cs"] by auto
qed simp

lemma callIds_eq:
  assumes "list_ok es S (heap st)" "\<And>c. c \<in> set (calls st) \<Longrightarrow> fst c < length es"
  shows "callIds st = Some (map (\<lambda>c. en_id (es ! fst c)) (calls st))"
  unfolding callIds_def
proof (rule those_map)
  fix c assume "c \<in> set (calls st)"
  then have "fst c < length es" by (rule assms(2))
  then show "map_option n_id (load (heap st) (Some (fst c))) = Some (en_id (es ! fst c))"
    using assms(1) by (simp add: list_ok_def)
qed

lemma longest_ok_more: "longest_ok M es (l, sq) \<Longrightarrow> longest_ok M es (l, sq @ [seq])"
  by (auto simp: longest_ok_def nth_append)

lemma longestLoop_ok:
  assumes "longest_ok M es (l, sq)" "p < length sq" "reach M es (sq ! p) s" "set is \<subseteq> set (sq ! p)"
    and "\<forall>i \<in> set is. 0 \<le> i \<and> nat i < length es div 2"
  shows "\<exists>l'. longestLoop sq p k is l = Some l' \<and> longest_ok M es (l', sq)"
  using assms(1,4,5)
proof (induction "is" arbitrary: l)
  case (Cons i "is")
  then have i: "in_range l i" "0 \<le> i" "i \<in> set (sq ! p)" by (auto simp: longest_ok_def in_range_def len_def)
  have "longest_ok M es (l[nat i := Some p], sq)"
    using Cons.prems(1) i assms(2,3) by (auto simp: longest_ok_def nth_list_update in_range_def len_def split: if_splits)
  then show ?case using Cons i(1) by (simp add: go_nth_def go_set_def)
qed simp

lemma searching_longest:
  assumes "wf_entries es" "list_ok es {} h0" "searching M es h0 st P pre suf"
  shows "\<exists>l sq. updateLongest st = Some (st\<lparr>longest := l, seqs := sq\<rparr>) \<and> searching M es h0 (st\<lparr>longest := l, seqs := sq\<rparr>) P pre suf"
proof -
  have tr: "trail M es h0 (calls st) (sr_state st) (heap st) P" and lng: "longest_ok M es (longest st, seqs st)"
    using assms(3) by (simp_all add: searching_def)
  define seq where "seq = map (\<lambda>c. en_id (es ! fst c)) (calls st)"
  have "callIds st = Some seq"
    using callIds_eq [OF trail_list [OF assms(1,2) tr]] trail_addresses [OF tr] by (simp add: seq_def)
  moreover have "\<forall>i \<in> set seq. 0 \<le> i \<and> nat i < length es div 2"
    using wf_id [OF assms(1)] trail_addresses [OF tr] op_of_less [OF assms(1)] by (auto simp: seq_def op_of_def)
  moreover have "reach M es ((seqs st @ [seq]) ! length (seqs st)) (sr_state st)" using trail_reach [OF tr] by (simp add: seq_def)
  ultimately obtain l where "updateLongest st = Some (st\<lparr>longest := l, seqs := seqs st @ [seq]\<rparr>)" "longest_ok M es (l, seqs st @ [seq])"
    using longestLoop_ok [OF longest_ok_more [OF lng], of "length (seqs st)" seq "sr_state st" seq "length (calls st)"]
    by (auto simp: updateLongest_def)
  then show ?thesis using assms(3) by (auto simp: searching_def)
qed

lemma backtrack_eq:
  assumes "wf_entries es" "list_ok es {} h0" "trail M es h0 cs s h P" "remaining es (ids es cs) = pre @ a # suf" "is_call es a"
    and "lift h (Some a) = Some h'" "calls st = cs @ [(a, s)]" "heap st = h'"
    and "bits_of (linearized st) = ids es (calls st)" "length (linearized st) = length (newBitset (length es div 2))"
  shows "\<exists>b. backtrack False st = Some (st\<lparr>sr_state := s, linearized := b, calls := cs, heap := h, cursor := first suf\<rparr>) \<and>
    bits_of b = ids es cs \<and> length b = length (linearized st)"
proof -
  note ok = trail_list [OF assms(1-3)]
  have h': "list_ok es (insert (op_of es a) (ids es cs)) h'" "unlift h' (Some a) = Some h"
    using list_ok_lift [OF assms(1) ok assms(4,5)] assms(6) by auto
  have a: "a < length es" "op_of es a \<notin> ids es cs" using assms(4) in_remaining [of a es "ids es cs"] by auto
  have id: "uint (n_id (h' ! a)) = op_of es a" using h'(1) uint_id [OF assms(1) a(1)] a(1) by (simp add: list_ok_def)
  obtain b where b: "bitset_clear (linearized st) (op_of es a) = Some b" "bits_of b = ids es cs" "length b = length (linearized st)"
    using bs.del_elems [OF op_in_bitset [OF assms(1) a(1) assms(10)]] assms(7,9) a(2) by auto
  have "n_next (h ! a) = first suf"
    using dll_next [of h "length es # pre" a suf] ok assms(4) by (simp add: list_ok_def)
  then have "backtrack False st = Some (st\<lparr>sr_state := s, linearized := b, calls := cs, heap := h, cursor := first suf\<rparr>)"
    using assms(7,8) h' id a(1) b(1) ok by (simp add: backtrack_def list_ok_def)
  then show ?thesis using b by blast
qed

lemma backtrack_partial:
  "backtrack True st = do { st \<leftarrow> updateLongest st; backtrack False st }"
  by (simp add: backtrack_def)

lemma searching_backtrack:
  assumes "wf_entries es" "list_ok es {} h0" "searching M es h0 st P pre (r # suf)" "\<not> is_call es r" "calls st = cs @ [(a, s)]"
  shows "\<exists>st' P' pre' suf'. backtrack computePartial st = Some st' \<and> calls st' = cs \<and>
    remaining es (ids es cs) = pre' @ a # suf' \<and> searching M es h0 st' P' (pre' @ [a]) suf'"
proof -
  have main: "\<exists>st' P' pre' suf'. backtrack False st = Some st' \<and> calls st' = cs \<and>
    remaining es (ids es cs) = pre' @ a # suf' \<and> searching M es h0 st' P' (pre' @ [a]) suf'"
    if st: "searching M es h0 st P pre (r # suf)" "calls st = cs @ [(a, s)]" for st
  proof -
    have "trail M es h0 (cs @ [(a, s)]) (sr_state st) (heap st) P" using st by (simp add: searching_def)
    then obtain h P' pre' suf' where tr: "trail M es h0 cs s h P'" "remaining es (ids es cs) = pre' @ a # suf'"
      "\<forall>x \<in> set (pre' @ [a]). is_call es x" "\<forall>x \<in> set pre'. dead M es (ids es cs) s x"
      "step_at M es s a = Some (True, sr_state st)" "lift h (Some a) = Some (heap st)"
      "P = insert (insert (op_of es a) (ids es cs), sr_state st) P'"
      by (rule trail_callE) auto
    have "\<not> lin M es (ids es (calls st)) (sr_state st)"
      using all_dead [of es "ids es (calls st)" pre r suf M "sr_state st"] st(1) assms(4) by (simp add: searching_def)
    then have no: "\<not> lin M es (insert (op_of es a) (ids es cs)) (sr_state st)" using st(2) by simp
    then have "dead M es (ids es cs) s a" using tr(5) by (simp add: dead_def)
    moreover have "cache_ok M es P' (cache st)" using cache_ok_drop no st(1) tr(7) by (auto simp: searching_def)
    moreover obtain b where "backtrack False st = Some (st\<lparr>sr_state := s, linearized := b, calls := cs, heap := h, cursor := first suf'\<rparr>)"
      "bits_of b = ids es cs" "length b = length (linearized st)"
      using backtrack_eq [OF assms(1,2) tr(1,2) _ tr(6), of st] tr(3) st by (auto simp: searching_def)
    ultimately show ?thesis using tr(1-4) st(1) by (fastforce simp: searching_def)
  qed
  show ?thesis
  proof (cases computePartial)
    case True
    obtain l sq where "updateLongest st = Some (st\<lparr>longest := l, seqs := sq\<rparr>)" "searching M es h0 (st\<lparr>longest := l, seqs := sq\<rparr>) P pre (r # suf)"
      using searching_longest [OF assms(1-3)] by blast
    then show ?thesis using main [of "st\<lparr>longest := l, seqs := sq\<rparr>"] assms(5) True by (simp add: backtrack_partial)
  qed (use main [OF assms(3,5)] in simp)
qed

section \<open>Progress\<close>

text \<open>
  Every iteration moves the search forward in the lexicographic order on the positions of the calls
  on the stack and of the cursor; here as a number, with one digit per operation.
\<close>

definition weight :: "'v entry list \<Rightarrow> (nat \<times> 's) list \<Rightarrow> nat" where
  "weight es cs = (\<Sum>i < length cs. (length (dropWhile (\<lambda>x. x \<noteq> fst (cs ! i)) (remaining es (ids es (take i cs)))) - 1) *
     Suc (length es) ^ (length es div 2 - i))"

definition mu :: "'v entry list \<Rightarrow> (nat \<times> 's) list \<Rightarrow> nat list \<Rightarrow> nat" where
  "mu es cs suf = weight es cs + length suf * Suc (length es) ^ (length es div 2 - length cs)"

lemma weight_snoc:
  assumes "remaining es (ids es cs) = pre @ a # suf"
  shows "weight es (cs @ [(a, s)]) = weight es cs + length suf * Suc (length es) ^ (length es div 2 - length cs)"
proof -
  have "a \<notin> set pre" using remaining_distinct [of es "ids es cs"] by (simp add: assms)
  then have "dropWhile (\<lambda>x. x \<noteq> a) (pre @ a # suf) = a # suf" by (subst dropWhile_append2) auto
  moreover have "weight es (cs @ [(a, s)]) = weight es cs + (length (dropWhile (\<lambda>x. x \<noteq> a) (remaining es (ids es cs))) - 1) *
      Suc (length es) ^ (length es div 2 - length cs)"
    unfolding weight_def by (auto simp: nth_append intro!: sum.cong)
  ultimately show ?thesis by (simp add: assms)
qed

lemma mu_skip: "mu es cs suf < mu es cs (a # suf)"
  by (simp add: mu_def)

lemma mu_call:
  assumes "remaining es (ids es cs) = pre @ a # suf" "length cs < length es div 2" "length rest \<le> length es"
  shows "mu es (cs @ [(a, s)]) rest < mu es cs (a # suf)"
proof -
  let ?B = "Suc (length es)"
  have "length es div 2 - length cs = Suc (length es div 2 - Suc (length cs))" using assms(2) by simp
  then have "?B ^ (length es div 2 - length cs) = ?B * ?B ^ (length es div 2 - Suc (length cs))" by (simp only: power_Suc)
  moreover have "length rest * ?B ^ (length es div 2 - Suc (length cs)) < ?B * ?B ^ (length es div 2 - Suc (length cs))"
    using assms(3) by (intro mult_less_mono1) auto
  ultimately show ?thesis by (simp add: mu_def weight_snoc [OF assms(1)])
qed

lemma mu_backtrack:
  assumes "remaining es (ids es cs) = pre @ a # suf"
  shows "mu es cs suf < mu es (cs @ [(a, s)]) (r # rest)"
  by (simp add: mu_def weight_snoc [OF assms])

definition Step_total :: "('v, 's) Model \<Rightarrow> 'v entry list \<Rightarrow> bool" where
  "Step_total M es \<longleftrightarrow> (\<forall>s a. a < length es \<longrightarrow> is_call es a \<longrightarrow> step_at M es s a \<noteq> None)"

lemma checkStep_call:
  assumes "wf_entries es" "list_ok es S (heap st)" "cursor st = Some a" "a < length es" "is_call es a" "step_at M es (sr_state st) a = Some (ok, s')"
  shows "checkStep M computePartial (length es) st =
    (if ok then map_option Inl (linearize M (heap st ! a) (length es) a s' st) else Some (Inl (st\<lparr>cursor := n_next (heap st ! a)\<rparr>)))"
proof -
  obtain r where "match_at es a = Some r" "r < a" using match_at_call [OF assms(1,4,5)] .
  then show ?thesis using assms(2-6) by (simp add: checkStep_def list_ok_def step_at_def)
qed

lemma checkStep_searching:
  assumes "wf_entries es" "list_ok es {} h0" "Equal_sound M" "Step_total M es" "searching M es h0 st P pre suf" "suf \<noteq> []"
  shows "(\<exists>st' P' pre' suf'. checkStep M computePartial (length es) st = Some (Inl st') \<and> searching M es h0 st' P' pre' suf' \<and>
      mu es (calls st') suf' < mu es (calls st) suf) \<or>
    (checkStep M computePartial (length es) st = Some (Inr (False, longest st, seqs st)) \<and> \<not> lin M es {} (Init M))"
proof -
  obtain a suf1 where suf: "suf = a # suf1" using assms(6) by (cases suf) auto
  let ?S = "ids es (calls st)"
  have tr: "trail M es h0 (calls st) (sr_state st) (heap st) P" and rem: "remaining es ?S = pre @ a # suf1" and cur: "cursor st = Some a"
    using assms(5) suf by (simp_all add: searching_def)
  note ok = trail_list [OF assms(1,2) tr]
  have a: "a < length es" "op_of es a \<notin> ?S" using rem in_remaining [of a es ?S] by auto
  note st = assms(5) [unfolded suf]
  show ?thesis
  proof (cases "is_call es a")
    case True
    then obtain b s' where s': "step_at M es (sr_state st) a = Some (b, s')" using assms(4) a(1) unfolding Step_total_def by fastforce
    note chk = checkStep_call [OF assms(1) ok cur a(1) True s', of computePartial]
    have skip: ?thesis if "dead M es ?S (sr_state st) a"
        "checkStep M computePartial (length es) st = Some (Inl (st\<lparr>cursor := n_next (heap st ! a)\<rparr>))"
      using searching_skip [OF assms(1,2) st True that(1)] that(2) mu_skip unfolding suf by fastforce
    show ?thesis
    proof (cases b)
      case False
      then show ?thesis using skip chk s' by (simp add: dead_def)
    next
      case b: True
      have "card (insert (op_of es a) ?S) \<le> length es div 2"
        using trail_length [OF assms(1) tr] op_of_less [OF assms(1) a(1)] card_mono [of "{..<length es div 2}" "insert (op_of es a) ?S"] by auto
      then have "length (calls st) < length es div 2"
        using trail_length [OF assms(1) tr] a(2) by (simp add: ids_def)
      then show ?thesis
        using searching_call [OF assms(1-3) st True, of s'] s' b chk skip mu_call [OF rem _ remaining_length] unfolding suf by fastforce
    qed
  next
    case False
    then have nomatch: "n_match (heap st ! a) = None" "a < length (heap st)" using ok a(1) match_at_iff [OF assms(1)] by (auto simp: list_ok_def)
    show ?thesis
    proof (cases "calls st" rule: rev_exhaust)
      case Nil
      then have "sr_state st = Init M" using tr by (auto elim: trail_initE)
      then have "\<not> lin M es {} (Init M)"
        using all_dead [OF rem False, of M "Init M"] Nil st by (simp add: searching_def)
      then show ?thesis using nomatch cur Nil by (simp add: checkStep_def)
    next
      case (snoc cs c)
      then obtain a' s where c: "calls st = cs @ [(a', s)]" by (cases c) auto
      then have "checkStep M computePartial (length es) st = map_option Inl (backtrack computePartial st)"
        using nomatch cur by (simp add: checkStep_def)
      then show ?thesis
        using searching_backtrack [OF assms(1,2) st False c, of computePartial] mu_backtrack [of es cs] c suf by fastforce
    qed
  qed
qed

end
