(* ===== verification/Kv_Model.thy ===== *)
theory Kv_Model
  imports Porcupine "HOL-Library.List_Lexorder" "HOL-Library.Char_ord"
begin

text \<open>
  The model of a key/value store that the tests hand to the linearizability checker:
  src/src/models/kv.go. It describes the value of one key; a history is first split by key. The
  values that occur in histories are the two dynamic types of \<open>kvValue\<close>; a type assertion that fails is a panic
  (\<open>None\<close>). The argument \<open>ord\<close> is the order in which \<open>range\<close> visits the map of partitions. \<open>sort.Strings\<close> orders
  strings by their bytes, as \<open>sort\<close> does here.
\<close>

record KvInput =
  ki_Op :: "8 word"
  ki_Key :: string
  ki_Value :: string

record KvOutput =
  ko_Value :: string

datatype kvValue = KvIn KvInput | KvOut KvOutput

definition as_KvInput :: "kvValue iface \<Rightarrow> KvInput option" where
  "as_KvInput v = (case v of Some (KvIn i) \<Rightarrow> Some i | _ \<Rightarrow> None)"

definition as_KvOutput :: "kvValue iface \<Rightarrow> KvOutput option" where
  "as_KvOutput v = (case v of Some (KvOut x) \<Rightarrow> Some x | _ \<Rightarrow> None)"

fun kvGroup :: "kvValue Operation list \<Rightarrow> (string \<rightharpoonup> kvValue Operation list) \<Rightarrow> (string \<rightharpoonup> kvValue Operation list) option" where
  "kvGroup [] m = Some m"
| "kvGroup (v # history) m = do {
     inp \<leftarrow> as_KvInput (op_Input v);
     let key = ki_Key inp;
     kvGroup history (m(key \<mapsto> mget [] m key @ [v]))
   }"

definition kvPartition :: "((string \<rightharpoonup> kvValue Operation list) \<Rightarrow> string list) \<Rightarrow> kvValue Operation list \<Rightarrow> kvValue Operation list list option" where
  "kvPartition ord history = do {
     m \<leftarrow> kvGroup history Map.empty;
     let keys = go_range (ord m) m (\<lambda>k _ keys. keys @ [k]) [];
     let keys = sort keys;
     Some (map (mget [] m) keys)
   }"

definition kvStep :: "string \<Rightarrow> kvValue iface \<Rightarrow> kvValue iface \<Rightarrow> (bool \<times> string) option" where
  "kvStep st input output = do {
     inp \<leftarrow> as_KvInput input;
     out \<leftarrow> as_KvOutput output;
     Some (if ki_Op inp = 0 then (ko_Value out = st, st)
       else if ki_Op inp = 1 then (True, ki_Value inp)
       else (True, st @ ki_Value inp))
   }"

definition KvModel :: "((string \<rightharpoonup> kvValue Operation list) \<Rightarrow> string list) \<Rightarrow> (kvValue, string) Model" where
  "KvModel ord = \<lparr>Partition = Some (kvPartition ord), PartitionEvent = None, Init = [], Step = kvStep, Equal = None\<rparr>"

end
