(* ===== verification/Porcupine_Correct.thy ===== *)
theory Porcupine_Correct
  imports Porcupine_Search Kv_Model
begin

text \<open>
  Correctness of the linearizability checker of src/src/porcupine: \<open>checkSingle\<close> decides whether a
  history can be linearized, and \<open>CheckOperations\<close>, \<open>CheckEvents\<close> and their variants report it for
  every partition, whatever the order in which the goroutines finish.
\<close>

section \<open>The loop\<close>

lemma wf_surj:
  assumes "wf_entries es" "i < length es div 2"
  obtains a where "a < length es" "is_call es a" "op_of es a = i"
proof -
  let ?f = "\<lambda>e. (en_kind e, en_id e)" and ?n = "length es div 2"
  have UN: "(UNIV :: entryKind set) = {callEntry, returnEntry}" by (auto intro: entryKind.exhaust)
  have sub: "set (map ?f es) \<subseteq> UNIV \<times> {0..<int ?n}" using assms(1) by (auto simp: wf_entries_def len_def zdiv_int)
  have "card (set (map ?f es)) = length es" using assms(1) distinct_card by (force simp: wf_entries_def)
  then have "card (UNIV \<times> {0..<int ?n} :: (entryKind \<times> int) set) \<le> card (set (map ?f es))" by (simp add: card_cartesian_product UN)
  then have "set (map ?f es) = UNIV \<times> {0..<int ?n}" by (intro card_seteq [OF _ sub]) (simp_all add: UN)
  then have "(callEntry, int i) \<in> set (map ?f es)" using assms(2) by auto
  then obtain a where "a < length es" "en_kind (es ! a) = callEntry" "en_id (es ! a) = int i" by (auto simp: in_set_conv_nth)
  then show ?thesis using that by (simp add: is_call_def op_of_def)
qed

lemma remaining_return:
  assumes "wf_entries es" "remaining es S = pre @ suf" "pre @ suf \<noteq> []" "\<forall>x \<in> set pre. is_call es x"
  shows "suf \<noteq> []"
proof
  assume "suf = []"
  then obtain a pre1 where "remaining es S = [] @ a # pre1" "is_call es a" using assms(2-4) by (cases pre) auto
  then obtain mid r suf1 where "pre1 = mid @ r # suf1" "match_at es a = Some r"
    using remaining_split [OF assms(1)] by metis
  then have "r \<in> set pre" "a \<in> set (remaining es S)" using \<open>remaining es S = [] @ a # pre1\<close> assms(2) \<open>suf = []\<close> by auto
  then have a: "a < length es" using in_remaining [of a es S] by simp
  have "\<not> is_call es r" using match_at_call [OF assms(1) a \<open>is_call es a\<close>] \<open>match_at es a = Some r\<close> by (metis option.inject)
  then show False using \<open>r \<in> set pre\<close> assms(4) by blast
qed

lemma checkReturn_searching:
  assumes "wf_entries es" "list_ok es {} h0" "searching M es h0 st P pre suf" "remaining es (ids es (calls st)) = []"
  shows "\<exists>l. checkReturn (length es div 2) st = Some (True, l) \<and> longest_ok M es l \<and> lin M es {} (Init M)"
proof -
  have tr: "trail M es h0 (calls st) (sr_state st) (heap st) P" using assms(3) by (simp add: searching_def)
  define seq where "seq = map (\<lambda>c. en_id (es ! fst c)) (calls st)"
  have reach: "reach M es seq (sr_state st)" using trail_reach [OF tr] by (simp add: seq_def)
  have "callIds st = Some seq"
    using callIds_eq [OF trail_list [OF assms(1,2) tr]] trail_addresses [OF tr] by (simp add: seq_def)
  moreover have "int i \<in> set seq" if i: "i < length es div 2" for i
  proof -
    obtain a where a: "a < length es" "op_of es a = i" using wf_surj [OF assms(1) i] by metis
    then have "i \<in> ids es (calls st)" using in_remaining [of a es "ids es (calls st)"] assms(4) by auto
    then obtain c where "c \<in> set (calls st)" "i = nat (en_id (es ! fst c))" by (auto simp: ids_def op_of_def)
    then show ?thesis using wf_id [OF assms(1)] trail_addresses [OF tr] by (auto simp: seq_def)
  qed
  moreover have "lin M es (nat ` set seq) (sr_state st)"
    using assms(4) trail_configs(2) [OF tr] by (auto simp: seq_def intro: lin_done)
  ultimately show ?thesis using reach reach_lin [OF reach] by (auto simp: checkReturn_def longest_ok_def)
qed

definition loop_result :: "('v, 's) Model \<Rightarrow> 'v entry list \<Rightarrow> nat \<Rightarrow> bool list \<Rightarrow> ('v, 's) search + bool \<times> longestSeqs \<Rightarrow> bool" where
  "loop_result M es bound kills r \<longleftrightarrow>
     (case r of Inl _ \<Rightarrow> length kills < bound
      | Inr (ok, l) \<Rightarrow> longest_ok M es l \<and> (ok \<longrightarrow> lin M es {} (Init M)) \<and> (\<not> ok \<longrightarrow> True \<in> set kills \<or> \<not> lin M es {} (Init M)))"

lemma loop_result_simps [simp]:
  "loop_result M es bound kills (Inl st) \<longleftrightarrow> length kills < bound"
  "loop_result M es bound kills (Inr (ok, l)) \<longleftrightarrow>
     longest_ok M es l \<and> (ok \<longrightarrow> lin M es {} (Init M)) \<and> (\<not> ok \<longrightarrow> True \<in> set kills \<or> \<not> lin M es {} (Init M))"
  by (simp_all add: loop_result_def)

lemma loop_result_more: "loop_result M es bound kills r \<Longrightarrow> bound < bound' \<Longrightarrow> loop_result M es bound' (False # kills) r"
  by (auto simp: loop_result_def split: sum.splits)

lemma searching_head:
  assumes "wf_entries es" "list_ok es {} h0" "searching M es h0 st P pre suf"
  shows "load (heap st) (Some (length es)) = Some (heap st ! length es)"
    and "n_next (heap st ! length es) = None \<longleftrightarrow> remaining es (ids es (calls st)) = []"
    and "n_next (heap st ! length es) \<noteq> None \<Longrightarrow> suf \<noteq> []"
proof -
  have st: "trail M es h0 (calls st) (sr_state st) (heap st) P" "remaining es (ids es (calls st)) = pre @ suf" "\<forall>x \<in> set pre. is_call es x"
    using assms(3) by (simp_all add: searching_def)
  have ok: "length es < length (heap st)" "dll (heap st) ([] @ length es # pre @ suf)"
    using trail_list [OF assms(1,2) st(1)] st(2) by (simp_all add: list_ok_def)
  then show "load (heap st) (Some (length es)) = Some (heap st ! length es)" by simp
  have nx: "n_next (heap st ! length es) = None \<longleftrightarrow> pre @ suf = []" using dll_next [OF ok(2)] by (cases "pre @ suf") simp_all
  then show "n_next (heap st ! length es) = None \<longleftrightarrow> remaining es (ids es (calls st)) = []" by (simp only: st(2))
  show "n_next (heap st ! length es) \<noteq> None \<Longrightarrow> suf \<noteq> []" using remaining_return [OF assms(1) st(2) _ st(3)] nx by blast
qed

lemma checkLoop_searching:
  assumes "wf_entries es" "list_ok es {} h0" "Equal_sound M" "Step_total M es" "searching M es h0 st P pre suf"
  shows "\<exists>r. checkLoop M computePartial (length es div 2) (length es) kills st = Some r \<and> loop_result M es (mu es (calls st) suf) kills r"
  using assms(5)
proof (induction kills arbitrary: st P pre suf)
  case Nil
  note hd = searching_head [OF assms(1,2) Nil]
  show ?case
  proof (cases "n_next (heap st ! length es)")
    case None
    then obtain l where "checkReturn (length es div 2) st = Some (True, l)" "longest_ok M es l" "lin M es {} (Init M)"
      using checkReturn_searching [OF assms(1,2) Nil] hd(2) by blast
    then show ?thesis using hd(1) None by (intro exI [of _ "Inr (True, l)"]) simp
  next
    case (Some a)
    then show ?thesis using hd(1,3) by (auto simp: mu_def)
  qed
next
  case (Cons kill kills)
  note hd = searching_head [OF assms(1,2) Cons.prems]
  show ?case
  proof (cases "n_next (heap st ! length es)")
    case None
    then obtain l where "checkReturn (length es div 2) st = Some (True, l)" "longest_ok M es l" "lin M es {} (Init M)"
      using checkReturn_searching [OF assms(1,2) Cons.prems] hd(2) by blast
    then show ?thesis using hd(1) None by (intro exI [of _ "Inr (True, l)"]) simp
  next
    case (Some a)
    then consider st' P' pre' suf' where "checkStep M computePartial (length es) st = Some (Inl st')" "searching M es h0 st' P' pre' suf'"
        "mu es (calls st') suf' < mu es (calls st) suf"
      | "checkStep M computePartial (length es) st = Some (Inr (False, longest st, seqs st))" "\<not> lin M es {} (Init M)"
      using checkStep_searching [OF assms(1-4) Cons.prems] hd(3) by blast
    then show ?thesis
    proof cases
      case 1
      then show ?thesis
        using Cons.IH [OF 1(2)] loop_result_more [OF _ 1(3)] hd(1) Some Cons.prems by (cases kill) (auto simp: searching_def)
    next
      case 2
      then show ?thesis using hd(1) Some Cons.prems by (cases kill) (auto simp: searching_def)
    qed
  qed
qed

text \<open>The number of iterations is bounded by a function of the number of entries.\<close>

definition enough :: "nat \<Rightarrow> nat" where
  "enough n = n * Suc n ^ (n div 2)"

lemma checkSingle_search:
  assumes "wf_entries (rev history)" "Equal_sound M" "Step_total M (rev history)"
  shows "\<exists>r. checkSingle M history computePartial kills = Some r \<and> loop_result M (rev history) (enough (length history)) kills r"
proof -
  define es where "es = rev history"
  have "chained []" by (simp add: chained_def)
  from linkEntries_chained [OF this, of es Map.empty] obtain h1 where h1:
    "linkEntries es [] None Map.empty = Some (h1, root_of h1)" "chained h1" "length h1 = length es"
    "\<forall>j < length es. n_value (h1 ! j) = en_value (es ! j) \<and> n_id (h1 ! j) = en_id (es ! j) \<and> n_match (h1 ! j) = match_at es j"
    by (auto simp: root_of_def match_at_def)
  from insertBefore_chained [OF h1(2), of None None "-1"] obtain h0 where h0:
    "insertBefore (h1 @ [new_node None None (- 1)]) (length h1) (root_of h1) = Some h0" "chained h0"
    "same_nodes (h1 @ [new_node None None (- 1)]) h0" by blast
  have all: "remaining es {} = rev [0..<length es]" by (simp add: remaining_def)
  have len: "length h0 = Suc (length es)" using h0(3) h1(3) by (simp add: same_nodes_def)
  then have "dll h0 (length es # remaining es {})" using chained_dll [OF h0(2)] all by fastforce
  then have ok: "list_ok es {} h0" using h0(3) h1(3,4) len by (auto simp: list_ok_def same_nodes_def nth_append)
  let ?st = "\<lparr>heap = h0, cursor = root_of h1, linearized = newBitset (length es div 2), cache = Map.empty, calls = [],
    longest = replicate (length es div 2) None, seqs = [], sr_state = Init M\<rparr>"
  have "first (rev [0..<length es]) = root_of h1" using h1(3) by (cases "length es") (auto simp: root_of_def)
  then have "searching M es h0 ?st {} [] (remaining es {})"
    by (simp add: searching_def trail_init all bs.mk_elems cache_ok_def longest_ok_def bs.filed_def bs.entries_of_def)
  from checkLoop_searching [OF _ ok assms(2) _ this, of computePartial kills]
  obtain r where r: "checkLoop M computePartial (length es div 2) (length es) kills ?st = Some r" "loop_result M es (enough (length es)) kills r"
    using assms(1,3) by (auto simp: es_def [symmetric] mu_def weight_def enough_def all)
  have "checkSingle M history computePartial kills = Some r"
    using r(1) h1 h0(1) length_node_chained [OF h1(2)] by (simp add: checkSingle_def makeLinkedEntries_def es_def Let_def)
  then show ?thesis using r(2) by (simp add: es_def)
qed

section \<open>Linearizability\<close>

text \<open>
  A sequence of pairs of input and output that the model can do from a state, each step being allowed.
\<close>

fun legal :: "('v, 's) Model \<Rightarrow> 's \<Rightarrow> ('v iface \<times> 'v iface) list \<Rightarrow> bool" where
  "legal M s [] \<longleftrightarrow> True"
| "legal M s ((i, out) # xs) \<longleftrightarrow> (\<exists>s'. Step M s i out = Some (True, s') \<and> legal M s' xs)"

text \<open>
  A history of \<open>n\<close> operations is linearizable if they can be put into an order that the model can do
  and in which no operation comes after one that was called only after it had returned.
\<close>

definition linearization :: "('v, 's) Model \<Rightarrow> (nat \<Rightarrow> 'v iface) \<Rightarrow> (nat \<Rightarrow> 'v iface) \<Rightarrow> (nat \<Rightarrow> nat \<Rightarrow> bool) \<Rightarrow> nat set \<Rightarrow> 's \<Rightarrow> nat list \<Rightarrow> bool" where
  "linearization M inp outp before ops s seq \<longleftrightarrow> distinct seq \<and> set seq = ops \<and> sorted_wrt (\<lambda>i j. \<not> before j i) seq \<and>
     legal M s (map (\<lambda>i. (inp i, outp i)) seq)"

definition linearizable :: "('v, 's) Model \<Rightarrow> 'v Operation list \<Rightarrow> bool" where
  "linearizable M history \<longleftrightarrow> (\<exists>seq. linearization M (\<lambda>i. op_Input (history ! i)) (\<lambda>i. op_Output (history ! i))
     (\<lambda>i j. op_Return (history ! i) < op_Call (history ! j)) {..<length history} (Init M) seq)"

text \<open>What the entries of a history say of its operations.\<close>

definition describes :: "'v entry list \<Rightarrow> (nat \<Rightarrow> 'v iface) \<Rightarrow> (nat \<Rightarrow> 'v iface) \<Rightarrow> (nat \<Rightarrow> nat \<Rightarrow> bool) \<Rightarrow> bool" where
  "describes es inp outp before \<longleftrightarrow>
     (\<forall>a < length es. en_value (es ! a) = (if is_call es a then inp else outp) (op_of es a)) \<and>
     (\<forall>a < length es. \<forall>r < length es. is_call es a \<longrightarrow> \<not> is_call es r \<longrightarrow> (a < r \<longleftrightarrow> before (op_of es r) (op_of es a)))"

lemma describes_before:
  "describes es inp outp before \<Longrightarrow> a < length es \<Longrightarrow> r < length es \<Longrightarrow> is_call es a \<Longrightarrow> \<not> is_call es r \<Longrightarrow>
   a < r \<longleftrightarrow> before (op_of es r) (op_of es a)"
  by (simp add: describes_def)

lemma describes_step:
  assumes "wf_entries es" "describes es inp outp before" "a < length es" "is_call es a"
  shows "step_at M es s a = Step M s (inp (op_of es a)) (outp (op_of es a))"
proof -
  obtain r where "match_at es a = Some r" "r < a" "\<not> is_call es r" "op_of es r = op_of es a" using match_at_call [OF assms(1,3,4)] .
  then show ?thesis using assms(2-4) by (simp add: step_at_def describes_def)
qed

lemma lin_linearization:
  assumes "wf_entries es" "describes es inp outp before" "lin M es S s"
  shows "\<exists>seq. linearization M inp outp before ({..<length es div 2} - S) s seq"
  using assms(3)
proof induction
  case (lin_done S s)
  have "i \<in> S" if "i < length es div 2" for i
    using wf_surj [OF assms(1) that] in_remaining [of _ es S] lin_done by (metis empty_iff list.set(1))
  then have "{..<length es div 2} - S = {}" by auto
  then show ?case by (intro exI [of _ "[]"]) (simp add: linearization_def)
next
  case (lin_step S pre a suf s s')
  then obtain seq where seq: "linearization M inp outp before ({..<length es div 2} - insert (op_of es a) S) s' seq" by blast
  have a: "a < length es" "op_of es a \<notin> S" "is_call es a" using lin_step.hyps(1,2) in_remaining [of a es S] by auto
  have "\<not> before j (op_of es a)" if j: "j \<in> set seq" for j
  proof
    assume bef: "before j (op_of es a)"
    have j': "j < length es div 2" "j \<notin> S" "j \<noteq> op_of es a" using j seq by (auto simp: linearization_def)
    obtain b where b: "b < length es" "is_call es b" "op_of es b = j" using wf_surj [OF assms(1) j'(1)] .
    obtain r where r: "r < b" "\<not> is_call es r" "op_of es r = j" using match_at_call [OF assms(1) b(1,2)] b(3) by metis
    then have "a < r" "r \<in> set (remaining es S)" using bef assms(2) a b(1) j'(2) by (auto simp: describes_def in_remaining)
    moreover have "\<forall>x \<in> set suf. x < a" using remaining_desc [of es S] by (auto simp: lin_step.hyps(1) sorted_wrt_append)
    ultimately have "r \<in> set pre" using lin_step.hyps(1) by auto
    then show False using r(2) lin_step.hyps(2) by auto
  qed
  moreover have "op_of es a < length es div 2" using op_of_less [OF assms(1) a(1)] .
  ultimately have "linearization M inp outp before ({..<length es div 2} - S) s (op_of es a # seq)"
    using seq lin_step.hyps(3) a describes_step [OF assms(1,2) a(1,3), of M s] by (auto simp: linearization_def)
  then show ?case by blast
qed

lemma linearization_lin:
  assumes "wf_entries es" "describes es inp outp before" "linearization M inp outp before ({..<length es div 2} - S) s seq"
  shows "lin M es S s"
  using assms(3)
proof (induction seq arbitrary: S s)
  case Nil
  then have "{..<length es div 2} \<subseteq> S" by (auto simp: linearization_def)
  then have "x \<notin> set (remaining es S)" for x using op_of_less [OF assms(1), of x] by (auto simp: in_remaining)
  then show ?case by (intro lin_done) (metis list.set_intros(1) neq_Nil_conv)
next
  case (Cons i seq)
  then have i: "i < length es div 2" "i \<notin> S" "i \<notin> set seq" "set seq = {..<length es div 2} - insert i S"
    by (auto simp: linearization_def)
  obtain a where a: "a < length es" "is_call es a" "op_of es a = i" using wf_surj [OF assms(1) i(1)] .
  then obtain pre suf where split: "remaining es S = pre @ a # suf" using i(2) in_remaining [of a es S] by (metis split_list)
  have "is_call es x" if x: "x \<in> set pre" for x
  proof (rule ccontr)
    assume ret: "\<not> is_call es x"
    have gt: "a < x" using remaining_desc [of es S] x by (auto simp: split sorted_wrt_append)
    have "x \<in> set (remaining es S)" using x split by simp
    then have x': "x < length es" "op_of es x \<notin> S" by (simp_all add: in_remaining)
    obtain r where "match_at es a = Some r" "r < a" using match_at_call [OF assms(1) a(1,2)] .
    then have "op_of es x \<noteq> i" using same_op_cases [OF assms(1) a(1,2) _ x'(1)] a(3) gt by fastforce
    moreover have "before (op_of es x) i" using describes_before [OF assms(2) a(1) x'(1) a(2) ret] a(3) gt by simp
    ultimately show False using Cons.prems op_of_less [OF assms(1) x'(1)] x'(2) i(4) by (auto simp: linearization_def)
  qed
  moreover obtain s' where "step_at M es s a = Some (True, s')" "legal M s' (map (\<lambda>i. (inp i, outp i)) seq)"
    using Cons.prems describes_step [OF assms(1,2) a(1,2), of M s] a(3) by (auto simp: linearization_def)
  moreover from this have "lin M es (insert (op_of es a) S) s'"
    using Cons.IH Cons.prems i(4) a(3) by (auto simp: linearization_def)
  ultimately show ?case using lin_step [OF split] a(2) by auto
qed

section \<open>Histories of operations\<close>

definition timely :: "'v Operation list \<Rightarrow> bool" where
  "timely history \<longleftrightarrow> list_all (\<lambda>v. op_Call v \<le> op_Return v) history"

definition entry_of :: "'v Operation list \<Rightarrow> int \<Rightarrow> nat \<Rightarrow> 'v entry \<Rightarrow> bool" where
  "entry_of history k i e \<longleftrightarrow> i < length history \<and> en_id e = k + int i \<and>
     (if en_kind e = callEntry then en_value e = op_Input (history ! i) \<and> en_time e = op_Call (history ! i)
      else en_value e = op_Output (history ! i) \<and> en_time e = op_Return (history ! i))"

lemma operationEntries_set: "e \<in> set (operationEntries k history) \<Longrightarrow> \<exists>i. entry_of history k i e"
proof (induction k history rule: operationEntries.induct)
  case (2 k v history)
  then consider "entry_of (v # history) k 0 e" | i where "entry_of history (k + 1) i e"
    by (auto simp: entry_of_def)
  then show ?case
  proof cases
    case (2 i)
    then have "entry_of (v # history) k (Suc i) e" by (auto simp: entry_of_def)
    then show ?thesis by blast
  qed blast
qed simp

lemma operationEntries_length: "length (operationEntries k history) = 2 * length history"
  by (induction k history rule: operationEntries.induct) simp_all

lemma operationEntries_distinct: "distinct (map (\<lambda>e. (en_kind e, en_id e)) (operationEntries k history))"
proof (induction k history rule: operationEntries.induct)
  case (2 k v history)
  have "en_id e > k" if "e \<in> set (operationEntries (k + 1) history)" for e
    using operationEntries_set [OF that] by (auto simp: entry_of_def)
  then show ?case using 2 by fastforce
qed simp

lemma operationEntries_all:
  "i < length history \<Longrightarrow> \<exists>e \<in> set (operationEntries k history). en_kind e = kd \<and> en_id e = k + int i"
proof (induction k history arbitrary: i rule: operationEntries.induct)
  case (2 k v history)
  show ?case
  proof (cases i)
    case 0
    then show ?thesis by (cases kd) auto
  next
    case (Suc j)
    then show ?thesis using 2 by fastforce
  qed
qed simp

lemma makeEntries_index:
  assumes "sorts_by_time srt" "es = rev (makeEntries srt history)" "a < length es"
  obtains i where "i < length history" "op_of es a = i" "en_id (es ! a) = int i" "en_value (es ! a) = (if is_call es a then op_Input else op_Output) (history ! i)"
    "en_time (es ! a) = (if is_call es a then op_Call else op_Return) (history ! i)"
proof -
  have "es ! a \<in> set (operationEntries 0 history)"
    using assms nth_mem [OF assms(3)] by (simp add: makeEntries_def sorts_by_time_def) (metis set_mset_mset)
  then obtain i where "entry_of history 0 i (es ! a)" using operationEntries_set by blast
  then show ?thesis using that by (auto simp: entry_of_def op_of_def is_call_def split: if_splits)
qed

lemma makeEntries_order:
  assumes "sorts_by_time srt" "es = rev (makeEntries srt history)" "a < b" "b < length es"
  shows "\<not> Less (es ! a) (es ! b)"
proof -
  have "sorted_wrt (\<lambda>a b. \<not> Less b a) (rev es)" using assms(1,2) by (simp add: sorts_by_time_def makeEntries_def)
  then have "sorted_wrt (\<lambda>a b. \<not> Less a b) es" by (simp add: sorted_wrt_rev)
  then show ?thesis using assms(3,4) by (auto simp: sorted_wrt_iff_nth_less)
qed

lemma makeEntries_describes:
  assumes "sorts_by_time srt" "es = rev (makeEntries srt history)"
  shows "describes es (\<lambda>i. op_Input (history ! i)) (\<lambda>i. op_Output (history ! i)) (\<lambda>i j. op_Return (history ! i) < op_Call (history ! j))"
proof -
  have "a < r \<longleftrightarrow> op_Return (history ! op_of es r) < op_Call (history ! op_of es a)"
    if ar: "a < length es" "r < length es" "is_call es a" "\<not> is_call es r" for a r
  proof -
    have times: "en_time (es ! a) = op_Call (history ! op_of es a)" "en_time (es ! r) = op_Return (history ! op_of es r)"
      using makeEntries_index [OF assms ar(1)] makeEntries_index [OF assms ar(2)] ar(3,4) by metis+
    have "a \<noteq> r" "en_kind (es ! a) = callEntry" "en_kind (es ! r) = returnEntry"
      using ar not_call is_call_def by metis+
    then show ?thesis
      using makeEntries_order [OF assms, of a r] makeEntries_order [OF assms, of r a] ar(1,2) times
      by (cases "a < r") (auto simp: Less_def split: if_splits)
  qed
  moreover have "en_value (es ! a) = (if is_call es a then op_Input else op_Output) (history ! op_of es a)" if "a < length es" for a
    using makeEntries_index [OF assms that] by metis
  ultimately show ?thesis by (auto simp: describes_def)
qed

lemma makeEntries_wf:
  assumes "sorts_by_time srt" "es = rev (makeEntries srt history)" "timely history"
  shows "wf_entries es" "length es = 2 * length history"
proof -
  have ms: "mset es = mset (operationEntries 0 history)" using assms(1,2) by (simp add: sorts_by_time_def makeEntries_def)
  then show len: "length es = 2 * length history" by (metis operationEntries_length size_mset)
  have "mset (map (\<lambda>e. (en_kind e, en_id e)) es) = mset (map (\<lambda>e. (en_kind e, en_id e)) (operationEntries 0 history))" using ms by simp
  then have dist: "distinct (map (\<lambda>e. (en_kind e, en_id e)) es)" using operationEntries_distinct mset_eq_imp_distinct_iff by blast
  have range: "0 \<le> en_id e \<and> en_id e < len es div 2" if "e \<in> set es" for e
    using operationEntries_set [of e 0 history] that mset_eq_setD [OF ms] len by (auto simp: entry_of_def len_def)
  have partner: "\<exists>b < length es. en_kind (es ! b) = kd \<and> en_id (es ! b) = en_id (es ! a)" if a: "a < length es" for a kd
  proof -
    obtain i where "i < length history" "en_id (es ! a) = int i" using makeEntries_index [OF assms(1,2) a] by metis
    then obtain e where "e \<in> set es" "en_kind e = kd" "en_id e = en_id (es ! a)"
      using operationEntries_all [of i history 0 kd] mset_eq_setD [OF ms] by auto
    then show ?thesis by (metis in_set_conv_nth)
  qed
  have before: "r < a" if ar: "a < length es" "r < length es" "is_call es a" "\<not> is_call es r" "en_id (es ! r) = en_id (es ! a)" for a r
  proof -
    have "op_of es r = op_of es a" "op_of es a < length history"
      using ar(5) makeEntries_index [OF assms(1,2) ar(1)] by (simp add: op_of_def, metis)
    then have "\<not> a < r" using describes_before [OF makeEntries_describes [OF assms(1,2)] ar(1-4)] assms(3)
      by (simp add: timely_def list_all_length not_less)
    then show ?thesis using ar(3,4) by (metis nat_neq_iff)
  qed
  show "wf_entries es"
    unfolding wf_entries_def using dist range
  proof (intro conjI allI impI ballI)
    fix a assume a: "a < length es" "is_call es a"
    obtain r where "r < length es" "en_kind (es ! r) = returnEntry" "en_id (es ! r) = en_id (es ! a)" using partner [OF a(1)] by blast
    then show "\<exists>r < a. \<not> is_call es r \<and> en_id (es ! r) = en_id (es ! a)" using before [OF a(1) _ a(2)] by (auto simp: not_call)
  next
    fix r assume "r < length es"
    then show "\<exists>a < length es. is_call es a \<and> en_id (es ! a) = en_id (es ! r)" using partner by (auto simp: is_call_def)
  qed auto
qed

lemma lin_iff_linearizable:
  assumes "sorts_by_time srt" "timely history"
  shows "lin M (rev (makeEntries srt history)) {} (Init M) \<longleftrightarrow> linearizable M history"
  using lin_linearization [OF makeEntries_wf(1) [OF assms(1) refl assms(2)] makeEntries_describes [OF assms(1) refl], of M "{}" "Init M"]
    linearization_lin [OF makeEntries_wf(1) [OF assms(1) refl assms(2)] makeEntries_describes [OF assms(1) refl], of M "{}" "Init M"]
    makeEntries_wf(2) [OF assms(1) refl assms(2)]
  by (auto simp: linearizable_def)

definition Step_defined :: "('v, 's) Model \<Rightarrow> 'v Operation list \<Rightarrow> bool" where
  "Step_defined M history \<longleftrightarrow> (\<forall>v \<in> set history. \<forall>s. Step M s (op_Input v) (op_Output v) \<noteq> None)"

lemma Step_defined_total:
  assumes "sorts_by_time srt" "timely history" "Step_defined M history"
  shows "Step_total M (rev (makeEntries srt history))"
  unfolding Step_total_def
proof (intro allI impI)
  fix s a assume a: "a < length (rev (makeEntries srt history))" "is_call (rev (makeEntries srt history)) a"
  obtain i where "i < length history" "op_of (rev (makeEntries srt history)) a = i" using makeEntries_index [OF assms(1) refl a(1)] .
  then show "step_at M (rev (makeEntries srt history)) s a \<noteq> None"
    using describes_step [OF makeEntries_wf(1) [OF assms(1) refl assms(2)] makeEntries_describes [OF assms(1) refl] a, of M s]
      assms(3) by (simp add: Step_defined_def)
qed

section \<open>Partial linearizations\<close>

fun run_model :: "('v, 's) Model \<Rightarrow> 's \<Rightarrow> ('v iface \<times> 'v iface) list \<Rightarrow> 's" where
  "run_model M s [] = s"
| "run_model M s ((i, out) # xs) = run_model M (snd (the (Step M s i out))) xs"

lemma legal_append: "legal M s (xs @ ys) \<longleftrightarrow> legal M s xs \<and> legal M (run_model M s xs) ys"
  by (induction M s xs rule: run_model.induct) auto

text \<open>
  A sequence that a linearization can start with, as far as the model and the order of calls and returns can tell: whatever
  returned before the call of one of its operations is in it.
\<close>

definition partial_linearization :: "('v, 's) Model \<Rightarrow> 'v Operation list \<Rightarrow> int list \<Rightarrow> bool" where
  "partial_linearization M history seq \<longleftrightarrow>
     linearization M (\<lambda>i. op_Input (history ! i)) (\<lambda>i. op_Output (history ! i)) (\<lambda>i j. op_Return (history ! i) < op_Call (history ! j))
       (nat ` set seq) (Init M) (map nat seq) \<and>
     (\<forall>i \<in> set seq. 0 \<le> i \<and> i < len history) \<and>
     (\<forall>i \<in> nat ` set seq. \<forall>j < length history. op_Return (history ! j) < op_Call (history ! i) \<longrightarrow> j \<in> nat ` set seq)"

lemma reach_facts:
  assumes "wf_entries es" "describes es inp outp before" "reach M es seq s"
  shows "distinct (map nat seq) \<and> (\<forall>i \<in> set seq. 0 \<le> i \<and> nat i < length es div 2) \<and>
    sorted_wrt (\<lambda>i j. \<not> before j i) (map nat seq) \<and>
    (\<forall>i \<in> nat ` set seq. \<forall>j < length es div 2. before j i \<longrightarrow> j \<in> nat ` set seq) \<and>
    legal M (Init M) (map (\<lambda>i. (inp i, outp i)) (map nat seq)) \<and> run_model M (Init M) (map (\<lambda>i. (inp i, outp i)) (map nat seq)) = s"
  using assms(3)
proof induction
  case (reach_step seq s pre a suf s')
  let ?S = "nat ` set seq"
  have a: "a < length es" "op_of es a \<notin> ?S" "is_call es a" using reach_step.hyps(2,3) in_remaining [of a es ?S] by auto
  have id: "en_id (es ! a) = int (op_of es a)" "op_of es a < length es div 2"
    using wf_id [OF assms(1) a(1)] op_of_less [OF assms(1) a(1)] by (simp_all add: op_of_def)
  have closed: "j \<in> ?S" if j: "j < length es div 2" "before j (op_of es a)" for j
  proof (rule ccontr)
    assume "j \<notin> ?S"
    obtain b where b: "b < length es" "is_call es b" "op_of es b = j" using wf_surj [OF assms(1) j(1)] .
    obtain r where r: "r < b" "\<not> is_call es r" "op_of es r = j" using match_at_call [OF assms(1) b(1,2)] b(3) by metis
    then have "a < r" "r \<in> set (remaining es ?S)"
      using describes_before [OF assms(2) a(1) _ a(3) r(2)] j(2) b(1) \<open>j \<notin> ?S\<close> by (auto simp: in_remaining)
    moreover have "\<forall>x \<in> set suf. x < a" using remaining_desc [of es ?S] by (auto simp: reach_step.hyps(2) sorted_wrt_append)
    ultimately have "r \<in> set pre" using reach_step.hyps(2) by auto
    then show False using r(2) reach_step.hyps(3) by auto
  qed
  have "sorted_wrt (\<lambda>i j. \<not> before j i) (map nat seq @ [op_of es a])"
    using reach_step.IH a(2) id(2) by (auto simp: sorted_wrt_append)
  moreover have "Step M s (inp (op_of es a)) (outp (op_of es a)) = Some (True, s')"
    using describes_step [OF assms(1,2) a(1,3), of M s] reach_step.hyps(4) by simp
  moreover have "run_model M s0 (xs @ ys) = run_model M (run_model M s0 xs) ys" for s0 and xs ys :: "('a iface \<times> 'a iface) list"
    by (induction M s0 xs rule: run_model.induct) simp_all
  ultimately show ?case using reach_step.IH closed a(2) id by (auto simp: legal_append)
qed simp

lemma reach_partial:
  assumes "sorts_by_time srt" "timely history" "reach M (rev (makeEntries srt history)) seq s"
  shows "partial_linearization M history seq"
  using reach_facts [OF makeEntries_wf(1) [OF assms(1) refl assms(2)] makeEntries_describes [OF assms(1) refl] assms(3)]
    makeEntries_wf(2) [OF assms(1) refl assms(2)]
  by (auto simp: partial_linearization_def linearization_def len_def nat_less_iff)

section \<open>One partition\<close>

text \<open>The checker with every parameter in order: an admissible sort, times that make sense, a model fit for the history.\<close>

definition checkable :: "('v entry list \<Rightarrow> 'v entry list) \<Rightarrow> ('v, 's) Model \<Rightarrow> 'v Operation list \<Rightarrow> bool" where
  "checkable srt M history \<longleftrightarrow> sorts_by_time srt \<and> timely history \<and> Equal_sound M \<and> Step_defined M history"

definition partials_ok :: "('v, 's) Model \<Rightarrow> 'v Operation list \<Rightarrow> longestSeqs \<Rightarrow> bool" where
  "partials_ok M history l \<longleftrightarrow> length (fst l) = length history \<and>
     (\<forall>i < length history. \<forall>p. fst l ! i = Some p \<longrightarrow> p < length (snd l) \<and> int i \<in> set (snd l ! p) \<and> partial_linearization M history (snd l ! p))"

lemma checkSingle_run:
  assumes "checkable srt M history"
  shows "\<exists>r. checkSingle M (makeEntries srt history) computePartial kills = Some r \<and>
    (case r of Inl _ \<Rightarrow> length kills < enough (2 * length history)
     | Inr (ok, l) \<Rightarrow> partials_ok M history l \<and> (ok \<longrightarrow> linearizable M history) \<and> (\<not> ok \<longrightarrow> True \<in> set kills \<or> \<not> linearizable M history))"
proof -
  have c: "sorts_by_time srt" "timely history" "Equal_sound M" "Step_defined M history" using assms by (simp_all add: checkable_def)
  note wf = makeEntries_wf [OF c(1) refl c(2)]
  obtain r where r: "checkSingle M (makeEntries srt history) computePartial kills = Some r"
    "loop_result M (rev (makeEntries srt history)) (enough (2 * length history)) kills r"
    using checkSingle_search [OF wf(1) c(3) Step_defined_total [OF c(1,2,4)]] wf(2) by fastforce
  moreover have "longest_ok M (rev (makeEntries srt history)) l \<Longrightarrow> partials_ok M history l" for l
    using reach_partial [OF c(1,2)] wf(2) unfolding longest_ok_def partials_ok_def by (metis nonzero_mult_div_cancel_left zero_neq_numeral)
  ultimately show ?thesis using lin_iff_linearizable [OF c(1,2)] by (auto simp: loop_result_def split: sum.splits)
qed

text \<open>
  C24: \<open>checkSingle\<close> is a decision procedure. On the entries of a history whose operations return no
  earlier than they were called, sorted by time, it returns after at most \<open>enough (2 n)\<close> iterations for n
  operations if it is not killed, without a panic in the linked list, the bit sets or the bookkeeping,
  and answers whether the history is linearizable.
\<close>

theorem checkSingle_decides:
  assumes "checkable srt M history" "True \<notin> set kills" "enough (2 * length history) \<le> length kills"
  shows "\<exists>l. checkSingle M (makeEntries srt history) computePartial kills = Some (Inr (linearizable M history, l))"
  using checkSingle_run [OF assms(1), of computePartial kills] assms(2,3) by (fastforce split: sum.splits)

text \<open>A sort that \<open>sort.Sort\<close> may do, and a history: a put, and a get that overlaps it and sees it.\<close>

definition time_sort :: "'v entry list \<Rightarrow> 'v entry list" where
  "time_sort = sort_key (\<lambda>e. 2 * en_time e + (case en_kind e of callEntry \<Rightarrow> 0 | returnEntry \<Rightarrow> 1))"

lemma time_sort_sorts: "sorts_by_time (time_sort :: 'v entry list \<Rightarrow> 'v entry list)"
proof -
  let ?key = "\<lambda>e :: 'v entry. 2 * en_time e + (case en_kind e of callEntry \<Rightarrow> 0 | returnEntry \<Rightarrow> 1)"
  have "?key a \<le> ?key b \<Longrightarrow> \<not> Less b a" for a b
    by (auto simp: Less_def split: entryKind.splits if_splits)
  moreover have "sorted_wrt (\<lambda>a b. ?key a \<le> ?key b) (time_sort xs)" for xs
    using sorted_sort_key [of ?key xs] by (simp add: time_sort_def sorted_map)
  ultimately have "sorted_wrt (\<lambda>a b. \<not> Less b a) (time_sort xs)" for xs :: "'v entry list"
    using sorted_wrt_mono_rel by (metis (mono_tags, lifting))
  then show ?thesis by (simp add: sorts_by_time_def) (simp add: time_sort_def)
qed

definition demo_put :: "kvValue Operation" where
  "demo_put = \<lparr>op_ClientId = 0, op_Input = Some (KvIn \<lparr>ki_Op = 1, ki_Key = ''k'', ki_Value = ''v''\<rparr>), op_Call = 0,
     op_Output = Some (KvOut \<lparr>ko_Value = ''''\<rparr>), op_Return = 10\<rparr>"

definition demo_get :: "string \<Rightarrow> int \<Rightarrow> kvValue Operation" where
  "demo_get x t = \<lparr>op_ClientId = 1, op_Input = Some (KvIn \<lparr>ki_Op = 0, ki_Key = ''k'', ki_Value = ''''\<rparr>), op_Call = t,
     op_Output = Some (KvOut \<lparr>ko_Value = x\<rparr>), op_Return = t + 1\<rparr>"

definition demo_model :: "(kvValue, string) Model" where
  "demo_model = KvModel (\<lambda>_. [''k''])"

lemma demo_checkable: "checkable time_sort demo_model [demo_put, demo_get x t]"
  by (auto simp: checkable_def time_sort_sorts timely_def demo_put_def demo_get_def Equal_sound_def model_Equal_def ShallowEqual_def
      demo_model_def KvModel_def Step_defined_def kvStep_def as_KvInput_def as_KvOutput_def)

theorem checkSingle_decides_witness:
  "linearizable demo_model [demo_put, demo_get ''v'' 5] \<and> \<not> linearizable demo_model [demo_put, demo_get '''' 20]"
proof -
  have "run_result (checkSingle demo_model (makeEntries time_sort [demo_put, demo_get ''v'' 5]) True (replicate 100 False)) = Some True"
    "run_result (checkSingle demo_model (makeEntries time_sort [demo_put, demo_get '''' 20]) False (replicate 100 False)) = Some False"
    by code_simp+
  then show ?thesis
    using checkSingle_decides [OF demo_checkable [of "''v''" 5], of "replicate 100 False" True]
      checkSingle_decides [OF demo_checkable [of "''''" 20], of "replicate 100 False" False]
    by (auto simp: enough_def run_result_def)
qed

end
