(* ===== verification/Porcupine_Parallel.thy ===== *)
theory Porcupine_Parallel
  imports Porcupine_Correct
begin

text \<open>
  The answers of the linearizability checker of src/src/porcupine for a whole history: \<open>checkParallel\<close>
  runs \<open>checkSingle\<close> on every partition in a goroutine of its own and gathers the results. Whatever the order in
  which it receives them, and whether or not a timeout stops it, it never says \<open>Ok\<close> of a history with a partition that is not
  linearizable, nor \<open>Illegal\<close> of one whose partitions all are.
\<close>

section \<open>Gathering results\<close>

lemma selectLoop_False:
  "selectLoop n computeInfo res sels cnt ok = Some (False, timedOut, cnt') \<Longrightarrow> ok \<Longrightarrow> \<exists>i. Recv i \<in> set sels \<and> res i = Some False"
proof (induction sels arbitrary: cnt ok)
  case (Cons sel sels)
  show ?case
  proof (cases sel)
    case (Recv i)
    then obtain result where res: "res i = Some result" using Cons.prems by (auto split: option.splits)
    then show ?thesis using Cons Recv by (cases result) (auto simp: Let_def split: if_splits)
  qed (use Cons.prems in simp)
qed simp

lemma selectLoop_not_ok: "selectLoop n computeInfo res sels cnt False = Some (ok, timedOut, cnt') \<Longrightarrow> \<not> ok"
proof (induction sels arbitrary: cnt)
  case (Cons sel sels)
  then show ?case by (cases sel) (auto simp: Let_def split: option.splits if_splits)
qed simp

lemma selectLoop_True:
  "selectLoop n computeInfo res sels cnt ok = Some (True, False, cnt') \<Longrightarrow>
   \<exists>is rest. sels = map Recv is @ rest \<and> (\<forall>i \<in> set is. res i = Some True) \<and> n \<le> cnt + length is"
proof (induction sels arbitrary: cnt ok)
  case (Cons sel sels)
  obtain i where i: "sel = Recv i" using Cons.prems by (cases sel) simp_all
  then obtain result where res: "res i = Some result" using Cons.prems by (auto split: option.splits)
  have ok: "ok \<and> result"
    using Cons.prems i res by (cases "ok \<and> result") (auto simp: Let_def split: if_splits dest: selectLoop_not_ok)
  show ?case
  proof (cases "n \<le> cnt + 1")
    case True
    then show ?thesis using i res ok by (intro exI [of _ "[i]"] exI [of _ sels]) simp
  next
    case False
    then obtain "is" rest where "sels = map Recv is @ rest" "\<forall>i \<in> set is. res i = Some True" "n \<le> cnt + 1 + length is"
      using Cons.IH [of "cnt + 1" True] Cons.prems i res ok by (auto simp: Let_def)
    then show ?thesis using i res ok by (intro exI [of _ "i # is"] exI [of _ rest]) simp
  qed
qed simp

lemma selectLoop_timeout: "selectLoop n computeInfo res sels cnt ok = Some (b, True, cnt') \<Longrightarrow> TimeOut \<in> set sels"
proof (induction sels arbitrary: cnt ok)
  case (Cons sel sels)
  then show ?case by (cases sel) (auto simp: Let_def split: option.splits if_splits)
qed simp

lemma selectLoop_all:
  assumes "\<forall>i \<in> set is. res i = Some (f i)" "is \<noteq> []" "n = cnt + length is"
  shows "\<exists>cnt'. selectLoop n computeInfo res (map Recv is @ rest) cnt ok = Some (ok \<and> (\<forall>i \<in> set is. f i), False, cnt')"
  using assms
proof (induction "is" arbitrary: cnt ok)
  case (Cons i "is")
  show ?case
  proof (cases "is = []")
    case False
    then show ?thesis using Cons.IH [of "cnt + 1" "ok \<and> f i"] Cons.prems by (auto simp: Let_def)
  qed (use Cons.prems in \<open>auto simp: Let_def\<close>)
qed simp

text \<open>
  The schedules that can happen: a result is received once, and a goroutine whose result is received has not been killed, since the
  flag is set only when the loop is left.
\<close>

definition schedule_ok :: "(nat \<Rightarrow> bool list) \<Rightarrow> select list \<Rightarrow> bool" where
  "schedule_ok kills sels \<longleftrightarrow> distinct (filter (\<lambda>s. s \<noteq> TimeOut) sels) \<and> (\<forall>i. Recv i \<in> set sels \<longrightarrow> True \<notin> set (kills i))"

lemma run_result_checkSingle:
  assumes "checkable srt M history"
  shows "run_result (checkSingle M (makeEntries srt history) ci kills) = Some ok \<Longrightarrow> True \<notin> set kills \<Longrightarrow> ok = linearizable M history"
    and "True \<notin> set kills \<Longrightarrow> enough (2 * length history) \<le> length kills \<Longrightarrow>
      run_result (checkSingle M (makeEntries srt history) ci kills) = Some (linearizable M history)"
    and "enough (2 * length history) \<le> length kills \<Longrightarrow>
      \<exists>l. run_longest (checkSingle M (makeEntries srt history) ci kills) = Some l"
    and "run_longest (checkSingle M (makeEntries srt history) ci kills) = Some l \<Longrightarrow> partials_ok M history l"
proof -
  consider st where "checkSingle M (makeEntries srt history) ci kills = Some (Inl st)" "length kills < enough (2 * length history)"
    | ok l where "checkSingle M (makeEntries srt history) ci kills = Some (Inr (ok, l))" "partials_ok M history l"
      "ok \<Longrightarrow> linearizable M history" "\<not> ok \<Longrightarrow> True \<in> set kills \<or> \<not> linearizable M history"
  proof -
    obtain r where r: "checkSingle M (makeEntries srt history) ci kills = Some r" "case r of Inl _ \<Rightarrow> length kills < enough (2 * length history)
        | Inr (ok, l) \<Rightarrow> partials_ok M history l \<and> (ok \<longrightarrow> linearizable M history) \<and> (\<not> ok \<longrightarrow> True \<in> set kills \<or> \<not> linearizable M history)"
      using checkSingle_run [OF assms, of ci kills] by blast
    show thesis using r that by (cases r) auto
  qed
  note run = this
  show "run_result (checkSingle M (makeEntries srt history) ci kills) = Some ok \<Longrightarrow> True \<notin> set kills \<Longrightarrow> ok = linearizable M history"
    by (cases rule: run) (auto simp: run_result_def)
  show "True \<notin> set kills \<Longrightarrow> enough (2 * length history) \<le> length kills \<Longrightarrow>
      run_result (checkSingle M (makeEntries srt history) ci kills) = Some (linearizable M history)"
    by (cases rule: run) (auto simp: run_result_def)
  show "enough (2 * length history) \<le> length kills \<Longrightarrow> \<exists>l. run_longest (checkSingle M (makeEntries srt history) ci kills) = Some l"
    by (cases rule: run) (auto simp: run_longest_def)
  show "run_longest (checkSingle M (makeEntries srt history) ci kills) = Some l \<Longrightarrow> partials_ok M history l"
    by (cases rule: run) (auto simp: run_longest_def)
qed

definition partition_result :: "('v, 's) Model \<Rightarrow> 'v entry list list \<Rightarrow> bool \<Rightarrow> (nat \<Rightarrow> bool list) \<Rightarrow> nat \<rightharpoonup> bool" where
  "partition_result M history ci kills i = (if i < length history then run_result (checkSingle M (history ! i) ci (kills i)) else None)"

lemma bind_select:
  "F \<bind> (\<lambda>(a, b, c). G \<bind> (\<lambda>x. Some (f a b, x))) = Some (y, x) \<longleftrightarrow> (\<exists>a b c. F = Some (a, b, c) \<and> G = Some x \<and> y = f a b)"
  by (auto simp: Option.bind_eq_Some_conv)

lemma checkParallel_result:
  "checkParallel M history ci kills sels ords = Some (res, info) \<longleftrightarrow>
   (\<exists>ok timedOut cnt. selectLoop (length history) ci (partition_result M history ci kills) sels 0 True = Some (ok, timedOut, cnt) \<and>
     (if ci then do {
         ls \<leftarrow> those (map (\<lambda>i. run_longest (checkSingle M (history ! i) ci (kills i))) [0..<length history]);
         Some \<lparr>li_history = history, li_partials = map (\<lambda>i. uniquePartials (ords i) (ls ! i)) [0..<length history]\<rparr>
       } else Some linearizationInfo0) = Some info \<and>
     res = (if \<not> ok then Illegal else if timedOut then Unknown else Ok))"
proof -
  have "(\<lambda>i. if i < length history then run_result (map (\<lambda>i. checkSingle M (history ! i) ci (kills i)) [0..<length history] ! i) else None) =
    partition_result M history ci kills" by (auto simp: fun_eq_iff partition_result_def)
  then show ?thesis unfolding checkParallel_def Let_def bind_select by (simp add: comp_def)
qed

lemma checkParallel_answer:
  assumes "selectLoop (length history) ci (partition_result M history ci kills) sels 0 True = Some (ok, False, cnt)"
    and "those (map (\<lambda>i. run_longest (checkSingle M (history ! i) ci (kills i))) [0..<length history]) = Some ls"
  shows "\<exists>info. checkParallel M history ci kills sels ords = Some (if ok then Ok else Illegal, info)"
proof -
  let ?info = "if ci then \<lparr>li_history = history, li_partials = map (\<lambda>i. uniquePartials (ords i) (ls ! i)) [0..<length history]\<rparr> else linearizationInfo0"
  have "checkParallel M history ci kills sels ords = Some (if ok then Ok else Illegal, ?info)"
    unfolding checkParallel_result
    by (rule exI [of _ ok], rule exI [of _ False], rule exI [of _ cnt]) (use assms in \<open>cases ci; simp\<close>)
  then show ?thesis by blast
qed

section \<open>Whole histories\<close>

lemma checkParallel_sound:
  assumes "\<forall>h \<in> set parts. checkable srt M h" "schedule_ok kills sels"
    and "checkParallel M (map (makeEntries srt) parts) ci kills sels ords = Some (res, info)"
  shows "(res = Ok \<longrightarrow> (\<forall>h \<in> set parts. linearizable M h)) \<and> (res = Illegal \<longrightarrow> (\<exists>h \<in> set parts. \<not> linearizable M h)) \<and>
    (res = Unknown \<longrightarrow> TimeOut \<in> set sels)"
proof -
  let ?pr = "partition_result M (map (makeEntries srt) parts) ci kills"
  obtain ok timedOut cnt where sel: "selectLoop (length parts) ci ?pr sels 0 True = Some (ok, timedOut, cnt)"
    and res: "res = (if \<not> ok then Illegal else if timedOut then Unknown else Ok)"
    using assms(3) by (auto simp: checkParallel_result)
  have got: "i < length parts \<and> linearizable M (parts ! i) = b" if i: "Recv i \<in> set sels" "?pr i = Some b" for i b
  proof -
    have "i < length parts" using i(2) by (auto simp: partition_result_def split: if_splits)
    moreover from this have "run_result (checkSingle M (makeEntries srt (parts ! i)) ci (kills i)) = Some b"
      using i(2) by (simp add: partition_result_def)
    moreover have "True \<notin> set (kills i)" using i(1) assms(2) by (auto simp: schedule_ok_def)
    ultimately show ?thesis using run_result_checkSingle(1) [of srt M "parts ! i"] assms(1) by simp
  qed
  have "\<forall>h \<in> set parts. linearizable M h" if "res = Ok"
  proof -
    have "selectLoop (length parts) ci ?pr sels 0 True = Some (True, False, cnt)" using that res sel by (auto split: if_splits)
    from selectLoop_True [OF this] obtain "is" rest where "is": "sels = map Recv is @ rest" "\<forall>i \<in> set is. ?pr i = Some True" "length parts \<le> length is"
      by auto
    then have sub: "i < length parts \<and> linearizable M (parts ! i)" if "i \<in> set is" for i using got [of i True] that by auto
    have "distinct (map Recv is)" using assms(2) "is"(1) by (auto simp: schedule_ok_def filter_map comp_def)
    then have "card (set is) = length is" by (simp add: distinct_map distinct_card)
    then have "set is = {..<length parts}" using sub "is"(3) by (intro card_seteq) auto
    then show ?thesis using sub by (auto simp: in_set_conv_nth)
  qed
  moreover have "\<exists>h \<in> set parts. \<not> linearizable M h" if "res = Illegal"
  proof -
    have "selectLoop (length parts) ci ?pr sels 0 True = Some (False, timedOut, cnt)" using that res sel by (auto split: if_splits)
    from selectLoop_False [OF this] obtain i where "Recv i \<in> set sels" "?pr i = Some False" by auto
    then show ?thesis using got [of i False] by auto
  qed
  moreover have "TimeOut \<in> set sels" if "res = Unknown"
    using selectLoop_timeout that res sel by (auto split: if_splits)
  ultimately show ?thesis by blast
qed

lemma checkParallel_returns:
  assumes "\<forall>h \<in> set parts. checkable srt M h" "parts \<noteq> []" "distinct is" "set is = {..<length parts}"
    and "\<forall>i < length parts. True \<notin> set (kills i) \<and> enough (2 * length (parts ! i)) \<le> length (kills i)"
  shows "\<exists>info. checkParallel M (map (makeEntries srt) parts) ci kills (map Recv is @ rest) ords =
    Some (if \<forall>h \<in> set parts. linearizable M h then Ok else Illegal, info)"
proof -
  let ?pr = "partition_result M (map (makeEntries srt) parts) ci kills"
  have "\<forall>i \<in> set is. ?pr i = Some (linearizable M (parts ! i))"
    using assms(1,4,5) by (auto simp: partition_result_def intro!: run_result_checkSingle(2))
  moreover have len: "length parts = 0 + length is" using distinct_card [OF assms(3)] by (simp add: assms(4))
  moreover have "is \<noteq> []" using len assms(2) by auto
  ultimately obtain cnt where "selectLoop (length parts) ci ?pr (map Recv is @ rest) 0 True = Some (\<forall>i \<in> set is. linearizable M (parts ! i), False, cnt)"
    using selectLoop_all [of "is" ?pr "\<lambda>i. linearizable M (parts ! i)" "length parts" 0 ci rest True] by auto
  moreover have "(\<forall>i \<in> set is. linearizable M (parts ! i)) \<longleftrightarrow> (\<forall>h \<in> set parts. linearizable M h)"
    unfolding assms(4) by (metis in_set_conv_nth lessThan_iff)
  moreover obtain ls where "those (map (\<lambda>i. run_longest (checkSingle M (map (makeEntries srt) parts ! i) ci (kills i))) [0..<length parts]) = Some ls"
  proof -
    let ?f = "\<lambda>i. run_longest (checkSingle M (map (makeEntries srt) parts ! i) ci (kills i))"
    have "\<exists>l. ?f i = Some l" if "i < length parts" for i
      using run_result_checkSingle(3) [of srt M "parts ! i" "kills i" ci] assms(1,5) that by simp
    then have "those (map ?f [0..<length parts]) = Some (map (\<lambda>i. the (?f i)) [0..<length parts])"
      by (intro those_map) (metis atLeastLessThan_iff option.sel set_upt)
    then show thesis by (rule that)
  qed
  ultimately show ?thesis
    using checkParallel_answer [of "map (makeEntries srt) parts" ci M kills "map Recv is @ rest" _ cnt ls ords] by simp
qed

lemma fillDefault_simps [simp]:
  "Init (fillDefault M) = Init M" "Step (fillDefault M) = Step M" "model_Equal (fillDefault M) = model_Equal M"
  by (simp_all add: fillDefault_def model_Equal_def split: option.split)

lemma fillDefault_legal [simp]: "legal (fillDefault M) s xs = legal M s xs"
  by (induction "fillDefault M" s xs rule: legal.induct) simp_all

lemma fillDefault_linearization [simp]: "linearization (fillDefault M) = linearization M"
  by (simp add: linearization_def fun_eq_iff)

lemma fillDefault_linearizable [simp]: "linearizable (fillDefault M) = linearizable M" "partial_linearization (fillDefault M) = partial_linearization M"
  by (simp_all add: linearizable_def partial_linearization_def fun_eq_iff)

lemma fillDefault_checkable [simp]: "checkable srt (fillDefault M) h = checkable srt M h"
  by (simp add: checkable_def Equal_sound_def Step_defined_def)

definition model_Partition :: "('v, 's) Model \<Rightarrow> 'v Operation list \<Rightarrow> 'v Operation list list option" where
  "model_Partition M = (case Partition M of None \<Rightarrow> NoPartition | Some p \<Rightarrow> p)"

lemma checkOperations_eq:
  "model_Partition M history = Some parts \<Longrightarrow>
   checkOperations srt M history verbose kills sels ords = checkParallel (fillDefault M) (map (makeEntries srt) parts) verbose kills sels ords"
  by (simp add: checkOperations_def fillDefault_def model_Partition_def Let_def)

text \<open>
  C27: no wrong answer. However the goroutines are scheduled and wherever the timer fires, \<open>checkOperations\<close> answers \<open>Ok\<close> only if
  every partition of the history is linearizable, \<open>Illegal\<close> only if one is not, and \<open>Unknown\<close> only after a timeout. In particular a
  timeout never gives a false positive, which the comments of porcupine.go hold possible.
\<close>

theorem checkOperations_sound:
  assumes "model_Partition M history = Some parts" "\<forall>h \<in> set parts. checkable srt M h" "schedule_ok kills sels"
    and "checkOperations srt M history verbose kills sels ords = Some (res, info)"
  shows "(res = Ok \<longrightarrow> (\<forall>h \<in> set parts. linearizable M h)) \<and> (res = Illegal \<longrightarrow> (\<exists>h \<in> set parts. \<not> linearizable M h)) \<and>
    (res = Unknown \<longrightarrow> TimeOut \<in> set sels)"
  using checkParallel_sound [of parts srt "fillDefault M" kills sels verbose ords res info] assms by (simp add: checkOperations_eq)

lemma CheckOperations_answer:
  assumes "model_Partition M history = Some parts" "\<forall>h \<in> set parts. checkable srt M h" "parts \<noteq> []" "distinct is" "set is = {..<length parts}"
    and "\<forall>i < length parts. True \<notin> set (kills i) \<and> enough (2 * length (parts ! i)) \<le> length (kills i)"
  shows "CheckOperations srt M history kills (map Recv is @ rest) ords = Some (\<forall>h \<in> set parts. linearizable M h)"
  using checkParallel_returns [of parts srt "fillDefault M" "is" kills False rest ords] assms
  by (auto simp: CheckOperations_def checkOperations_eq)

definition demo_whole :: "(kvValue, string) Model" where
  "demo_whole = demo_model\<lparr>Partition := None\<rparr>"

lemma demo_whole_checkable: "checkable time_sort demo_whole [demo_put, demo_get x t]"
  using demo_checkable [of x t] by (simp add: checkable_def Equal_sound_def Step_defined_def model_Equal_def demo_whole_def)

lemma demo_whole_parts: "model_Partition demo_whole history = Some [history]"
  by (simp add: model_Partition_def demo_whole_def NoPartition_def)

theorem checkOperations_sound_witness:
  "\<not> linearizable demo_whole [demo_put, demo_get '''' 20]"
proof -
  have "map_option fst (checkOperations time_sort demo_whole [demo_put, demo_get '''' 20] False (\<lambda>_. replicate 100 False) [Recv 0, TimeOut] (\<lambda>_. [])) =
    Some Illegal" by code_simp
  then obtain info where "checkOperations time_sort demo_whole [demo_put, demo_get '''' 20] False (\<lambda>_. replicate 100 False) [Recv 0, TimeOut] (\<lambda>_. []) =
    Some (Illegal, info)" by (cases "checkOperations time_sort demo_whole [demo_put, demo_get '''' 20] False (\<lambda>_. replicate 100 False) [Recv 0, TimeOut] (\<lambda>_. [])") auto
  from checkOperations_sound [OF demo_whole_parts _ _ this] show ?thesis
    using demo_whole_checkable by (simp add: schedule_ok_def)
qed

section \<open>What is shown for a history\<close>

lemma uniquePartials_set: "seq \<in> set (uniquePartials ord l) \<Longrightarrow> \<exists>p. Some p \<in> set (fst l) \<and> seq = snd l ! p"
proof -
  have "set (go_range ks (pointerSet l) (\<lambda>k _ partials. partials @ [snd l ! k]) acc) \<subseteq> set acc \<union> {snd l ! p |p. Some p \<in> set (fst l)}" for ks acc
    by (induction ks arbitrary: acc) (fastforce simp: pointerSet_def split: if_splits)+
  from this [of ord "[]"] show "seq \<in> set (uniquePartials ord l) \<Longrightarrow> ?thesis" by (auto simp: uniquePartials_def)
qed

text \<open>
  C30: the partial linearizations of a verbose check, from which the pictures are drawn. Each sequence reported for a partition
  consists of distinct operations of it, in an order that the model can do and that respects the calls and returns, and with an
  operation contains all that returned before its call, whatever the answer and even after a timeout.
\<close>

theorem CheckOperationsVerbose_partials:
  assumes "model_Partition M history = Some parts" "\<forall>h \<in> set parts. checkable srt M h"
    and "CheckOperationsVerbose srt M history kills sels ords = Some (res, info)" "i < length parts" "seq \<in> set (li_partials info ! i)"
  shows "partial_linearization M (parts ! i) seq"
proof -
  let ?run = "\<lambda>i. run_longest (checkSingle (fillDefault M) (map (makeEntries srt) parts ! i) True (kills i))"
  have "checkParallel (fillDefault M) (map (makeEntries srt) parts) True kills sels ords = Some (res, info)"
    using assms(3) checkOperations_eq [OF assms(1)] by (simp add: CheckOperationsVerbose_def)
  then obtain ls where ls: "those (map ?run [0..<length parts]) = Some ls"
    "li_partials info = map (\<lambda>i. uniquePartials (ords i) (ls ! i)) [0..<length parts]"
    unfolding checkParallel_result by (auto simp: Option.bind_eq_Some_conv)
  then have "?run i = Some (ls ! i)" using those_nth [OF ls(1)] assms(4) by simp
  then have ok: "partials_ok (fillDefault M) (parts ! i) (ls ! i)"
    using run_result_checkSingle(4) [of srt "fillDefault M" "parts ! i" True "kills i" "ls ! i"] assms(2,4) by simp
  obtain p where p: "Some p \<in> set (fst (ls ! i))" "seq = snd (ls ! i) ! p"
    using uniquePartials_set [of seq "ords i" "ls ! i"] assms(4,5) ls(2) by auto
  then obtain j where "j < length (fst (ls ! i))" "fst (ls ! i) ! j = Some p" by (metis in_set_conv_nth)
  then show ?thesis using ok p(2) by (auto simp: partials_ok_def)
qed

theorem CheckOperationsVerbose_partials_witness: "partial_linearization demo_whole [demo_put, demo_get '''' 20] [0]"
proof -
  let ?run = "CheckOperationsVerbose time_sort demo_whole [demo_put, demo_get '''' 20] (\<lambda>_. replicate 100 False) [Recv 0] (\<lambda>_. [0])"
  have "map_option (\<lambda>(res, info). (res, li_partials info)) ?run = Some (Illegal, [[[0]]])" by code_simp
  then obtain info where "?run = Some (Illegal, info)" "li_partials info = [[[0]]]" by (cases ?run) auto
  from CheckOperationsVerbose_partials [OF demo_whole_parts _ this(1), of 0 "[0]"] this(2) show ?thesis
    using demo_whole_checkable by simp
qed

end
