(* ===== verification/Kv_Local.thy ===== *)
theory Kv_Local
  imports Porcupine_Parallel
begin

text \<open>
  Why the tests may check one key at a time. The model of src/src/models/kv.go describes the value of a
  single key, and its \<open>Partition\<close> splits a history by key. Here the reference is the whole store, a map from keys to
  values: a history is linearizable as a history of the store exactly if each of its partitions is linearizable as
  a history of one key, which is what \<open>Model\<close> in src/src/porcupine/model.go asks of \<open>Partition\<close>.
\<close>

section \<open>The store\<close>

definition storeStep :: "(string \<Rightarrow> string) \<Rightarrow> kvValue iface \<Rightarrow> kvValue iface \<Rightarrow> (bool \<times> (string \<Rightarrow> string)) option" where
  "storeStep st input output = do {
     inp \<leftarrow> as_KvInput input;
     (ok, v) \<leftarrow> kvStep (st (ki_Key inp)) input output;
     Some (ok, st(ki_Key inp := v))
   }"

definition StoreModel :: "(kvValue, string \<Rightarrow> string) Model" where
  "StoreModel = \<lparr>Partition = None, PartitionEvent = None, Init = (\<lambda>_. ''''), Step = storeStep, Equal = None\<rparr>"

definition kv_typed :: "kvValue Operation list \<Rightarrow> bool" where
  "kv_typed history \<longleftrightarrow> (\<forall>v \<in> set history. as_KvInput (op_Input v) \<noteq> None \<and> as_KvOutput (op_Output v) \<noteq> None)"

definition key_of :: "kvValue iface \<Rightarrow> string" where
  "key_of v = ki_Key (the (as_KvInput v))"

lemma legal_store:
  assumes "\<forall>(i, out) \<in> set xs. as_KvInput i \<noteq> None \<and> as_KvOutput out \<noteq> None"
  shows "legal StoreModel st xs \<longleftrightarrow> (\<forall>k. legal (KvModel ord) (st k) (filter (\<lambda>x. key_of (fst x) = k) xs))"
  using assms
proof (induction xs arbitrary: st)
  case (Cons x xs)
  obtain i out inp where x: "x = (i, out)" "as_KvInput i = Some inp" using Cons.prems by (cases x) auto
  obtain ok v where v: "kvStep (st (ki_Key inp)) i out = Some (ok, v)"
    using Cons.prems x by (cases "kvStep (st (ki_Key inp)) i out") (auto simp: kvStep_def Option.bind_eq_None_conv)
  have "legal StoreModel st (x # xs) \<longleftrightarrow> ok \<and> legal StoreModel (st(ki_Key inp := v)) xs"
    using x v by (auto simp: StoreModel_def storeStep_def)
  also have "\<dots> \<longleftrightarrow> ok \<and> (\<forall>k. legal (KvModel ord) ((st(ki_Key inp := v)) k) (filter (\<lambda>x. key_of (fst x) = k) xs))"
    using Cons by simp
  also have "\<dots> \<longleftrightarrow> (\<forall>k. legal (KvModel ord) (st k) (filter (\<lambda>x. key_of (fst x) = k) (x # xs)))"
    using x v by (auto simp: key_of_def KvModel_def)
  finally show ?case .
qed simp

section \<open>Points\<close>

text \<open>An order that respects the calls and returns can be read off a point between the call and the return of each operation.\<close>

lemma linearization_points:
  assumes "sorted_wrt (\<lambda>i j. \<not> ret j < call i) seq" "distinct seq" "\<forall>i \<in> set seq. call i \<le> (ret i :: int)"
  shows "\<exists>pt. sorted (map pt seq) \<and> (\<forall>i \<in> set seq. call i \<le> pt i \<and> pt i \<le> ret i)"
  using assms
proof (induction seq)
  case (Cons i seq)
  then obtain pt where pt: "sorted (map pt seq)" "\<forall>j \<in> set seq. call j \<le> pt j \<and> pt j \<le> ret j" by auto
  let ?pt = "\<lambda>j. if j = i then call i else max (pt j) (call i)"
  have "map ?pt seq = map (\<lambda>j. max (pt j) (call i)) seq" using Cons.prems(2) by auto
  moreover have "sorted (map (\<lambda>j. max (pt j) (call i)) seq)"
    using pt(1) by (auto simp: sorted_map elim!: sorted_wrt_mono_rel [rotated])
  ultimately have "sorted (map ?pt seq)" by (simp only:)
  then have "sorted (map ?pt (i # seq))" by auto
  moreover have "\<forall>j \<in> set (i # seq). call j \<le> ?pt j \<and> ?pt j \<le> ret j" using pt(2) Cons.prems by auto
  ultimately show ?case by blast
qed simp

lemma merge_by_points:
  assumes "\<And>k. k \<in> set keys \<Longrightarrow> sorted (map pt (seq k)) \<and> (\<forall>i \<in> set (seq k). key i = k) \<and> distinct (seq k)" "distinct keys"
  defines "merged \<equiv> sort_key (pt :: nat \<Rightarrow> int) (concat (map seq keys))"
  shows "distinct merged" "set merged = (\<Union>k \<in> set keys. set (seq k))" "sorted (map pt merged)"
    and "k \<in> set keys \<Longrightarrow> filter (\<lambda>i. key i = k) merged = seq k"
proof -
  have "distinct (concat (map seq keys))"
    using assms(1,2)
  proof (induction keys)
    case (Cons k keys)
    then have "distinct (concat (map seq keys))" "k \<notin> set keys" by simp_all
    moreover have "set (seq k) \<inter> set (seq k') = {}" if "k' \<in> set keys" for k'
      using Cons.prems(1) [of k] Cons.prems(1) [of k'] that \<open>k \<notin> set keys\<close> by auto
    ultimately show ?case using Cons.prems(1) [of k] by auto
  qed simp
  then show "distinct merged" by (simp add: merged_def)
  show "set merged = (\<Union>k \<in> set keys. set (seq k))" by (simp add: merged_def)
  show "sorted (map pt merged)" by (simp add: merged_def)
  assume k: "k \<in> set keys"
  have "filter (\<lambda>i. key i = k) (concat (map seq keys)) = (if k \<in> set keys then seq k else [])"
    using assms(1,2)
  proof (induction keys)
    case (Cons k' keys)
    have "filter (\<lambda>i. key i = k) (seq k') = (if k' = k then seq k else [])"
      using Cons.prems(1) [of k'] by (auto simp: filter_empty_conv intro!: filter_True)
    then show ?case using Cons by auto
  qed simp
  then have "filter (\<lambda>i. key i = k) merged = sort_key pt (seq k)" using k by (simp add: merged_def filter_sort)
  then show "filter (\<lambda>i. key i = k) merged = seq k" using assms(1) [OF k] by (simp add: sort_key_id_if_sorted)
qed

section \<open>Histories by key\<close>

abbreviation linear_on :: "('v, 's) Model \<Rightarrow> 'v Operation list \<Rightarrow> nat set \<Rightarrow> nat list \<Rightarrow> bool" where
  "linear_on M history ops seq \<equiv> linearization M (\<lambda>i. op_Input (history ! i)) (\<lambda>i. op_Output (history ! i))
     (\<lambda>i j. op_Return (history ! i) < op_Call (history ! j)) ops (Init M) seq"

lemma linearizable_part:
  assumes "distinct idx" "part = map ((!) history) idx"
  shows "linearizable M part \<longleftrightarrow> (\<exists>seq. linear_on M history (set idx) seq)"
proof
  assume "linearizable M part"
  then obtain seq where seq: "linear_on M part {..<length idx} seq" using assms(2) by (auto simp: linearizable_def)
  then have "inj_on ((!) idx) (set seq)" using assms(1) by (auto simp: linearization_def inj_on_def nth_eq_iff_index_eq)
  moreover have "map (\<lambda>i. (op_Input (history ! i), op_Output (history ! i))) (map ((!) idx) seq) =
      map (\<lambda>i. (op_Input (part ! i), op_Output (part ! i))) seq"
    using seq assms(2) by (auto simp: linearization_def)
  then have "legal M (Init M) (map (\<lambda>i. (op_Input (history ! i), op_Output (history ! i))) (map ((!) idx) seq))"
    using seq by (simp only: linearization_def)
  moreover have "sorted_wrt (\<lambda>i j. \<not> op_Return (part ! j) < op_Call (part ! i)) seq" "set seq = {..<length idx}"
    using seq by (simp_all add: linearization_def)
  then have "sorted_wrt (\<lambda>i j. \<not> op_Return (history ! (idx ! j)) < op_Call (history ! (idx ! i))) seq"
    by (elim sorted_wrt_mono_rel [rotated]) (simp add: assms(2))
  moreover have "distinct (map ((!) idx) seq)" using seq \<open>inj_on ((!) idx) (set seq)\<close> by (simp add: linearization_def distinct_map)
  moreover have "(!) idx ` set seq = set idx" using \<open>set seq = {..<length idx}\<close> by (simp only: nth_lessThan_image)
  ultimately have "linear_on M history (set idx) (map ((!) idx) seq)"
    unfolding linearization_def sorted_wrt_map list.set_map by blast
  then show "\<exists>seq. linear_on M history (set idx) seq" by blast
next
  assume "\<exists>seq. linear_on M history (set idx) seq"
  then obtain seq where seq: "linear_on M history (set idx) seq" by blast
  define g where "g = inv_into {..<length idx} ((!) idx)"
  note img = nth_lessThan_image [of idx]
  then have g: "g i < length idx \<and> idx ! g i = i" if "i \<in> set idx" for i
    using that inv_into_into [of i "(!) idx" "{..<length idx}"] f_inv_into_f [of i "(!) idx" "{..<length idx}"] by (auto simp: g_def)
  have gi: "g (idx ! j) = j" if "j < length idx" for j
    using assms(1) that by (auto simp: g_def inj_on_def nth_eq_iff_index_eq intro!: inv_into_f_f)
  have at: "part ! g i = history ! i" if "i \<in> set seq" for i using g that seq assms(2) by (auto simp: linearization_def)
  have "map (\<lambda>i. (op_Input (part ! i), op_Output (part ! i))) (map g seq) = map (\<lambda>i. (op_Input (history ! i), op_Output (history ! i))) seq"
    using at by simp
  then have "legal M (Init M) (map (\<lambda>i. (op_Input (part ! i), op_Output (part ! i))) (map g seq))"
    using seq by (simp only: linearization_def)
  moreover have "sorted_wrt (\<lambda>i j. \<not> op_Return (history ! j) < op_Call (history ! i)) seq" using seq by (simp add: linearization_def)
  then have "sorted_wrt (\<lambda>i j. \<not> op_Return (part ! g j) < op_Call (part ! g i)) seq"
    by (rule sorted_wrt_mono_rel [rotated]) (simp only: at not_False_eq_True)
  moreover have "inj_on g (set seq)" using seq g by (intro inj_on_inverseI [of _ "(!) idx"]) (simp add: linearization_def)
  then have "distinct (map g seq)" using seq by (simp add: linearization_def distinct_map)
  moreover have "g ` set idx = {..<length idx}" 
  proof
    show "g ` set idx \<subseteq> {..<length idx}" using g by blast
    show "{..<length idx} \<subseteq> g ` set idx" using gi by (metis image_eqI lessThan_iff nth_mem subsetI)
  qed
  then have "g ` set seq = {..<length idx}" using seq by (simp add: linearization_def)
  ultimately have "linear_on M part {..<length idx} (map g seq)"
    unfolding linearization_def sorted_wrt_map list.set_map by blast
  then show "linearizable M part" using assms(2) by (auto simp: linearizable_def)
qed

definition op_key :: "kvValue Operation \<Rightarrow> string" where
  "op_key v = key_of (op_Input v)"

definition of_key :: "kvValue Operation list \<Rightarrow> string \<Rightarrow> nat set" where
  "of_key history k = {i. i < length history \<and> op_key (history ! i) = k}"

lemma linearizable_key:
  "linearizable M (filter (\<lambda>v. op_key v = k) history) \<longleftrightarrow> (\<exists>seq. linear_on M history (of_key history k) seq)"
proof -
  let ?idx = "filter (\<lambda>i. op_key (history ! i) = k) [0..<length history]"
  have part: "filter (\<lambda>v. op_key v = k) history = map ((!) history) ?idx"
    by (metis (no_types, lifting) comp_apply filter_cong filter_map map_nth)
  have "set ?idx = of_key history k" by (auto simp: of_key_def)
  then show ?thesis using linearizable_part [OF _ part, of M] by simp
qed

lemma store_to_key:
  assumes "kv_typed history" "linear_on StoreModel history {..<length history} seq"
  shows "linear_on (KvModel ord) history (of_key history k) (filter (\<lambda>i. op_key (history ! i) = k) seq)"
proof -
  let ?io = "\<lambda>i. (op_Input (history ! i), op_Output (history ! i))"
  have set: "distinct seq" "set seq = {..<length history}" using assms(2) by (auto simp: linearization_def)
  have "legal (KvModel ord) '''' (filter (\<lambda>x. key_of (fst x) = k) (map ?io seq))"
    using assms legal_store [of "map ?io seq" "\<lambda>_. ''''" ord] set(2) by (auto simp: linearization_def kv_typed_def StoreModel_def)
  moreover have "filter (\<lambda>x. key_of (fst x) = k) (map ?io seq) = map ?io (filter (\<lambda>i. op_key (history ! i) = k) seq)"
    by (simp add: filter_map comp_def op_key_def)
  ultimately show ?thesis using assms(2) set
    by (auto simp: linearization_def sorted_wrt_filter of_key_def KvModel_def)
qed

lemma key_to_store:
  assumes "kv_typed history" "timely history" "distinct keys" "set keys = op_key ` set history"
    and "\<And>k. k \<in> set keys \<Longrightarrow> linear_on (KvModel ord) history (of_key history k) (seq k)"
  shows "\<exists>seq. linear_on StoreModel history {..<length history} seq"
proof -
  let ?key = "\<lambda>i. op_key (history ! i)" and ?io = "\<lambda>i. (op_Input (history ! i), op_Output (history ! i))"
  let ?call = "\<lambda>i. op_Call (history ! i)" and ?ret = "\<lambda>i. op_Return (history ! i)"
  have "\<exists>pt. sorted (map pt (seq k)) \<and> (\<forall>i \<in> set (seq k). ?call i \<le> pt i \<and> pt i \<le> ?ret i)" if "k \<in> set keys" for k
    using assms(5) [OF that] assms(2) by (intro linearization_points) (auto simp: linearization_def of_key_def timely_def list_all_length)
  then obtain pts where pts: "\<And>k. k \<in> set keys \<Longrightarrow> sorted (map (pts k) (seq k)) \<and> (\<forall>i \<in> set (seq k). ?call i \<le> pts k i \<and> pts k i \<le> ?ret i)"
    by metis
  define pt where "pt i = pts (?key i) i" for i
  have seq: "set (seq k) = of_key history k" "distinct (seq k)" if "k \<in> set keys" for k
    using assms(5) [OF that] by (auto simp: linearization_def)
  have pt_eq: "map pt (seq k) = map (pts k) (seq k)" if "k \<in> set keys" for k
    using seq(1) [OF that] by (auto simp: pt_def of_key_def)
  define merged where "merged = sort_key pt (concat (map seq keys))"
  note m = merge_by_points [of keys pt seq ?key, OF _ assms(3), folded merged_def]
  have hyp: "sorted (map pt (seq k)) \<and> (\<forall>i \<in> set (seq k). ?key i = k) \<and> distinct (seq k)" if "k \<in> set keys" for k
    unfolding pt_eq [OF that] using pts [OF that] seq [OF that] by (auto simp: of_key_def)
  have all: "set merged = {..<length history}" using m(2) [OF hyp] seq(1) assms(4) by (fastforce simp: of_key_def)
  have bounds: "?call i \<le> pt i \<and> pt i \<le> ?ret i" if "i < length history" for i
    using pts [of "?key i"] seq(1) [of "?key i"] that assms(4) by (auto simp: pt_def of_key_def)
  have "sorted_wrt (\<lambda>i j. pt i \<le> pt j) merged" using m(3) [OF hyp] by (simp add: sorted_map)
  then have "sorted_wrt (\<lambda>i j. \<not> ?ret j < ?call i) merged"
  proof (rule sorted_wrt_mono_rel [rotated])
    fix i j assume "i \<in> set merged" "j \<in> set merged" "pt i \<le> pt j"
    then show "\<not> ?ret j < ?call i" using bounds [of i] bounds [of j] all by auto
  qed
  moreover have "legal StoreModel (\<lambda>_. '''') (map ?io merged)"
  proof -
    have "legal (KvModel ord) '''' (map ?io (filter (\<lambda>i. ?key i = k) merged))" for k
    proof (cases "k \<in> set keys")
      case True
      then show ?thesis using m(4) [OF hyp True] assms(5) [OF True] by (simp add: linearization_def KvModel_def)
    next
      case False
      then have "filter (\<lambda>i. ?key i = k) merged = []" using all assms(4) by (auto simp: filter_empty_conv)
      then show ?thesis by simp
    qed
    then show ?thesis using legal_store [of "map ?io merged" "\<lambda>_. ''''" ord] all assms(1)
      by (auto simp: filter_map comp_def op_key_def kv_typed_def)
  qed
  ultimately have "linear_on StoreModel history {..<length history} merged"
    using m(1) [OF hyp] all by (simp add: linearization_def StoreModel_def)
  then show ?thesis by blast
qed

section \<open>The partition of the model\<close>

definition ranges_ok :: "((string \<rightharpoonup> 'a) \<Rightarrow> string list) \<Rightarrow> bool" where
  "ranges_ok ord \<longleftrightarrow> (\<forall>m. finite (dom m) \<longrightarrow> range_order m (ord m))"

lemma kvGroup_eq:
  "kv_typed history \<Longrightarrow> kvGroup history m =
   Some (\<lambda>k. if k \<in> op_key ` set history then Some (mget [] m k @ filter (\<lambda>v. op_key v = k) history) else m k)"
proof (induction history arbitrary: m)
  case (Cons v history)
  obtain inp where inp: "as_KvInput (op_Input v) = Some inp" using Cons.prems by (auto simp: kv_typed_def)
  then have key: "ki_Key inp = op_key v" by (simp add: op_key_def key_of_def)
  have "kv_typed history" using Cons.prems by (simp add: kv_typed_def)
  from Cons.IH [OF this, of "m(op_key v \<mapsto> mget [] m (op_key v) @ [v])"]
  have "kvGroup (v # history) m = Some (\<lambda>k. if k \<in> op_key ` set history then
      Some (mget [] (m(op_key v \<mapsto> mget [] m (op_key v) @ [v])) k @ filter (\<lambda>v. op_key v = k) history) else (m(op_key v \<mapsto> mget [] m (op_key v) @ [v])) k)"
    by (simp add: inp key Let_def del: fun_upd_apply)
  also have "\<dots> = Some (\<lambda>k. if k \<in> op_key ` set (v # history) then Some (mget [] m k @ filter (\<lambda>v. op_key v = k) (v # history)) else m k)"
    by (auto simp: fun_eq_iff image_iff eq_commute [of "[]"] filter_empty_conv)
  finally show ?case .
qed simp

lemma kvPartition_eq:
  assumes "kv_typed history" "ranges_ok ord"
  shows "\<exists>keys. distinct keys \<and> set keys = op_key ` set history \<and>
    kvPartition ord history = Some (map (\<lambda>k. filter (\<lambda>v. op_key v = k) history) keys)"
proof -
  define m where "m = (\<lambda>k. if k \<in> op_key ` set history then Some (filter (\<lambda>v. op_key v = k) history) else None)"
  have m: "kvGroup history Map.empty = Some m" using kvGroup_eq [OF assms(1), of Map.empty] by (simp add: m_def mget_def cong: if_cong)
  have dom: "dom m = op_key ` set history" by (auto simp: m_def split: if_splits)
  then have ord: "distinct (ord m)" "set (ord m) = op_key ` set history"
    using assms(2) by (auto simp: ranges_ok_def range_order_def)
  then have "kvPartition ord history = Some (map (mget [] m) (sort (ord m)))"
    using go_range_append_keys [of "ord m" m "[]"] dom by (simp add: kvPartition_def m)
  moreover have "map (mget [] m) (sort (ord m)) = map (\<lambda>k. filter (\<lambda>v. op_key v = k) history) (sort (ord m))"
    using ord(2) by (auto simp: m_def mget_def)
  ultimately show ?thesis using ord by (intro exI [of _ "sort (ord m)"]) simp
qed

lemma KvModel_local:
  assumes "kv_typed history" "timely history" "ranges_ok ord"
  shows "\<exists>parts. kvPartition ord history = Some parts \<and>
    (linearizable StoreModel history \<longleftrightarrow> (\<forall>h \<in> set parts. linearizable (KvModel ord) h))"
proof -
  obtain keys where keys: "distinct keys" "set keys = op_key ` set history"
    "kvPartition ord history = Some (map (\<lambda>k. filter (\<lambda>v. op_key v = k) history) keys)"
    using kvPartition_eq [OF assms(1,3)] by blast
  have "linearizable (KvModel ord) (filter (\<lambda>v. op_key v = k) history)" if "linearizable StoreModel history" for k
    unfolding linearizable_key using that store_to_key [OF assms(1)] unfolding linearizable_def by blast
  moreover have "linearizable StoreModel history" if "\<forall>k \<in> set keys. linearizable (KvModel ord) (filter (\<lambda>v. op_key v = k) history)"
  proof -
    have "\<forall>k \<in> set keys. \<exists>seq. linear_on (KvModel ord) history (of_key history k) seq" using that by (simp only: linearizable_key)
    then obtain seq where "\<And>k. k \<in> set keys \<Longrightarrow> linear_on (KvModel ord) history (of_key history k) (seq k)" by metis
    from key_to_store [OF assms(1,2) keys(1,2) this] show ?thesis by (simp add: linearizable_def)
  qed
  ultimately show ?thesis using keys(3) by auto
qed


text \<open>
  C29: checking key by key is enough. A history of gets, puts and appends is linearizable as a history of the whole
  key/value store if and only if each of the partitions that \<open>KvModel\<close> splits it into is linearizable as a history of one key.
\<close>

theorem KvModel_partition:
  assumes "kv_typed history" "timely history" "ranges_ok ord"
  shows "\<exists>parts. kvPartition ord history = Some parts \<and>
    (linearizable StoreModel history \<longleftrightarrow> (\<forall>h \<in> set parts. linearizable (KvModel ord) h))"
  using KvModel_local [OF assms] .

text \<open>Two overlapping puts of different keys, and a get that sees one of them.\<close>

definition demo_keys :: "(string \<rightharpoonup> 'a) \<Rightarrow> string list" where
  "demo_keys m = sorted_list_of_set (dom m)"

lemma demo_keys_ok: "ranges_ok demo_keys"
  by (simp add: ranges_ok_def range_order_def demo_keys_def)

definition demo_other :: "kvValue Operation" where
  "demo_other = \<lparr>op_ClientId = 2, op_Input = Some (KvIn \<lparr>ki_Op = 2, ki_Key = ''l'', ki_Value = ''w''\<rparr>), op_Call = 3,
     op_Output = Some (KvOut \<lparr>ko_Value = ''''\<rparr>), op_Return = 4\<rparr>"

lemma demo_typed: "kv_typed [demo_put, demo_other, demo_get x t]" "timely [demo_put, demo_other, demo_get x t]"
  by (simp_all add: kv_typed_def timely_def demo_put_def demo_other_def demo_get_def as_KvInput_def as_KvOutput_def)

lemma demo_parts: "op_key demo_put = ''k''" "op_key demo_other = ''l''" "op_key (demo_get x t) = ''k''"
  by (simp_all add: op_key_def key_of_def demo_put_def demo_other_def demo_get_def as_KvInput_def)

theorem KvModel_partition_witness:
  "\<exists>parts. kvPartition demo_keys [demo_put, demo_other, demo_get ''v'' 5] = Some parts \<and>
    (linearizable StoreModel [demo_put, demo_other, demo_get ''v'' 5] \<longleftrightarrow> (\<forall>h \<in> set parts. linearizable (KvModel demo_keys) h))"
  by (rule KvModel_partition [OF demo_typed demo_keys_ok])

section \<open>The answer of the checker\<close>

lemma enough_mono: "m \<le> n \<Longrightarrow> enough m \<le> enough n"
  unfolding enough_def
  by (intro mult_le_mono order_trans [OF power_mono power_increasing]) (simp_all add: div_le_mono)

lemma KvModel_checkable:
  assumes "sorts_by_time srt" "kv_typed history" "timely history" "set part \<subseteq> set history"
  shows "checkable srt (KvModel ord) part"
proof -
  have "Step_defined (KvModel ord) part"
    using assms(2,4) by (auto simp: Step_defined_def kv_typed_def KvModel_def kvStep_def Option.bind_eq_None_conv)
  moreover have "Equal_sound (KvModel ord)" by (simp add: Equal_sound_def KvModel_def model_Equal_def ShallowEqual_def)
  moreover have "timely part" using assms(3,4) by (auto simp: timely_def list_all_iff)
  ultimately show ?thesis using assms(1) by (simp add: checkable_def)
qed

text \<open>
  C25: what the tests of the key/value servers rely on. \<open>CheckOperations\<close> with \<open>KvModel\<close>, on a history that is not empty, answers in
  finitely many steps, for every order of the goroutines, whether the history is one of a linearizable key/value store.
\<close>

theorem CheckOperations_KvModel:
  assumes "sorts_by_time srt" "kv_typed history" "timely history" "ranges_ok ord" "history \<noteq> []"
    and "distinct is" "set is = {..<card (op_key ` set history)}"
    and "\<forall>i. True \<notin> set (kills i) \<and> enough (2 * length history) \<le> length (kills i)"
  shows "CheckOperations srt (KvModel ord) history kills (map Recv is @ rest) ords = Some (linearizable StoreModel history)"
proof -
  obtain keys where keys: "distinct keys" "set keys = op_key ` set history"
    "kvPartition ord history = Some (map (\<lambda>k. filter (\<lambda>v. op_key v = k) history) keys)"
    using kvPartition_eq [OF assms(2,4)] by blast
  let ?parts = "map (\<lambda>k. filter (\<lambda>v. op_key v = k) history) keys"
  have len: "length keys = card (op_key ` set history)" using distinct_card [OF keys(1)] keys(2) by simp
  have lin: "linearizable StoreModel history \<longleftrightarrow> (\<forall>h \<in> set ?parts. linearizable (KvModel ord) h)"
    using KvModel_local [OF assms(2-4)] keys(3) by simp
  have part: "model_Partition (KvModel ord) history = Some ?parts" using keys(3) by (simp add: model_Partition_def KvModel_def)
  have chk: "\<forall>h \<in> set ?parts. checkable srt (KvModel ord) h" using KvModel_checkable [OF assms(1-3)] by auto
  have ne: "?parts \<noteq> []" using keys(2) assms(5) by (metis image_is_empty map_is_Nil_conv set_empty)
  have fuel: "\<forall>i < length ?parts. True \<notin> set (kills i) \<and> enough (2 * length (?parts ! i)) \<le> length (kills i)"
    using assms(8) order_trans [OF enough_mono] by (metis (no_types, lifting) length_filter_le length_map mult_le_mono2 nth_map)
  show ?thesis using CheckOperations_answer [OF part chk ne assms(6) _ fuel] assms(7) len lin by simp
qed

theorem CheckOperations_KvModel_witness:
  "CheckOperations time_sort (KvModel demo_keys) [demo_put, demo_other, demo_get ''v'' 5] (\<lambda>_. replicate 2058 False) [Recv 1, Recv 0] (\<lambda>_. []) =
   Some (linearizable StoreModel [demo_put, demo_other, demo_get ''v'' 5])"
proof -
  have "op_key ` set [demo_put, demo_other, demo_get ''v'' 5] = {''k'', ''l''}" by (auto simp: demo_parts)
  then have "set [1, 0] = {..<card (op_key ` set [demo_put, demo_other, demo_get ''v'' 5])}" by (auto simp: lessThan_Suc numeral_2_eq_2)
  then show ?thesis
    using CheckOperations_KvModel [OF time_sort_sorts demo_typed demo_keys_ok, of "''v''" 5 "[1, 0]" "\<lambda>_. replicate 2058 False" "[]" "\<lambda>_. []"]
    by (simp add: enough_def)
qed

text \<open>
  C40: an empty history. \<open>KvModel\<close> splits a history without operations into no partitions at all. \<open>checkParallel\<close> compares the
  number of results with the number of partitions only after it has received a result, so it waits for one that never comes:
  without a timeout there is no schedule in which \<open>CheckOperations\<close> returns.
\<close>

theorem CheckOperations_empty_waits:
  "TimeOut \<notin> set sels \<Longrightarrow> CheckOperations srt (KvModel ord) [] kills sels ords = None"
proof -
  assume "TimeOut \<notin> set sels"
  then have "selectLoop 0 False (\<lambda>_. None) sels 0 True = None" by (cases sels; cases "hd sels") auto
  moreover have "kvPartition ord [] = Some []" by (simp add: kvPartition_def go_range_empty)
  ultimately show ?thesis
    by (simp add: CheckOperations_def checkOperations_def fillDefault_def KvModel_def checkParallel_def)
qed

theorem CheckOperations_empty_waits_witness:
  "CheckOperations time_sort (KvModel demo_keys) [] (\<lambda>_. []) [Recv 0] (\<lambda>_. []) = None"
  by (rule CheckOperations_empty_waits) simp

end
