(* ===== verification/MapReduce.thy ===== *)
theory MapReduce
  imports Service "HOL-Library.Word" "HOL-Library.Finite_Map" "HOL-Library.List_Lexorder" "HOL-Library.Char_ord"
begin

text \<open>
  The MapReduce library of src/src/mr (coordinator.go, rpc.go, worker.go), the sequential version of
  src/src/main/mrsequential.go and the applications of src/src/mrapps.

  \<^item> \<open>time.Time\<close> and \<open>time.Duration\<close> are integers, in nanoseconds. A handler reads the clock once, the argument \<open>now\<close>.
  \<^item> The task tables are finite maps; the order in which \<open>range\<close> visits one is an argument.
  \<^item> The file system holds, by file name, the texts of the input files, the pairs of the intermediate files (the JSON encoder and decoder
    write and read back a sequence of values of valid text) and the lines of the output files. A file appears under its name complete, by a rename.
  \<^item> A goroutine of a worker is cut where it calls the coordinator or renames or reads a file; between two cuts it is an element of
    \<open>mapper\<close> or \<open>reducer\<close>. \<open>log.Fatalf\<close> and a crash end it (\<open>M_exit\<close>, \<open>R_exit\<close>); that the process of a worker ends is that
    both its goroutines end. A call that fails ends the worker, or, for the report of a finished task, starts it over.
  \<^item> \<open>sort.Sort(ByKey)\<close> does not fix the order of pairs with the same key: it is an argument \<open>srt\<close>.
\<close>

unbundle bit_operations_syntax

section \<open>Names and hashes\<close>

fun digits :: "nat \<Rightarrow> string" where
  "digits n = (if n < 10 then [char_of (48 + n)] else digits (n div 10) @ [char_of (48 + n mod 10)])"

declare digits.simps [simp del]

definition Itoa :: "int \<Rightarrow> string" where
  "Itoa i = (if i < 0 then CHR ''-'' # digits (nat (- i)) else digits (nat i))"

record KeyValue =
  kv_Key :: string
  kv_Value :: string

definition ByKey_Less :: "KeyValue \<Rightarrow> KeyValue \<Rightarrow> bool" where
  "ByKey_Less a b \<longleftrightarrow> kv_Key a < kv_Key b"

definition sorts_by_key :: "(KeyValue list \<Rightarrow> KeyValue list) \<Rightarrow> bool" where
  "sorts_by_key srt \<longleftrightarrow> (\<forall>xs. mset (srt xs) = mset xs \<and> sorted_wrt (\<lambda>a b. \<not> ByKey_Less b a) (srt xs))"

text \<open>\<open>fnv.New32a\<close>: the 32-bit FNV-1a hash, on wrapping words.\<close>

definition fnv32a :: "string \<Rightarrow> 32 word" where
  "fnv32a key = fold (\<lambda>c h. (h XOR of_char c) * 16777619) key 2166136261"

definition ihash :: "string \<Rightarrow> int" where
  "ihash key = uint (fnv32a key AND 0x7fffffff)"

section \<open>The coordinator\<close>

datatype CoordinatorStatus = InitStatus | MapStatus | ReduceStatus | ShutDowned

datatype RequestType = MapRequest | ReduceRequest | MapFinishRequest | ReduceFinishRequest

datatype ReplyType = NoTask | NewTask

record Args =
  ReqType :: RequestType
  MapFinishedFileName :: string
  ReduceFinishedTaskId :: int

record Reply =
  NFile :: int
  NReduce :: int
  MasterStatus :: CoordinatorStatus
  MapTaskId :: int
  MapFileName :: string
  ReduceTaskId :: int
  ReplyCode :: ReplyType

record Coordinator =
  nfile :: int
  nReduce :: int
  mr_files :: "(string, int) fmap"
  mTasks :: "(string, int) fmap"
  rTasks :: "(int, int) fmap"

definition Second :: int where
  "Second = 1000000000"

definition Hour :: int where
  "Hour = 3600 * Second"

definition GetCoordinatorStatus :: "Coordinator \<Rightarrow> CoordinatorStatus" where
  "GetCoordinatorStatus c =
     (if mTasks c = fmempty \<and> rTasks c = fmempty then ShutDowned
      else if mTasks c \<noteq> fmempty then MapStatus
      else if rTasks c \<noteq> fmempty then ReduceStatus
      else InitStatus)"

text \<open>The first task, in the order of the loop, that was handed out more than ten seconds ago.\<close>

definition overdue :: "int \<Rightarrow> 'k list \<Rightarrow> ('k, int) fmap \<Rightarrow> 'k option" where
  "overdue now ord tasks = List.find (\<lambda>k. case fmlookup tasks k of None \<Rightarrow> False | Some lastTime \<Rightarrow> now - lastTime > 10 * Second) ord"

definition newReduceTasks :: "int \<Rightarrow> Coordinator \<Rightarrow> Coordinator" where
  "newReduceTasks now c = c\<lparr>rTasks := fold (\<lambda>i. fmupd (int i) (now - Hour)) [0..<nat (nReduce c)] (rTasks c)\<rparr>"

definition DispatchTask :: "int \<Rightarrow> string list \<Rightarrow> int list \<Rightarrow> Args \<Rightarrow> Coordinator \<Rightarrow> Reply \<times> Coordinator" where
  "DispatchTask now mord rord args c =
     (let status = GetCoordinatorStatus c;
          reply = \<lparr>NFile = nfile c, NReduce = nReduce c, MasterStatus = status, MapTaskId = 0, MapFileName = '''', ReduceTaskId = 0, ReplyCode = NoTask\<rparr>
      in if status = ShutDowned then (reply, c)
      else case ReqType args of
        MapRequest \<Rightarrow>
          if status = MapStatus then
            case overdue now mord (mTasks c) of
              None \<Rightarrow> (reply, c)
            | Some fileName \<Rightarrow>
                (reply\<lparr>ReplyCode := NewTask, MapFileName := fileName, MapTaskId := mget 0 (fmlookup (mr_files c)) fileName\<rparr>,
                 c\<lparr>mTasks := fmupd fileName now (mTasks c)\<rparr>)
          else (reply, c)
      | ReduceRequest \<Rightarrow>
          if status = ReduceStatus then
            case overdue now rord (rTasks c) of
              None \<Rightarrow> (reply, c)
            | Some taskId \<Rightarrow> (reply\<lparr>ReplyCode := NewTask, ReduceTaskId := taskId\<rparr>, c\<lparr>rTasks := fmupd taskId now (rTasks c)\<rparr>)
          else (reply, c)
      | MapFinishRequest \<Rightarrow>
          if status = MapStatus \<and> MapFinishedFileName args |\<in>| fmdom (mTasks c) then
            let c = c\<lparr>mTasks := fmdrop (MapFinishedFileName args) (mTasks c)\<rparr>
            in (reply, if mTasks c = fmempty then newReduceTasks now c else c)
          else (reply, c)
      | ReduceFinishRequest \<Rightarrow>
          if status = ReduceStatus \<and> ReduceFinishedTaskId args |\<in>| fmdom (rTasks c) then
            (reply, c\<lparr>rTasks := fmdrop (ReduceFinishedTaskId args) (rTasks c)\<rparr>)
          else (reply, c))"

definition Done :: "Coordinator \<Rightarrow> bool" where
  "Done c \<longleftrightarrow> mTasks c = fmempty \<and> rTasks c = fmempty"

definition MakeCoordinator :: "int \<Rightarrow> string list \<Rightarrow> int \<Rightarrow> Coordinator" where
  "MakeCoordinator now names n =
     fold (\<lambda>(index, v) c. c\<lparr>mr_files := fmupd v (int index) (mr_files c), mTasks := fmupd v (now - Hour) (mTasks c)\<rparr>) (enumerate 0 names)
       \<lparr>nfile = int (length names), nReduce = n, mr_files = fmempty, mTasks = fmempty, rTasks = fmempty\<rparr>"

section \<open>Workers\<close>

record filesystem =
  inputs :: "string \<rightharpoonup> string"
  inter :: "string \<rightharpoonup> KeyValue list"
  outs :: "string \<rightharpoonup> string list"

definition onname :: "int \<Rightarrow> int \<Rightarrow> string" where
  "onname X Y = ''mr-'' @ Itoa X @ ''-'' @ Itoa Y"

definition resultFileName :: "int \<Rightarrow> string" where
  "resultFileName Y = ''mr-out-'' @ Itoa Y"

text \<open>The pairs of a map task, by reduce task. With no reduce tasks the remainder is a division by zero.\<close>

fun kvlistsLoop :: "int \<Rightarrow> KeyValue list \<Rightarrow> KeyValue list list \<Rightarrow> KeyValue list list option" where
  "kvlistsLoop n [] kvlists = Some kvlists"
| "kvlistsLoop n (kv # intermediate) kvlists =
     (if n = 0 then None
      else do {
        old \<leftarrow> go_nth kvlists (ihash (kv_Key kv) mod n);
        kvlists \<leftarrow> go_set kvlists (ihash (kv_Key kv) mod n) (old @ [kv]);
        kvlistsLoop n intermediate kvlists
      })"

definition kvlists :: "(KeyValue list \<Rightarrow> KeyValue list) \<Rightarrow> int \<Rightarrow> KeyValue list \<Rightarrow> KeyValue list list option" where
  "kvlists srt n intermediate = kvlistsLoop n (srt intermediate) (replicate (nat n) [])"

datatype mapper = M_idle | M_write string int "(nat \<times> KeyValue list) list" | M_exit

definition MapTaskWoker :: "(KeyValue list \<Rightarrow> KeyValue list) \<Rightarrow> (string \<Rightarrow> string \<Rightarrow> KeyValue list) \<Rightarrow> int \<Rightarrow> string list \<Rightarrow>
    mapper \<Rightarrow> Coordinator \<times> filesystem \<Rightarrow> mapper \<times> Coordinator \<times> filesystem" where
  "MapTaskWoker srt mapf now mord m = (\<lambda>(c, fs).
     case m of
       M_idle \<Rightarrow>
         let (reply, c) = DispatchTask now mord [] \<lparr>ReqType = MapRequest, MapFinishedFileName = '''', ReduceFinishedTaskId = 0\<rparr> c in
         if MasterStatus reply \<noteq> MapStatus then (M_exit, c, fs)
         else if ReplyCode reply = NoTask then (M_idle, c, fs)
         else (case inputs fs (MapFileName reply) of
             None \<Rightarrow> (M_exit, c, fs)
           | Some content \<Rightarrow>
               (case kvlists srt (NReduce reply) (mapf (MapFileName reply) content) of
                  None \<Rightarrow> (M_exit, c, fs)
                | Some kvls \<Rightarrow> (M_write (MapFileName reply) (MapTaskId reply) (enumerate 0 kvls), c, fs)))
     | M_write f X ((index, kvlist) # rest) \<Rightarrow>
         (M_write f X rest, c, fs\<lparr>inter := (inter fs)(onname X (int index) \<mapsto> kvlist)\<rparr>)
     | M_write f X [] \<Rightarrow>
         let (_, c) = DispatchTask now [] [] \<lparr>ReqType = MapFinishRequest, MapFinishedFileName = f, ReduceFinishedTaskId = 0\<rparr> c
         in (M_idle, c, fs)
     | M_exit \<Rightarrow> (M_exit, c, fs))"

definition addPair :: "KeyValue \<Rightarrow> (string, string list) fmap \<Rightarrow> (string, string list) fmap" where
  "addPair kv result = fmupd (kv_Key kv) (mget [] (fmlookup result) (kv_Key kv) @ [kv_Value kv]) result"

definition result_line :: "string \<Rightarrow> string \<Rightarrow> string" where
  "result_line k v = k @ '' '' @ v @ [CHR 0x0A]"

datatype reducer = R_idle | R_read int int int "(string, string list) fmap" | R_finish int | R_exit

definition ReduceTaskWorker :: "(string \<Rightarrow> string list \<Rightarrow> string) \<Rightarrow> int \<Rightarrow> int list \<Rightarrow> string list \<Rightarrow>
    reducer \<Rightarrow> Coordinator \<times> filesystem \<Rightarrow> reducer \<times> Coordinator \<times> filesystem" where
  "ReduceTaskWorker reducef now rord kord r = (\<lambda>(c, fs).
     case r of
       R_idle \<Rightarrow>
         let (reply, c) = DispatchTask now [] rord \<lparr>ReqType = ReduceRequest, MapFinishedFileName = '''', ReduceFinishedTaskId = 0\<rparr> c in
         if MasterStatus reply = ShutDowned then (R_exit, c, fs)
         else if MasterStatus reply = ReduceStatus \<and> ReplyCode reply = NewTask
           then (R_read (ReduceTaskId reply) (NFile reply) 0 fmempty, c, fs)
         else (R_idle, c, fs)
     | R_read Y n X result \<Rightarrow>
         if X < n then
           (case inter fs (onname X Y) of
              None \<Rightarrow> (R_exit, c, fs)
            | Some kvs \<Rightarrow> (R_read Y n (X + 1) (fold addPair kvs result), c, fs))
         else (R_finish Y, c, fs\<lparr>outs := (outs fs)(resultFileName Y \<mapsto>
             map (\<lambda>k. result_line k (reducef k (mget [] (fmlookup result) k))) kord)\<rparr>)
     | R_finish Y \<Rightarrow>
         let (_, c) = DispatchTask now [] [] \<lparr>ReqType = ReduceFinishRequest, MapFinishedFileName = '''', ReduceFinishedTaskId = Y\<rparr> c
         in (R_idle, c, fs)
     | R_exit \<Rightarrow> (R_exit, c, fs))"

section \<open>A job\<close>

text \<open>
  The processes of a job: a coordinator and workers, which may be started and may crash at any time. \<open>Worker\<close> starts one goroutine
  of each kind.
  Every action of a goroutine carries the time at which it happens, and time does not run backwards (\<open>clock\<close>);
  a request for a task also carries the order in which \<open>range\<close> visits the task table, which is any order of all its keys.
\<close>

record job =
  coord :: Coordinator
  files_of :: filesystem
  mappers :: "mapper list"
  reducers :: "reducer list"
  clock :: int

datatype action =
    StartWorker
  | RunMapper nat int "string list"
  | RunReducer nat int "int list" "string list"
  | KillMapper nat
  | KillReducer nat

fun job_step :: "(KeyValue list \<Rightarrow> KeyValue list) \<Rightarrow> (string \<Rightarrow> string \<Rightarrow> KeyValue list) \<Rightarrow> (string \<Rightarrow> string list \<Rightarrow> string) \<Rightarrow> action \<Rightarrow> job \<Rightarrow> job option" where
  "job_step srt mapf reducef StartWorker j = Some (j\<lparr>mappers := mappers j @ [M_idle], reducers := reducers j @ [R_idle]\<rparr>)"
| "job_step srt mapf reducef (RunMapper i now mord) j =
     (if i < length (mappers j) \<and> clock j \<le> now \<and>
         (mappers j ! i = M_idle \<longrightarrow> distinct mord \<and> set mord = fset (fmdom (mTasks (coord j)))) then
        let (m, c, fs) = MapTaskWoker srt mapf now mord (mappers j ! i) (coord j, files_of j)
        in Some (j\<lparr>coord := c, files_of := fs, mappers := (mappers j)[i := m], clock := now\<rparr>)
      else None)"
| "job_step srt mapf reducef (RunReducer i now rord kord) j =
     (if i < length (reducers j) \<and> clock j \<le> now \<and>
         (reducers j ! i = R_idle \<longrightarrow> distinct rord \<and> set rord = fset (fmdom (rTasks (coord j)))) \<and>
         (case reducers j ! i of R_read Y n X result \<Rightarrow> X < n \<or> distinct kord \<and> set kord = fset (fmdom result) | _ \<Rightarrow> True) then
        let (r, c, fs) = ReduceTaskWorker reducef now rord kord (reducers j ! i) (coord j, files_of j)
        in Some (j\<lparr>coord := c, files_of := fs, reducers := (reducers j)[i := r], clock := now\<rparr>)
      else None)"
| "job_step srt mapf reducef (KillMapper i) j = Some (j\<lparr>mappers := (mappers j)[i := M_exit]\<rparr>)"
| "job_step srt mapf reducef (KillReducer i) j = Some (j\<lparr>reducers := (reducers j)[i := R_exit]\<rparr>)"

definition new_job :: "int \<Rightarrow> string list \<Rightarrow> int \<Rightarrow> (string \<rightharpoonup> string) \<Rightarrow> job" where
  "new_job now names n input =
     \<lparr>coord = MakeCoordinator now names n, files_of = \<lparr>inputs = input, inter = Map.empty, outs = Map.empty\<rparr>, mappers = [], reducers = [], clock = now\<rparr>"

section \<open>The sequential version\<close>

function groupLoop :: "(string \<Rightarrow> string list \<Rightarrow> string) \<Rightarrow> KeyValue list \<Rightarrow> string list" where
  "groupLoop reducef [] = []"
| "groupLoop reducef (kv # rest) =
     (let vals = kv_Value kv # map kv_Value (takeWhile (\<lambda>x. kv_Key x = kv_Key kv) rest)
      in result_line (kv_Key kv) (reducef (kv_Key kv) vals) # groupLoop reducef (dropWhile (\<lambda>x. kv_Key x = kv_Key kv) rest))"
  by pat_completeness auto

termination
  by (relation "measure (\<lambda>(_, xs). length xs)") (simp_all add: le_imp_less_Suc length_dropWhile_le)

definition mrsequential :: "(KeyValue list \<Rightarrow> KeyValue list) \<Rightarrow> (string \<Rightarrow> string \<Rightarrow> KeyValue list) \<Rightarrow> (string \<Rightarrow> string list \<Rightarrow> string) \<Rightarrow>
    (string \<rightharpoonup> string) \<Rightarrow> string list \<Rightarrow> string list option" where
  "mrsequential srt mapf reducef input names = do {
     kvas \<leftarrow> those (map (\<lambda>filename. map_option (mapf filename) (input filename)) names);
     Some (groupLoop reducef (srt (concat kvas)))
   }"

section \<open>Applications\<close>

text \<open>\<open>strings.FieldsFunc\<close>: the maximal runs of characters that are not separators.\<close>

function FieldsFunc :: "(char \<Rightarrow> bool) \<Rightarrow> string \<Rightarrow> string list" where
  "FieldsFunc sep s =
     (case dropWhile sep s of [] \<Rightarrow> []
      | c # cs \<Rightarrow> takeWhile (\<lambda>x. \<not> sep x) (c # cs) # FieldsFunc sep (dropWhile (\<lambda>x. \<not> sep x) (c # cs)))"
  by pat_completeness auto

termination
proof (relation "measure (\<lambda>(_, s). length s)")
  fix sep s c cs assume s: "dropWhile sep s = c # cs"
  then have "\<not> sep c" by (metis hd_dropWhile list.distinct(1) list.sel(1))
  then have "length (dropWhile (\<lambda>x. \<not> sep x) (c # cs)) \<le> length cs" by (simp add: length_dropWhile_le)
  also have "length cs < length s" using s length_dropWhile_le [of sep s] by simp
  finally show "((sep, dropWhile (\<lambda>x. \<not> sep x) (c # cs)), (sep, s)) \<in> measure (\<lambda>(_, s). length s)" by simp
qed simp

definition wc_Map :: "(char \<Rightarrow> bool) \<Rightarrow> string \<Rightarrow> string \<Rightarrow> KeyValue list" where
  "wc_Map IsLetter filename contents = map (\<lambda>w. \<lparr>kv_Key = w, kv_Value = ''1''\<rparr>) (FieldsFunc (\<lambda>r. \<not> IsLetter r) contents)"

definition wc_Reduce :: "string \<Rightarrow> string list \<Rightarrow> string" where
  "wc_Reduce key vals = Itoa (len vals)"

definition indexer_Map :: "(char \<Rightarrow> bool) \<Rightarrow> (string list \<Rightarrow> string list) \<Rightarrow> string \<Rightarrow> string \<Rightarrow> KeyValue list" where
  "indexer_Map IsLetter ord document text =
     (let words = FieldsFunc (\<lambda>x. \<not> IsLetter x) text
      in map (\<lambda>w. \<lparr>kv_Key = w, kv_Value = document\<rparr>) (ord (remdups words)))"

fun strings_Join :: "string list \<Rightarrow> string \<Rightarrow> string" where
  "strings_Join [] sep = ''''"
| "strings_Join [x] sep = x"
| "strings_Join (x # y # xs) sep = x @ sep @ strings_Join (y # xs) sep"

definition indexer_Reduce :: "string \<Rightarrow> string list \<Rightarrow> string" where
  "indexer_Reduce key vals = Itoa (len vals) @ '' '' @ strings_Join (sort vals) '',''"

text \<open>The pseudo-applications crash.go and nocrash.go, when they do not crash.\<close>

definition crash_Map :: "string \<Rightarrow> string \<Rightarrow> KeyValue list" where
  "crash_Map filename contents =
     [\<lparr>kv_Key = ''a'', kv_Value = filename\<rparr>, \<lparr>kv_Key = ''b'', kv_Value = Itoa (len filename)\<rparr>,
      \<lparr>kv_Key = ''c'', kv_Value = Itoa (len contents)\<rparr>, \<lparr>kv_Key = ''d'', kv_Value = ''xyzzy''\<rparr>]"

definition crash_Reduce :: "string \<Rightarrow> string list \<Rightarrow> string" where
  "crash_Reduce key vals = strings_Join (sort vals) '' ''"

text \<open>early_exit.go; the sleep of its Reduce has no effect on the result.\<close>

definition early_exit_Map :: "string \<Rightarrow> string \<Rightarrow> KeyValue list" where
  "early_exit_Map filename contents = [\<lparr>kv_Key = filename, kv_Value = ''1''\<rparr>]"

definition early_exit_Reduce :: "string \<Rightarrow> string list \<Rightarrow> string" where
  "early_exit_Reduce key vals = Itoa (len vals)"

end
