(* ===== verification/MapReduce_Correct.thy ===== *)
theory MapReduce_Correct
  imports MapReduce
begin

text \<open>
  Correctness of the MapReduce library of src/src/mr. However workers are started, delayed and
  crash, and whichever tasks are handed out twice, a job whose coordinator reports that it is done has written output files
  that together hold exactly the lines of the sequential version (src/src/main/mrsequential.go), for
  every application whose Reduce does not depend on the order of its values.
\<close>

section \<open>File names\<close>

definition read_digits :: "string \<Rightarrow> nat" where
  "read_digits s = foldl (\<lambda>a c. 10 * a + (of_char c - 48)) 0 s"

lemma read_digits_snoc: "read_digits (s @ [c]) = 10 * read_digits s + (of_char c - 48)"
  by (simp add: read_digits_def)

lemma digit_char: "d < (10 :: nat) \<Longrightarrow> of_char (char_of (48 + d) :: char) = 48 + d"
  by simp

lemma read_digits_digits: "read_digits (digits n) = n"
proof (induction n rule: digits.induct)
  case (1 n)
  show ?case
  proof (cases "n < 10")
    case True
    then show ?thesis by (subst digits.simps) (simp add: read_digits_def)
  next
    case False
    then show ?thesis using 1 by (subst digits.simps) (simp add: read_digits_snoc)
  qed
qed

lemma digits_no_dash: "CHR ''-'' \<notin> set (digits n)"
proof (induction n rule: digits.induct)
  case (1 n)
  have nd: "CHR ''-'' \<noteq> char_of (48 + d)" if "d < 10" for d :: nat
  proof
    assume "CHR ''-'' = char_of (48 + d)"
    then have "(of_char (char_of (48 + d) :: char) :: nat) = 45" by (simp flip: \<open>CHR ''-'' = char_of (48 + d)\<close>)
    then show False using digit_char [OF that] by simp
  qed
  show ?case using 1 nd [of n] nd [of "n mod 10"] by (subst digits.simps) simp
qed

lemma Itoa_inj: "Itoa (int x) = Itoa (int y) \<longleftrightarrow> x = y"
  using read_digits_digits by (metis Itoa_def nat_int of_nat_less_0_iff)

lemma onname_inj: "onname (int x) (int y) = onname (int x') (int y') \<longleftrightarrow> x = x' \<and> y = y'"
proof -
  have no: "CHR ''-'' \<notin> set (Itoa (int z))" for z by (simp add: Itoa_def digits_no_dash)
  have cut: "takeWhile (\<lambda>c. c \<noteq> CHR ''-'') (Itoa (int z) @ CHR ''-'' # s) = Itoa (int z)" for z s
    using no [of z] by (subst takeWhile_append2) auto
  show ?thesis
  proof
    assume "onname (int x) (int y) = onname (int x') (int y')"
    then have eq: "Itoa (int x) @ CHR ''-'' # Itoa (int y) = Itoa (int x') @ CHR ''-'' # Itoa (int y')" by (simp add: onname_def)
    then have "Itoa (int x) = Itoa (int x')" using cut by metis
    then show "x = x' \<and> y = y'" using eq by (simp add: Itoa_inj)
  qed simp
qed

lemma resultFileName_inj: "resultFileName (int x) = resultFileName (int y) \<longleftrightarrow> x = y"
  by (simp add: resultFileName_def Itoa_inj)

section \<open>What a job computes\<close>

definition vals :: "KeyValue list \<Rightarrow> string \<Rightarrow> string list" where
  "vals kvs k = map kv_Value (filter (\<lambda>kv. kv_Key kv = k) kvs)"

definition keys_of :: "KeyValue list \<Rightarrow> string set" where
  "keys_of kvs = kv_Key ` set kvs"

definition slot :: "int \<Rightarrow> nat \<Rightarrow> KeyValue \<Rightarrow> bool" where
  "slot n Y kv \<longleftrightarrow> ihash (kv_Key kv) mod n = int Y"

text \<open>The lines for a set of keys, given all pairs.\<close>

definition lines :: "(string \<Rightarrow> string list \<Rightarrow> string) \<Rightarrow> KeyValue list \<Rightarrow> string set \<Rightarrow> string multiset" where
  "lines reducef kvs ks = image_mset (\<lambda>k. result_line k (reducef k (vals kvs k))) (mset_set ks)"

definition order_free :: "(string \<Rightarrow> string list \<Rightarrow> string) \<Rightarrow> bool" where
  "order_free reducef \<longleftrightarrow> (\<forall>k vs ws. mset vs = mset ws \<longrightarrow> reducef k vs = reducef k ws)"

lemma vals_mset: "mset (vals kvs k) = image_mset kv_Value (filter_mset (\<lambda>kv. kv_Key kv = k) (mset kvs))"
  by (simp add: vals_def mset_filter)

lemma lines_cong:
  assumes "order_free reducef" "mset kvs = mset kvs'"
  shows "lines reducef kvs ks = lines reducef kvs' ks"
proof -
  have "reducef k (vals kvs k) = reducef k (vals kvs' k)" for k
    using assms by (simp add: order_free_def vals_mset)
  then show ?thesis by (simp add: lines_def)
qed

subsection \<open>The sequential version\<close>

lemma sorted_group:
  assumes "sorted_wrt (\<lambda>a b. \<not> ByKey_Less b a) (kv # rest)"
  shows "\<forall>x \<in> set (dropWhile (\<lambda>x. kv_Key x = kv_Key kv) rest). kv_Key x \<noteq> kv_Key kv"
proof
  fix x assume x: "x \<in> set (dropWhile (\<lambda>x. kv_Key x = kv_Key kv) rest)"
  let ?d = "dropWhile (\<lambda>x. kv_Key x = kv_Key kv) rest"
  have "?d \<noteq> []" using x by (metis empty_iff empty_set)
  then obtain y d where d: "?d = y # d" by (meson neq_Nil_conv)
  have "kv_Key y \<noteq> kv_Key kv" using hd_dropWhile [of "\<lambda>x. kv_Key x = kv_Key kv" rest] d by simp
  moreover have "y \<in> set rest" using set_dropWhileD [of y "\<lambda>x. kv_Key x = kv_Key kv" rest] d by simp
  then have "kv_Key kv \<le> kv_Key y" using assms by (auto simp: ByKey_Less_def not_less)
  ultimately have "kv_Key kv < kv_Key y" by simp
  moreover have "sorted_wrt (\<lambda>a b. \<not> ByKey_Less b a) (y # d)"
    using assms sorted_wrt_dropWhile [of _ rest] by (simp flip: d)
  then have "kv_Key y \<le> kv_Key x" using x d by (auto simp: ByKey_Less_def not_less)
  ultimately show "kv_Key x \<noteq> kv_Key kv" by auto
qed

lemma groupLoop_lines:
  "sorted_wrt (\<lambda>a b. \<not> ByKey_Less b a) kvs \<Longrightarrow> mset (groupLoop reducef kvs) = lines reducef kvs (keys_of kvs)"
proof (induction reducef kvs rule: groupLoop.induct)
  case (2 reducef kv rest)
  let ?same = "\<lambda>x. kv_Key x = kv_Key kv" and ?k = "kv_Key kv"
  let ?t = "takeWhile ?same rest" and ?d = "dropWhile ?same rest"
  have d: "\<forall>x \<in> set ?d. kv_Key x \<noteq> ?k" using sorted_group [OF 2(2)] .
  have t: "\<forall>x \<in> set ?t. kv_Key x = ?k" by (meson set_takeWhileD)
  have filt: "filter (\<lambda>x. kv_Key x = k) rest = filter (\<lambda>x. kv_Key x = k) ?t @ filter (\<lambda>x. kv_Key x = k) ?d" for k
    by (metis filter_append takeWhile_dropWhile_id)
  have "filter ?same rest = ?t" unfolding filt [of ?k] filter_True [OF t] using filter_False [OF d] by (simp only: append_Nil2)
  then have vk: "vals (kv # rest) ?k = kv_Value kv # map kv_Value ?t"
    by (simp only: vals_def filter.simps list.map if_True simp_thms)
  have vo: "vals (kv # rest) k = vals ?d k" if "k \<noteq> ?k" for k
  proof -
    have "filter (\<lambda>x. kv_Key x = k) ?t = []" using t that by (metis (mono_tags, lifting) filter_False)
    then have "filter (\<lambda>x. kv_Key x = k) rest = filter (\<lambda>x. kv_Key x = k) ?d" unfolding filt [of k] by (simp only: append_Nil)
    then show ?thesis using not_sym [OF that] by (simp only: vals_def filter.simps if_False)
  qed
  have "set rest = set ?t \<union> set ?d" by (metis set_append takeWhile_dropWhile_id)
  then have "kv_Key ` set (kv # rest) = insert ?k (kv_Key ` set ?t \<union> kv_Key ` set ?d)" by (simp only: list.set image_insert image_Un)
  moreover have "kv_Key ` set ?t \<subseteq> {?k}" using t by blast
  ultimately have keys: "keys_of (kv # rest) = insert ?k (keys_of ?d)" unfolding keys_of_def by blast
  have new: "?k \<notin> keys_of ?d" using d unfolding keys_of_def by (metis imageE)
  have fin: "finite (keys_of ?d)" unfolding keys_of_def by simp
  have "sorted_wrt (\<lambda>a b. \<not> ByKey_Less b a) ?d"
    using 2(2) sorted_wrt_dropWhile [of _ rest] by simp
  then have IH: "mset (groupLoop reducef ?d) = lines reducef ?d (keys_of ?d)" using 2(1) by simp
  also have "\<dots> = lines reducef (kv # rest) (keys_of ?d)"
    unfolding lines_def by (rule image_mset_cong) (use vo new fin in \<open>metis elem_mset_set\<close>)
  finally show ?case using vk new fin by (simp add: lines_def keys Let_def)
qed (simp add: lines_def keys_of_def)

lemma mrsequential_lines:
  assumes "sorts_by_key srt" "order_free reducef" "\<forall>f \<in> set names. input f \<noteq> None"
  shows "\<exists>out. mrsequential srt mapf reducef input names = Some out \<and>
    mset out = lines reducef (concat (map (\<lambda>f. mapf f (the (input f))) names)) (keys_of (concat (map (\<lambda>f. mapf f (the (input f))) names)))"
proof -
  let ?all = "concat (map (\<lambda>f. mapf f (the (input f))) names)"
  have "those (map (\<lambda>filename. map_option (mapf filename) (input filename)) names) = Some (map (\<lambda>f. mapf f (the (input f))) names)"
    using assms(3) by (intro those_map) auto
  then have "mrsequential srt mapf reducef input names = Some (groupLoop reducef (srt ?all))" by (simp add: mrsequential_def)
  moreover have s: "mset (srt ?all) = mset ?all" "sorted_wrt (\<lambda>a b. \<not> ByKey_Less b a) (srt ?all)"
    using assms(1) by (simp_all add: sorts_by_key_def)
  then have "mset (groupLoop reducef (srt ?all)) = lines reducef ?all (keys_of (srt ?all))"
    using groupLoop_lines lines_cong [OF assms(2) s(1)] by metis
  moreover have "keys_of (srt ?all) = keys_of ?all" unfolding keys_of_def using mset_eq_setD [OF s(1)] by simp
  ultimately show ?thesis by simp
qed

subsection \<open>The pieces of a task\<close>

lemma kvlistsLoop_Some:
  assumes "0 < n" "len acc = n"
  shows "\<exists>ls. kvlistsLoop n kvs acc = Some ls \<and> len ls = n \<and> (\<forall>Y < nat n. ls ! Y = acc ! Y @ filter (slot n Y) kvs)"
  using assms(2)
proof (induction kvs arbitrary: acc)
  case (Cons kv kvs)
  let ?h = "ihash (kv_Key kv) mod n"
  have h: "0 \<le> ?h" "?h < n" using assms(1) by simp_all
  then have r: "in_range acc ?h" using Cons.prems by (simp add: in_range_def)
  let ?acc = "acc[nat ?h := acc ! nat ?h @ [kv]]"
  obtain ls where "kvlistsLoop n kvs ?acc = Some ls" "len ls = n" "\<forall>Y < nat n. ls ! Y = ?acc ! Y @ filter (slot n Y) kvs"
    using Cons.IH [of ?acc] Cons.prems by auto
  moreover have "?acc ! Y = acc ! Y @ filter (slot n Y) [kv]" if "Y < nat n" for Y
  proof (cases "?h = int Y")
    case True
    then show ?thesis using that Cons.prems by (simp add: slot_def len_def)
  next
    case False
    then have "nat ?h \<noteq> Y" using h(1) by (metis int_nat_eq)
    then show ?thesis using False by (simp add: slot_def)
  qed
  ultimately show ?case using assms(1) r by (auto simp: go_nth_def go_set_def)
qed simp

lemma kvlists_Some:
  assumes "0 < n" "sorts_by_key srt"
  shows "\<exists>ls. kvlists srt n kvs = Some ls \<and> length ls = nat n \<and> (\<forall>Y < nat n. mset (ls ! Y) = filter_mset (slot n Y) (mset kvs))"
proof -
  obtain ls where ls: "kvlistsLoop n (srt kvs) (replicate (nat n) []) = Some ls" "len ls = n"
    "\<forall>Y < nat n. ls ! Y = replicate (nat n) [] ! Y @ filter (slot n Y) (srt kvs)"
    using kvlistsLoop_Some [OF assms(1), of "replicate (nat n) []" "srt kvs"] assms(1) by (auto simp: len_def)
  moreover have "mset (srt kvs) = mset kvs" using assms(2) by (simp add: sorts_by_key_def)
  ultimately show ?thesis by (auto simp: kvlists_def len_def mset_filter)
qed

lemma addPairs_vals: "mget [] (fmlookup (fold addPair kvs res)) k = mget [] (fmlookup res) k @ vals kvs k"
  by (induction kvs arbitrary: res) (auto simp: addPair_def vals_def mget_def)

lemma addPairs_keys: "fset (fmdom (fold addPair kvs res)) = fset (fmdom res) \<union> keys_of kvs"
  by (induction kvs arbitrary: res) (auto simp: addPair_def keys_of_def)

end
