(* ===== verification/MapReduce_Job.thy ===== *)
theory MapReduce_Job
  imports MapReduce_Correct
begin

text \<open>
  Jobs of src/src/mr as runs of a coordinator and any number of workers: the invariant that ties the task
  tables of the coordinator to the files that exist and to what every worker is doing, and the result of a finished job.
\<close>

section \<open>The invariant\<close>

record params =
  p_mapf :: "string \<Rightarrow> string \<Rightarrow> KeyValue list"
  p_reducef :: "string \<Rightarrow> string list \<Rightarrow> string"
  p_names :: "string list"
  p_n :: int
  p_input :: "string \<rightharpoonup> string"

definition pairs :: "params \<Rightarrow> nat \<Rightarrow> KeyValue list" where
  "pairs p i = p_mapf p (p_names p ! i) (the (p_input p (p_names p ! i)))"

definition all_pairs :: "params \<Rightarrow> KeyValue list" where
  "all_pairs p = concat (map (\<lambda>f. p_mapf p f (the (p_input p f))) (p_names p))"

definition slot_keys :: "params \<Rightarrow> nat \<Rightarrow> string set" where
  "slot_keys p Y = {k \<in> keys_of (all_pairs p). ihash k mod p_n p = int Y}"

definition slot_pairs :: "params \<Rightarrow> nat \<Rightarrow> nat \<Rightarrow> KeyValue list" where
  "slot_pairs p Y x = concat (map (\<lambda>i. filter (slot (p_n p) Y) (pairs p i)) [0..<x])"

definition coord_ok :: "params \<Rightarrow> Coordinator \<Rightarrow> bool" where
  "coord_ok p c \<longleftrightarrow> nfile c = int (length (p_names p)) \<and> nReduce c = p_n p \<and>
     (\<forall>i < length (p_names p). fmlookup (mr_files c) (p_names p ! i) = Some (int i)) \<and>
     fset (fmdom (mTasks c)) \<subseteq> set (p_names p) \<and> fset (fmdom (rTasks c)) \<subseteq> int ` {..<nat (p_n p)} \<and>
     (rTasks c \<noteq> fmempty \<longrightarrow> mTasks c = fmempty)"

definition files_ok :: "params \<Rightarrow> filesystem \<Rightarrow> bool" where
  "files_ok p fs \<longleftrightarrow> inputs fs = p_input p \<and>
     (\<forall>i < length (p_names p). \<forall>Y < nat (p_n p). \<forall>kvs. inter fs (onname (int i) (int Y)) = Some kvs \<longrightarrow>
        mset kvs = filter_mset (slot (p_n p) Y) (mset (pairs p i))) \<and>
     (\<forall>Y < nat (p_n p). \<forall>ls. outs fs (resultFileName (int Y)) = Some ls \<longrightarrow> mset ls = lines (p_reducef p) (all_pairs p) (slot_keys p Y))"

definition mapped :: "params \<Rightarrow> filesystem \<Rightarrow> nat \<Rightarrow> nat \<Rightarrow> bool" where
  "mapped p fs i Y \<longleftrightarrow> inter fs (onname (int i) (int Y)) \<noteq> None"

definition progress_ok :: "params \<Rightarrow> Coordinator \<Rightarrow> filesystem \<Rightarrow> bool" where
  "progress_ok p c fs \<longleftrightarrow>
     (\<forall>i < length (p_names p). p_names p ! i |\<notin>| fmdom (mTasks c) \<longrightarrow> (\<forall>Y < nat (p_n p). mapped p fs i Y)) \<and>
     (mTasks c = fmempty \<longrightarrow> (\<forall>Y < nat (p_n p). int Y |\<notin>| fmdom (rTasks c) \<longrightarrow> outs fs (resultFileName (int Y)) \<noteq> None))"

fun mapper_ok :: "params \<Rightarrow> filesystem \<Rightarrow> mapper \<Rightarrow> bool" where
  "mapper_ok p fs (M_write f X todo) \<longleftrightarrow> (\<exists>i < length (p_names p). f = p_names p ! i \<and> X = int i \<and>
     (\<forall>(Y, kvs) \<in> set todo. Y < nat (p_n p) \<and> mset kvs = filter_mset (slot (p_n p) Y) (mset (pairs p i))) \<and>
     (\<forall>Y < nat (p_n p). mapped p fs i Y \<or> Y \<in> fst ` set todo))"
| "mapper_ok p fs _ \<longleftrightarrow> True"

definition result_ok :: "params \<Rightarrow> nat \<Rightarrow> nat \<Rightarrow> (string, string list) fmap \<Rightarrow> bool" where
  "result_ok p Y x res \<longleftrightarrow> fset (fmdom res) = keys_of (slot_pairs p Y x) \<and>
     (\<forall>k. mset (mget [] (fmlookup res) k) = mset (vals (slot_pairs p Y x) k))"

fun reducer_ok :: "params \<Rightarrow> Coordinator \<Rightarrow> filesystem \<Rightarrow> reducer \<Rightarrow> bool" where
  "reducer_ok p c fs (R_read Y m X res) \<longleftrightarrow> mTasks c = fmempty \<and> m = int (length (p_names p)) \<and>
     (\<exists>y < nat (p_n p). Y = int y \<and> (\<exists>x \<le> length (p_names p). X = int x \<and> result_ok p y x res))"
| "reducer_ok p c fs (R_finish Y) \<longleftrightarrow> (\<exists>y < nat (p_n p). Y = int y \<and> outs fs (resultFileName (int y)) \<noteq> None)"
| "reducer_ok p c fs _ \<longleftrightarrow> True"

definition world_ok :: "params \<Rightarrow> Coordinator \<times> filesystem \<Rightarrow> bool" where
  "world_ok p = (\<lambda>(c, fs). coord_ok p c \<and> files_ok p fs \<and> progress_ok p c fs)"

definition job_inv :: "params \<Rightarrow> job \<Rightarrow> bool" where
  "job_inv p j \<longleftrightarrow> world_ok p (coord j, files_of j) \<and>
     (\<forall>m \<in> set (mappers j). mapper_ok p (files_of j) m) \<and> (\<forall>r \<in> set (reducers j). reducer_ok p (coord j) (files_of j) r)"

text \<open>Files only appear and map tasks only disappear, so what one worker does leaves the others in order.\<close>

definition later :: "Coordinator \<times> filesystem \<Rightarrow> Coordinator \<times> filesystem \<Rightarrow> bool" where
  "later = (\<lambda>(c, fs) (c', fs'). (mTasks c = fmempty \<longrightarrow> mTasks c' = fmempty) \<and>
     dom (inter fs) \<subseteq> dom (inter fs') \<and> dom (outs fs) \<subseteq> dom (outs fs'))"

lemma mapped_later: "later (c, fs) (c', fs') \<Longrightarrow> mapped p fs i Y \<Longrightarrow> mapped p fs' i Y"
  unfolding later_def mapped_def by blast

lemma mapper_ok_later: "later (c, fs) (c', fs') \<Longrightarrow> mapper_ok p fs m \<Longrightarrow> mapper_ok p fs' m"
proof (cases m)
  case (M_write f X todo)
  assume l: "later (c, fs) (c', fs')" and "mapper_ok p fs m"
  then obtain i where i: "i < length (p_names p)" "f = p_names p ! i \<and> X = int i"
    "\<forall>(Y, kvs) \<in> set todo. Y < nat (p_n p) \<and> mset kvs = filter_mset (slot (p_n p) Y) (mset (pairs p i))"
    "\<forall>Y < nat (p_n p). mapped p fs i Y \<or> Y \<in> fst ` set todo"
    unfolding M_write mapper_ok.simps by blast
  have "\<forall>Y < nat (p_n p). mapped p fs' i Y \<or> Y \<in> fst ` set todo" using i(4) mapped_later [OF l] by blast
  then show ?thesis unfolding M_write mapper_ok.simps using i(1,2,3) by blast
qed simp_all

lemma reducer_ok_later: "later (c, fs) (c', fs') \<Longrightarrow> reducer_ok p c fs r \<Longrightarrow> reducer_ok p c' fs' r"
  by (cases r) (auto simp: later_def)

section \<open>The coordinator\<close>

lemma overdue_in: "overdue now ord tasks = Some k \<Longrightarrow> k |\<in>| fmdom tasks"
  by (auto simp: overdue_def find_Some_iff fmdomI split: option.splits)

lemma coord_ok_files: "coord_ok p c \<Longrightarrow> i < length (p_names p) \<Longrightarrow> mget 0 (fmlookup (mr_files c)) (p_names p ! i) = int i"
  by (simp add: coord_ok_def mget_def)

lemma coord_ok_stamp:
  "coord_ok p c \<Longrightarrow> f |\<in>| fmdom (mTasks c) \<Longrightarrow> coord_ok p (c\<lparr>mTasks := fmupd f t (mTasks c)\<rparr>)"
  "coord_ok p c \<Longrightarrow> k |\<in>| fmdom (rTasks c) \<Longrightarrow> coord_ok p (c\<lparr>rTasks := fmupd k t (rTasks c)\<rparr>)"
  by (auto simp: coord_ok_def)

lemma progress_ok_stamp:
  "progress_ok p c fs \<Longrightarrow> f |\<in>| fmdom (mTasks c) \<Longrightarrow> progress_ok p (c\<lparr>mTasks := fmupd f t (mTasks c)\<rparr>) fs"
  "progress_ok p c fs \<Longrightarrow> k |\<in>| fmdom (rTasks c) \<Longrightarrow> progress_ok p (c\<lparr>rTasks := fmupd k t (rTasks c)\<rparr>) fs"
  by (auto simp: progress_ok_def)

lemma later_refl: "later w w"
  by (auto simp: later_def)

lemma newReduceTasks_dom: "fset (fmdom (rTasks (newReduceTasks now c))) = fset (fmdom (rTasks c)) \<union> int ` {..<nat (nReduce c)}"
proof -
  have "fset (fmdom (fold (\<lambda>i. fmupd (int i) t) is m)) = fset (fmdom m) \<union> int ` set is" for t :: int and "is" m
    by (induction "is" arbitrary: m) auto
  then show ?thesis by (auto simp: newReduceTasks_def atLeast0LessThan)
qed

lemma newReduceTasks_sel [simp]:
  "nfile (newReduceTasks now c) = nfile c" "nReduce (newReduceTasks now c) = nReduce c"
  "mr_files (newReduceTasks now c) = mr_files c" "mTasks (newReduceTasks now c) = mTasks c"
  by (simp_all add: newReduceTasks_def)

lemma MapStatus_rTasks: "coord_ok p c \<Longrightarrow> GetCoordinatorStatus c = MapStatus \<Longrightarrow> rTasks c = fmempty"
  by (auto simp: coord_ok_def GetCoordinatorStatus_def split: if_splits)

lemma map_finish_ok:
  assumes w: "world_ok p (c, fs)" and i: "i < length (p_names p)" "\<forall>Y < nat (p_n p). mapped p fs i Y"
    and names: "distinct (p_names p)"
    and c': "c' = snd (DispatchTask now mord rord \<lparr>ReqType = MapFinishRequest, MapFinishedFileName = p_names p ! i, ReduceFinishedTaskId = z\<rparr> c)"
  shows "world_ok p (c', fs) \<and> later (c, fs) (c', fs)"
proof (cases "GetCoordinatorStatus c = MapStatus \<and> p_names p ! i |\<in>| fmdom (mTasks c)")
  case False
  then have "c' = c" by (auto simp: c' DispatchTask_def Let_def)
  then show ?thesis using w later_refl by simp
next
  case True
  let ?c = "c\<lparr>mTasks := fmdrop (p_names p ! i) (mTasks c)\<rparr>"
  have c'': "c' = (if mTasks ?c = fmempty then newReduceTasks now ?c else ?c)" using True by (simp add: c' DispatchTask_def Let_def)
  have w: "coord_ok p c" "files_ok p fs" "progress_ok p c fs" using w by (simp_all add: world_ok_def)
  have r: "rTasks c = fmempty" using MapStatus_rTasks w(1) True by blast
  have m': "mTasks c' = fmdrop (p_names p ! i) (mTasks c)" unfolding c'' by simp
  have ne: "mTasks c \<noteq> fmempty" using True by auto
  have "coord_ok p c'" using w(1) r unfolding c'' by (auto simp: coord_ok_def newReduceTasks_dom)
  moreover have "progress_ok p c' fs"
    unfolding progress_ok_def m'
  proof (intro conjI allI impI)
    fix l Y assume l: "l < length (p_names p)" "p_names p ! l |\<notin>| fmdom (fmdrop (p_names p ! i) (mTasks c))" "Y < nat (p_n p)"
    show "mapped p fs l Y"
    proof (cases "l = i")
      case False
      then have "p_names p ! l \<noteq> p_names p ! i" using l(1) i(1) names by (simp add: nth_eq_iff_index_eq)
      then show ?thesis using l w(3) by (simp add: progress_ok_def)
    qed (use i(2) l(3) in simp)
  next
    fix Y assume "fmdrop (p_names p ! i) (mTasks c) = fmempty" "Y < nat (p_n p)" "int Y |\<notin>| fmdom (rTasks c')"
    moreover from this have "fset (fmdom (rTasks c')) = int ` {..<nat (p_n p)}"
      using r w(1) unfolding c'' by (simp add: newReduceTasks_dom coord_ok_def)
    ultimately show "outs fs (resultFileName (int Y)) \<noteq> None" by auto
  qed
  ultimately show ?thesis using w(2) ne by (simp add: world_ok_def later_def)
qed

lemma reduce_finish_ok:
  assumes w: "world_ok p (c, fs)" and y: "y < nat (p_n p)" "outs fs (resultFileName (int y)) \<noteq> None"
    and c': "c' = snd (DispatchTask now mord rord \<lparr>ReqType = ReduceFinishRequest, MapFinishedFileName = z, ReduceFinishedTaskId = int y\<rparr> c)"
  shows "world_ok p (c', fs) \<and> later (c, fs) (c', fs)"
proof (cases "GetCoordinatorStatus c = ReduceStatus \<and> int y |\<in>| fmdom (rTasks c)")
  case False
  then have "c' = c" by (auto simp: c' DispatchTask_def Let_def)
  then show ?thesis using w later_refl by simp
next
  case True
  then have c'': "c' = c\<lparr>rTasks := fmdrop (int y) (rTasks c)\<rparr>" by (simp add: c' DispatchTask_def Let_def)
  have m: "mTasks c = fmempty" using True by (auto simp: GetCoordinatorStatus_def split: if_splits)
  have "coord_ok p c'" using w m unfolding c'' by (auto simp: coord_ok_def world_ok_def)
  moreover have "progress_ok p c' fs" using w y unfolding c'' by (auto simp: progress_ok_def world_ok_def)
  ultimately show ?thesis using w unfolding c'' by (simp add: world_ok_def later_def)
qed

section \<open>Map workers\<close>

lemma map_request_cases:
  assumes "coord_ok p c" "DispatchTask now mord rord \<lparr>ReqType = MapRequest, MapFinishedFileName = z, ReduceFinishedTaskId = z'\<rparr> c = (reply, c')"
  obtains "c' = c" "MasterStatus reply \<noteq> MapStatus \<or> ReplyCode reply = NoTask"
  | i where "i < length (p_names p)" "p_names p ! i |\<in>| fmdom (mTasks c)" "c' = c\<lparr>mTasks := fmupd (p_names p ! i) now (mTasks c)\<rparr>"
      "MapFileName reply = p_names p ! i" "MapTaskId reply = int i" "NReduce reply = p_n p"
proof (cases "GetCoordinatorStatus c = MapStatus \<and> overdue now mord (mTasks c) \<noteq> None")
  case False
  then have "c' = c" "MasterStatus reply \<noteq> MapStatus \<or> ReplyCode reply = NoTask"
    using assms(2) by (auto simp: DispatchTask_def Let_def split: if_splits option.splits)
  then show ?thesis using that(1) by blast
next
  case True
  then obtain f where f: "overdue now mord (mTasks c) = Some f" by blast
  then have fin: "f |\<in>| fmdom (mTasks c)" by (rule overdue_in)
  then have "f \<in> set (p_names p)" using assms(1) by (auto simp: coord_ok_def)
  then obtain i where i: "i < length (p_names p)" "f = p_names p ! i" by (metis in_set_conv_nth)
  show ?thesis
    by (rule that(2) [of i])
      (use assms True f fin i coord_ok_files [OF assms(1) i(1)] in \<open>auto simp: DispatchTask_def Let_def coord_ok_def\<close>)
qed

lemma kvlists_todo:
  assumes "length kvls = N" "\<forall>Y < N. mset (kvls ! Y) = filter_mset (slot n Y) M"
  shows "\<forall>(Y, kvs) \<in> set (enumerate 0 kvls). Y < N \<and> mset kvs = filter_mset (slot n Y) M" "fst ` set (enumerate 0 kvls) = {..<N}"
  using assms by (auto simp: in_set_enumerate_eq) (force simp: enumerate_eq_zip set_zip)

lemma write_inter_ok:
  assumes w: "world_ok p (c, fs)" and i: "i < length (p_names p)" "Y < nat (p_n p)" "mset kvs = filter_mset (slot (p_n p) Y) (mset (pairs p i))"
    and fs': "fs' = fs\<lparr>inter := (inter fs)(onname (int i) (int Y) \<mapsto> kvs)\<rparr>"
  shows "world_ok p (c, fs')" "later (c, fs) (c, fs')" "mapped p fs' i Y"
proof -
  show l: "later (c, fs) (c, fs')" by (auto simp: later_def fs')
  have "files_ok p fs" using w by (simp add: world_ok_def)
  then have "files_ok p fs'" using i unfolding fs' files_ok_def by (auto simp: onname_inj)
  moreover have "outs fs' = outs fs" by (simp add: fs')
  then have "progress_ok p c fs'" using w mapped_later [OF l] by (simp add: progress_ok_def world_ok_def)
  ultimately show "world_ok p (c, fs')" using w by (simp add: world_ok_def)
  show "mapped p fs' i Y" by (simp add: mapped_def fs')
qed

lemma MapTaskWoker_ok:
  assumes w: "world_ok p (c, fs)" and m: "mapper_ok p fs m" and names: "distinct (p_names p)"
    and n: "0 < p_n p" and srt: "sorts_by_key srt" and inp: "\<forall>f \<in> set (p_names p). p_input p f \<noteq> None"
    and step: "MapTaskWoker srt (p_mapf p) now mord m (c, fs) = (m', c', fs')"
  shows "world_ok p (c', fs') \<and> mapper_ok p fs' m' \<and> later (c, fs) (c', fs')"
proof (cases m)
  case M_idle
  obtain reply c1 where d: "DispatchTask now mord [] \<lparr>ReqType = MapRequest, MapFinishedFileName = '''', ReduceFinishedTaskId = 0\<rparr> c = (reply, c1)"
    by fastforce
  have ok: "coord_ok p c" "files_ok p fs" "progress_ok p c fs" using w by (simp_all add: world_ok_def)
  from ok(1) d show ?thesis
  proof (cases rule: map_request_cases)
    case 1
    then show ?thesis using w step d M_idle by (auto simp: MapTaskWoker_def later_refl split: if_splits)
  next
    case (2 i)
    have f: "p_names p ! i \<in> set (p_names p)" using 2(1) by simp
    obtain content where content: "p_input p (p_names p ! i) = Some content" using inp f by blast
    obtain kvls where k: "kvlists srt (p_n p) (pairs p i) = Some kvls" "length kvls = nat (p_n p)"
      "\<forall>Y < nat (p_n p). mset (kvls ! Y) = filter_mset (slot (p_n p) Y) (mset (pairs p i))"
      using kvlists_Some [OF n srt] by blast
    have w1: "world_ok p (c1, fs)" "later (c, fs) (c1, fs)"
      using 2 ok coord_ok_stamp(1) progress_ok_stamp(1) by (auto simp: world_ok_def later_def)
    have "mapper_ok p fs (M_write (p_names p ! i) (int i) (enumerate 0 kvls))"
      unfolding mapper_ok.simps using 2(1) kvlists_todo [OF k(2,3)] by blast
    moreover have "inputs fs (p_names p ! i) = Some content" using ok(2) content by (simp add: files_ok_def)
    moreover have "p_mapf p (p_names p ! i) content = pairs p i" by (simp add: pairs_def content)
    ultimately show ?thesis
      using step w1 2 k(1) by (auto simp: M_idle MapTaskWoker_def d later_def split: if_splits)
  qed
next
  case (M_write f X todo)
  obtain i where i: "i < length (p_names p)" "f = p_names p ! i" "X = int i"
    "\<forall>(Y, kvs) \<in> set todo. Y < nat (p_n p) \<and> mset kvs = filter_mset (slot (p_n p) Y) (mset (pairs p i))"
    "\<forall>Y < nat (p_n p). mapped p fs i Y \<or> Y \<in> fst ` set todo"
    using m unfolding M_write mapper_ok.simps by blast
  show ?thesis
  proof (cases todo)
    case Nil
    then have "m' = M_idle" "fs' = fs"
      "c' = snd (DispatchTask now [] [] \<lparr>ReqType = MapFinishRequest, MapFinishedFileName = p_names p ! i, ReduceFinishedTaskId = 0\<rparr> c)"
      using step i(2) by (auto simp: M_write MapTaskWoker_def split: prod.splits)
    then show ?thesis using map_finish_ok [OF w i(1) _ names] i(5) Nil by simp
  next
    case (Cons e rest)
    obtain Y kvs where e: "e = (Y, kvs)" by fastforce
    have fs': "fs' = fs\<lparr>inter := (inter fs)(onname (int i) (int Y) \<mapsto> kvs)\<rparr>" and s: "c' = c" "m' = M_write f X rest"
      using step i(3) by (auto simp: M_write Cons e MapTaskWoker_def)
    have kvs: "Y < nat (p_n p)" "mset kvs = filter_mset (slot (p_n p) Y) (mset (pairs p i))" using i(4) by (auto simp: Cons e)
    note wr = write_inter_ok [OF w i(1) kvs fs']
    have "\<forall>Z < nat (p_n p). mapped p fs' i Z \<or> Z \<in> fst ` set rest"
      using i(5) wr(3) mapped_later [OF wr(2)] by (auto simp: Cons e)
    then have "mapper_ok p fs' m'" unfolding s mapper_ok.simps using i(1-4) by (auto simp: Cons)
    then show ?thesis using wr s by simp
  qed
qed (use w step later_refl in \<open>auto simp: MapTaskWoker_def\<close>)

section \<open>Reduce workers\<close>

lemma reduce_request_cases:
  assumes "coord_ok p c" "DispatchTask now mord rord \<lparr>ReqType = ReduceRequest, MapFinishedFileName = z, ReduceFinishedTaskId = z'\<rparr> c = (reply, c')"
  obtains "c' = c" "MasterStatus reply \<noteq> ReduceStatus \<or> ReplyCode reply \<noteq> NewTask"
  | y where "y < nat (p_n p)" "mTasks c = fmempty" "int y |\<in>| fmdom (rTasks c)" "c' = c\<lparr>rTasks := fmupd (int y) now (rTasks c)\<rparr>"
      "ReduceTaskId reply = int y" "NFile reply = int (length (p_names p))"
proof (cases "GetCoordinatorStatus c = ReduceStatus \<and> overdue now rord (rTasks c) \<noteq> None")
  case False
  then have "c' = c" "MasterStatus reply \<noteq> ReduceStatus \<or> ReplyCode reply \<noteq> NewTask"
    using assms(2) by (auto simp: DispatchTask_def Let_def split: if_splits option.splits)
  then show ?thesis using that(1) by blast
next
  case True
  then obtain k where k: "overdue now rord (rTasks c) = Some k" by blast
  then have kin: "k |\<in>| fmdom (rTasks c)" by (rule overdue_in)
  then have "k \<in> int ` {..<nat (p_n p)}" using assms(1) by (auto simp: coord_ok_def)
  then obtain y where y: "y < nat (p_n p)" "k = int y" by blast
  have "mTasks c = fmempty" using True by (auto simp: GetCoordinatorStatus_def split: if_splits)
  then show ?thesis
    by (rule that(2) [OF y(1)]) (use assms True k kin y in \<open>auto simp: DispatchTask_def Let_def coord_ok_def\<close>)
qed

lemma vals_append: "vals (xs @ ys) k = vals xs k @ vals ys k"
  by (simp add: vals_def)

lemma keys_of_append: "keys_of (xs @ ys) = keys_of xs \<union> keys_of ys"
  by (simp add: keys_of_def image_Un)

lemma slot_pairs_Suc: "slot_pairs p Y (Suc x) = slot_pairs p Y x @ filter (slot (p_n p) Y) (pairs p x)"
  by (simp add: slot_pairs_def)

lemma slot_pairs_all: "slot_pairs p Y (length (p_names p)) = filter (slot (p_n p) Y) (all_pairs p)"
proof -
  have "map (pairs p) [0..<length (p_names p)] = map (\<lambda>f. p_mapf p f (the (p_input p f))) (p_names p)"
    by (rule nth_equalityI) (simp_all add: pairs_def)
  then have "all_pairs p = concat (map (pairs p) [0..<length (p_names p)])" by (simp add: all_pairs_def)
  then show ?thesis by (simp add: slot_pairs_def filter_concat comp_def)
qed

lemma keys_of_slot: "keys_of (filter (slot (p_n p) Y) (all_pairs p)) = slot_keys p Y"
  by (auto simp: keys_of_def slot_keys_def slot_def)

lemma vals_slot: "k \<in> slot_keys p Y \<Longrightarrow> vals (filter (slot (p_n p) Y) (all_pairs p)) k = vals (all_pairs p) k"
  unfolding vals_def slot_keys_def filter_filter slot_def by (rule arg_cong [of _ _ "map kv_Value"], rule filter_cong) auto

lemma result_ok_empty: "result_ok p Y 0 fmempty"
  by (simp add: result_ok_def slot_pairs_def keys_of_def vals_def mget_def)

lemma result_ok_read:
  assumes "result_ok p Y x res" "mset kvs = filter_mset (slot (p_n p) Y) (mset (pairs p x))"
  shows "result_ok p Y (Suc x) (fold addPair kvs res)"
proof -
  have e: "mset kvs = mset (filter (slot (p_n p) Y) (pairs p x))" using assms(2) by (simp add: mset_filter)
  have "mset (vals kvs k) = mset (vals (filter (slot (p_n p) Y) (pairs p x)) k)" for k unfolding vals_mset e ..
  moreover have "keys_of kvs = keys_of (filter (slot (p_n p) Y) (pairs p x))" unfolding keys_of_def mset_eq_setD [OF e] ..
  ultimately show ?thesis
    using assms(1) by (simp add: result_ok_def slot_pairs_Suc addPairs_vals addPairs_keys vals_append keys_of_append)
qed

lemma result_ok_lines:
  assumes res: "result_ok p Y (length (p_names p)) res" and red: "order_free (p_reducef p)"
    and kord: "distinct kord" "set kord = fset (fmdom res)"
  shows "mset (map (\<lambda>k. result_line k (p_reducef p k (mget [] (fmlookup res) k))) kord) = lines (p_reducef p) (all_pairs p) (slot_keys p Y)"
proof -
  have keys: "set kord = slot_keys p Y" using res kord(2) by (simp add: result_ok_def slot_pairs_all keys_of_slot)
  have "p_reducef p k (mget [] (fmlookup res) k) = p_reducef p k (vals (all_pairs p) k)" if "k \<in> set kord" for k
  proof -
    have "mset (mget [] (fmlookup res) k) = mset (vals (all_pairs p) k)"
      using res vals_slot [of k p Y] that keys by (simp add: result_ok_def slot_pairs_all)
    then show ?thesis using red unfolding order_free_def by blast
  qed
  then have "mset (map (\<lambda>k. result_line k (p_reducef p k (mget [] (fmlookup res) k))) kord) =
      mset (map (\<lambda>k. result_line k (p_reducef p k (vals (all_pairs p) k))) kord)"
    by (intro arg_cong [of _ _ mset] map_cong) simp_all
  also have "\<dots> = lines (p_reducef p) (all_pairs p) (slot_keys p Y)"
    by (simp add: lines_def mset_set_set [OF kord(1)] flip: keys)
  finally show ?thesis .
qed

lemma write_out_ok:
  assumes w: "world_ok p (c, fs)" and ls: "mset ls = lines (p_reducef p) (all_pairs p) (slot_keys p y)"
    and fs': "fs' = fs\<lparr>outs := (outs fs)(resultFileName (int y) \<mapsto> ls)\<rparr>"
  shows "world_ok p (c, fs')" "later (c, fs) (c, fs')"
proof -
  show l: "later (c, fs) (c, fs')" by (auto simp: later_def fs')
  have "files_ok p fs" using w by (simp add: world_ok_def)
  then have "files_ok p fs'" using ls unfolding fs' files_ok_def by (auto simp: resultFileName_inj)
  moreover have "progress_ok p c fs'" using w mapped_later [OF l] by (simp add: progress_ok_def world_ok_def fs')
  ultimately show "world_ok p (c, fs')" using w by (simp add: world_ok_def)
qed

lemma ReduceTaskWorker_ok:
  assumes w: "world_ok p (c, fs)" and r: "reducer_ok p c fs r" and red: "order_free (p_reducef p)"
    and kord: "case r of R_read Y n X res \<Rightarrow> X < n \<or> distinct kord \<and> set kord = fset (fmdom res) | _ \<Rightarrow> True"
    and step: "ReduceTaskWorker (p_reducef p) now rord kord r (c, fs) = (r', c', fs')"
  shows "world_ok p (c', fs') \<and> reducer_ok p c' fs' r' \<and> later (c, fs) (c', fs')"
proof (cases r)
  case R_idle
  obtain reply c1 where d: "DispatchTask now [] rord \<lparr>ReqType = ReduceRequest, MapFinishedFileName = '''', ReduceFinishedTaskId = 0\<rparr> c = (reply, c1)"
    by fastforce
  have ok: "coord_ok p c" "files_ok p fs" "progress_ok p c fs" using w by (simp_all add: world_ok_def)
  from ok(1) d show ?thesis
  proof (cases rule: reduce_request_cases)
    case 1
    then show ?thesis using w step d R_idle by (auto simp: ReduceTaskWorker_def later_refl split: if_splits)
  next
    case (2 y)
    have w1: "world_ok p (c1, fs)" "later (c, fs) (c1, fs)"
      using 2 ok coord_ok_stamp(2) progress_ok_stamp(2) by (auto simp: world_ok_def later_def)
    have "reducer_ok p c1 fs (R_read (int y) (int (length (p_names p))) 0 fmempty)"
      using 2 result_ok_empty by (auto intro!: exI [of _ 0])
    then show ?thesis using step w1 2(5,6) by (auto simp: R_idle ReduceTaskWorker_def d split: if_splits)
  qed
next
  case (R_read Y m X res)
  obtain y x where y: "mTasks c = fmempty" "m = int (length (p_names p))" "y < nat (p_n p)" "Y = int y"
    "x \<le> length (p_names p)" "X = int x" "result_ok p y x res"
    using r unfolding R_read reducer_ok.simps by blast
  show ?thesis
  proof (cases "x < length (p_names p)")
    case True
    show ?thesis
    proof (cases "inter fs (onname X Y)")
      case None
      then show ?thesis using True step w y later_refl by (auto simp: R_read ReduceTaskWorker_def)
    next
      case (Some kvs)
      then have "mset kvs = filter_mset (slot (p_n p) y) (mset (pairs p x))"
        using w True y by (auto simp: world_ok_def files_ok_def)
      then have "result_ok p y (Suc x) (fold addPair kvs res)" by (rule result_ok_read [OF y(7)])
      moreover have "X + 1 = int (Suc x)" using y(6) by simp
      ultimately have "reducer_ok p c fs (R_read Y m (X + 1) (fold addPair kvs res))"
        unfolding reducer_ok.simps using y True by (metis Suc_leI)
      then show ?thesis using True Some step w y later_refl by (auto simp: R_read ReduceTaskWorker_def)
    qed
  next
    case False
    let ?ls = "map (\<lambda>k. result_line k (p_reducef p k (mget [] (fmlookup res) k))) kord"
    have x: "x = length (p_names p)" "\<not> X < m" using False y by simp_all
    then have fs': "fs' = fs\<lparr>outs := (outs fs)(resultFileName (int y) \<mapsto> ?ls)\<rparr>" and s: "c' = c" "r' = R_finish (int y)"
      using step y(4) by (auto simp: R_read ReduceTaskWorker_def)
    have "mset ?ls = lines (p_reducef p) (all_pairs p) (slot_keys p y)"
      using result_ok_lines [OF _ red] y(7) kord x by (simp add: R_read)
    note wr = write_out_ok [OF w this fs']
    have "reducer_ok p c fs' (R_finish (int y))" using y(3) by (auto simp: fs')
    then show ?thesis using wr s by simp
  qed
next
  case (R_finish Y)
  then obtain y where "y < nat (p_n p)" "Y = int y" "outs fs (resultFileName (int y)) \<noteq> None" using r by auto
  moreover have "r' = R_idle" "fs' = fs"
    "c' = snd (DispatchTask now [] [] \<lparr>ReqType = ReduceFinishRequest, MapFinishedFileName = '''', ReduceFinishedTaskId = Y\<rparr> c)"
    using step by (auto simp: R_finish ReduceTaskWorker_def split: prod.splits)
  ultimately show ?thesis using reduce_finish_ok [OF w] by simp
qed (use w step later_refl in \<open>auto simp: ReduceTaskWorker_def\<close>)

section \<open>Jobs\<close>

definition job_given :: "(KeyValue list \<Rightarrow> KeyValue list) \<Rightarrow> params \<Rightarrow> bool" where
  "job_given srt p \<longleftrightarrow> sorts_by_key srt \<and> order_free (p_reducef p) \<and> distinct (p_names p) \<and> p_names p \<noteq> [] \<and> 0 < p_n p \<and>
     (\<forall>f \<in> set (p_names p). p_input p f \<noteq> None)"

lemma set_update_cases: "x \<in> set (xs[i := y]) \<Longrightarrow> x = y \<or> x \<in> set xs"
  using set_update_subset_insert by fastforce

lemma job_inv_step:
  assumes g: "job_given srt p" and inv: "job_inv p j" and step: "job_step srt (p_mapf p) (p_reducef p) a j = Some j'"
  shows "job_inv p j'"
proof (cases a)
  case StartWorker
  then show ?thesis using inv step by (auto simp: job_inv_def)
next
  case (RunMapper i now mord)
  obtain m c fs where m: "MapTaskWoker srt (p_mapf p) now mord (mappers j ! i) (coord j, files_of j) = (m, c, fs)" by (metis prod_cases3)
  then have i: "i < length (mappers j)" and j': "j' = j\<lparr>coord := c, files_of := fs, mappers := (mappers j)[i := m], clock := now\<rparr>"
    using step by (auto simp: RunMapper split: if_splits)
  have "world_ok p (c, fs) \<and> mapper_ok p fs m \<and> later (coord j, files_of j) (c, fs)"
    using MapTaskWoker_ok [OF _ _ _ _ _ _ m] g inv i by (simp add: job_given_def job_inv_def)
  then show ?thesis
    using inv mapper_ok_later reducer_ok_later unfolding j' job_inv_def by (auto dest!: set_update_cases; blast)
next
  case (RunReducer i now rord kord)
  obtain r c fs where r: "ReduceTaskWorker (p_reducef p) now rord kord (reducers j ! i) (coord j, files_of j) = (r, c, fs)" by (metis prod_cases3)
  then have i: "i < length (reducers j)" and j': "j' = j\<lparr>coord := c, files_of := fs, reducers := (reducers j)[i := r], clock := now\<rparr>"
    and k: "case reducers j ! i of R_read Y n X res \<Rightarrow> X < n \<or> distinct kord \<and> set kord = fset (fmdom res) | _ \<Rightarrow> True"
    using step by (auto simp: RunReducer split: if_splits)
  have "world_ok p (c, fs) \<and> reducer_ok p c fs r \<and> later (coord j, files_of j) (c, fs)"
    using ReduceTaskWorker_ok [OF _ _ _ k r] g inv i by (simp add: job_given_def job_inv_def)
  then show ?thesis
    using inv mapper_ok_later reducer_ok_later unfolding j' job_inv_def by (auto dest!: set_update_cases; blast)
next
  case (KillMapper i)
  then show ?thesis using inv step by (auto simp: job_inv_def dest!: set_update_cases)
next
  case (KillReducer i)
  then show ?thesis using inv step by (auto simp: job_inv_def dest!: set_update_cases)
qed

lemma job_inv_run:
  assumes "job_given srt p" "job_inv p j" "run_opt (job_step srt (p_mapf p) (p_reducef p)) acts j = Some j'"
  shows "job_inv p j'"
  using assms(2,3) by (induction acts arbitrary: j) (auto split: Option.bind_splits dest: job_inv_step [OF assms(1)])

lemma MakeCoordinator_fold:
  "fold (\<lambda>(index, v) c. c\<lparr>mr_files := fmupd v (int index) (mr_files c), mTasks := fmupd v t (mTasks c)\<rparr>) (enumerate k names) c =
     c\<lparr>mr_files := fold (\<lambda>(index, v). fmupd v (int index)) (enumerate k names) (mr_files c), mTasks := fold (\<lambda>v. fmupd v t) names (mTasks c)\<rparr>"
  by (induction names arbitrary: k c) simp_all

lemma files_fold_other: "f \<notin> set names \<Longrightarrow> fmlookup (fold (\<lambda>(index, v). fmupd v (int index)) (enumerate k names) m) f = fmlookup m f"
  by (induction names arbitrary: k m) auto

lemma files_fold_nth:
  "distinct names \<Longrightarrow> i < length names \<Longrightarrow>
   fmlookup (fold (\<lambda>(index, v). fmupd v (int index)) (enumerate k names) m) (names ! i) = Some (int (k + i))"
proof (induction names arbitrary: k m i)
  case (Cons f names)
  then show ?case by (cases i) (simp_all add: files_fold_other)
qed simp

lemma tasks_fold_dom: "fset (fmdom (fold (\<lambda>v. fmupd v t) names m)) = fset (fmdom m) \<union> set names"
  by (induction names arbitrary: m) auto

lemma fold_fmupd_empty: "names \<noteq> [] \<Longrightarrow> fold (\<lambda>v. fmupd v t) names m \<noteq> fmempty"
proof
  assume ne: "names \<noteq> []" and "fold (\<lambda>v. fmupd v t) names m = fmempty"
  then have "fset (fmdom m) \<union> set names = {}" by (simp flip: tasks_fold_dom [of t names m])
  then show False using ne by simp
qed

lemma job_inv_init:
  assumes "job_given srt p"
  shows "job_inv p (new_job now (p_names p) (p_n p) (p_input p))"
proof -
  let ?c = "MakeCoordinator now (p_names p) (p_n p)"
  have d: "distinct (p_names p)" "p_names p \<noteq> []" using assms by (simp_all add: job_given_def)
  note c = MakeCoordinator_def MakeCoordinator_fold
  have "coord_ok p ?c" using files_fold_nth [OF d(1), of _ 0] by (auto simp: coord_ok_def c tasks_fold_dom)
  moreover have "mTasks ?c \<noteq> fmempty" using fold_fmupd_empty [OF d(2)] by (simp add: c)
  then have "progress_ok p ?c fs" for fs by (simp add: progress_ok_def c tasks_fold_dom)
  ultimately show ?thesis by (simp add: job_inv_def world_ok_def new_job_def files_ok_def)
qed

section \<open>Finished jobs\<close>

lemma lines_Un: "finite A \<Longrightarrow> finite B \<Longrightarrow> A \<inter> B = {} \<Longrightarrow> lines reducef kvs (A \<union> B) = lines reducef kvs A + lines reducef kvs B"
  by (simp add: lines_def mset_set_Union)

lemma finite_slot_keys: "finite (slot_keys p Y)"
  by (simp add: slot_keys_def keys_of_def)

lemma lines_slots: "(\<Sum>Y < N. lines reducef kvs (slot_keys p Y)) = lines reducef kvs (\<Union>Y < N. slot_keys p Y)"
proof (induction N)
  case (Suc N)
  have "slot_keys p N \<inter> (\<Union>Y < N. slot_keys p Y) = {}" by (auto simp: slot_keys_def)
  then show ?case using Suc by (simp add: lessThan_Suc lines_Un finite_slot_keys)
qed (simp add: lines_def)

lemma slot_keys_all: "0 < p_n p \<Longrightarrow> (\<Union>Y < nat (p_n p). slot_keys p Y) = keys_of (all_pairs p)"
proof (intro equalityI subsetI)
  fix k assume n: "0 < p_n p" and k: "k \<in> keys_of (all_pairs p)"
  have "nat (ihash k mod p_n p) < nat (p_n p)" "int (nat (ihash k mod p_n p)) = ihash k mod p_n p" using n by simp_all
  then show "k \<in> (\<Union>Y < nat (p_n p). slot_keys p Y)" using k unfolding slot_keys_def by (metis (mono_tags, lifting) UN_I lessThan_iff mem_Collect_eq)
qed (auto simp: slot_keys_def)

lemma mset_concat_upt: "mset (concat (map f [0..<N])) = (\<Sum>Y < N. mset (f Y))"
  by (induction N) (simp_all add: lessThan_Suc add.commute)

lemma job_inv_Done:
  assumes g: "job_given srt p" and inv: "job_inv p j" and fin: "Done (coord j)"
  shows "(\<forall>Y < nat (p_n p). outs (files_of j) (resultFileName (int Y)) \<noteq> None) \<and>
    mset (concat (map (\<lambda>Y. the (outs (files_of j) (resultFileName (int Y)))) [0..<nat (p_n p)])) =
      lines (p_reducef p) (all_pairs p) (keys_of (all_pairs p))"
proof -
  have ok: "files_ok p (files_of j)" "progress_ok p (coord j) (files_of j)" using inv by (simp_all add: job_inv_def world_ok_def)
  have out: "outs (files_of j) (resultFileName (int Y)) \<noteq> None" if "Y < nat (p_n p)" for Y
    using ok(2) fin that by (simp add: progress_ok_def Done_def)
  have "mset (the (outs (files_of j) (resultFileName (int Y)))) = lines (p_reducef p) (all_pairs p) (slot_keys p Y)" if "Y < nat (p_n p)" for Y
    using ok(1) out [OF that] that by (auto simp: files_ok_def)
  then have "mset (concat (map (\<lambda>Y. the (outs (files_of j) (resultFileName (int Y)))) [0..<nat (p_n p)])) =
      (\<Sum>Y < nat (p_n p). lines (p_reducef p) (all_pairs p) (slot_keys p Y))"
    unfolding mset_concat_upt by (intro sum.cong) simp_all
  also have "\<dots> = lines (p_reducef p) (all_pairs p) (keys_of (all_pairs p))"
    using g by (simp add: lines_slots slot_keys_all job_given_def)
  finally show ?thesis using out by blast
qed

subsection \<open>Applications\<close>

text \<open>What a job relies on in an application (src/src/mrapps): Reduce does not depend on the order of its values.\<close>

locale application =
  fixes mapf :: "string \<Rightarrow> string \<Rightarrow> KeyValue list"
    and reducef :: "string \<Rightarrow> string list \<Rightarrow> string"
  assumes Reduce_mset: "mset vs = mset ws \<Longrightarrow> reducef k vs = reducef k ws"
begin

lemma order_free_reducef: "order_free reducef"
  unfolding order_free_def by (blast intro: Reduce_mset)

lemma finished_job:
  assumes "sorts_by_key srt" "sorts_by_key srt'" "distinct names" "names \<noteq> []" "0 < n" "\<forall>f \<in> set names. input f \<noteq> None"
    and "run_opt (job_step srt mapf reducef) acts (new_job now names n input) = Some j" "Done (coord j)"
  shows "\<exists>out. mrsequential srt' mapf reducef input names = Some out \<and>
    (\<forall>Y < nat n. outs (files_of j) (resultFileName (int Y)) \<noteq> None) \<and>
    mset (concat (map (\<lambda>Y. the (outs (files_of j) (resultFileName (int Y)))) [0..<nat n])) = mset out"
proof -
  let ?p = "\<lparr>p_mapf = mapf, p_reducef = reducef, p_names = names, p_n = n, p_input = input\<rparr>"
  have g: "job_given srt ?p" using assms order_free_reducef by (simp add: job_given_def)
  have "job_inv ?p j" using job_inv_run [OF g job_inv_init [OF g]] assms(7) by simp
  from job_inv_Done [OF g this assms(8)] show ?thesis
    using mrsequential_lines [OF assms(2) order_free_reducef assms(6), of mapf] by (auto simp: all_pairs_def)
qed

end

lemma sort_mset_cong: "mset vs = mset ws \<Longrightarrow> sort vs = sort (ws :: string list)"
  by (rule properties_for_sort) simp_all

interpretation wc: application "wc_Map IsLetter" wc_Reduce for IsLetter
  by unfold_locales (metis wc_Reduce_def len_def size_mset)

interpretation indexer: application "indexer_Map IsLetter ord" indexer_Reduce for IsLetter ord
  by unfold_locales (metis indexer_Reduce_def len_def size_mset sort_mset_cong)

interpretation crash: application crash_Map crash_Reduce
  by unfold_locales (metis crash_Reduce_def sort_mset_cong)

interpretation early_exit: application early_exit_Map early_exit_Reduce
  by unfold_locales (metis early_exit_Reduce_def len_def size_mset)

subsection \<open>Every job\<close>

text \<open>
  C9: When the coordinator of a job says it is done, every reduce task has an output file, and the output files together
  hold exactly the lines the sequential version writes, each as often. This holds for every run: workers may be
  started and crash at any point, tasks may be handed out again to a second worker while the first still writes, and
  the two versions may sort equal keys differently. The input files are distinct and readable, there is
  at least one of them and one reduce task, and Reduce does not depend on the order of its values.
\<close>

theorem mr_job_matches_sequential:
  assumes "sorts_by_key srt" "sorts_by_key srt'" "order_free reducef" "distinct names" "names \<noteq> []" "0 < n" "\<forall>f \<in> set names. input f \<noteq> None"
    and "run_opt (job_step srt mapf reducef) acts (new_job now names n input) = Some j" "Done (coord j)"
  shows "\<exists>out. mrsequential srt' mapf reducef input names = Some out \<and>
    (\<forall>Y < nat n. outs (files_of j) (resultFileName (int Y)) \<noteq> None) \<and>
    mset (concat (map (\<lambda>Y. the (outs (files_of j) (resultFileName (int Y)))) [0..<nat n])) = mset out"
proof -
  have app: "application reducef" by unfold_locales (use assms(3) in \<open>unfold order_free_def, blast\<close>)
  show ?thesis by (rule application.finished_job [OF app assms(1,2,4-9)])
qed

subsection \<open>An example\<close>

lemma sorts_by_key_sort_key: "sorts_by_key (sort_key kv_Key)"
proof -
  have "sorted_wrt (\<lambda>a b. \<not> ByKey_Less b a) (sort_key kv_Key xs)" for xs
    using sorted_sort_key [of kv_Key xs] unfolding sorted_map ByKey_Less_def not_less .
  then show ?thesis by (simp add: sorts_by_key_def)
qed

text \<open>
  A word count of one file with two reduce tasks. The first worker dies after writing one intermediate file, and its task
  goes to the second worker eleven seconds later.
\<close>

definition wc_acts :: "action list" where
  "wc_acts = [StartWorker, StartWorker, RunMapper 0 0 [''x''], RunMapper 0 0 [], KillMapper 0,
     RunMapper 1 (11 * Second) [''x''], RunMapper 1 (11 * Second) [], RunMapper 1 (11 * Second) [], RunMapper 1 (12 * Second) [],
     RunReducer 0 (12 * Second) [1, 0] [], RunReducer 1 (12 * Second) [1, 0] [],
     RunReducer 0 (12 * Second) [] [], RunReducer 1 (12 * Second) [] [], RunReducer 1 (12 * Second) [] [''a''],
     RunReducer 0 (12 * Second) [] [''b''], RunReducer 1 (13 * Second) [] [], RunReducer 0 (13 * Second) [] []]"

definition IsAB :: "char \<Rightarrow> bool" where
  "IsAB x \<longleftrightarrow> x = CHR ''a'' \<or> x = CHR ''b''"

lemma wc_acts_Done:
  "case run_opt (job_step (sort_key kv_Key) (wc_Map IsAB) wc_Reduce) wc_acts (new_job 0 [''x''] 2 [''x'' \<mapsto> ''b a b'']) of
     None \<Rightarrow> False | Some j \<Rightarrow> Done (coord j)"
  by code_simp

theorem mr_job_matches_sequential_witness:
  "\<exists>j out. run_opt (job_step (sort_key kv_Key) (wc_Map IsAB) wc_Reduce) wc_acts (new_job 0 [''x''] 2 [''x'' \<mapsto> ''b a b'']) = Some j \<and> Done (coord j) \<and>
    mrsequential (sort_key kv_Key) (wc_Map IsAB) wc_Reduce [''x'' \<mapsto> ''b a b''] [''x''] = Some out \<and>
    mset (concat (map (\<lambda>Y. the (outs (files_of j) (resultFileName (int Y)))) [0..<nat 2])) = mset out"
proof -
  obtain j where j: "run_opt (job_step (sort_key kv_Key) (wc_Map IsAB) wc_Reduce) wc_acts (new_job 0 [''x''] 2 [''x'' \<mapsto> ''b a b'']) = Some j"
    "Done (coord j)"
    using wc_acts_Done by (auto split: option.splits)
  have "[''x'']\<noteq> []" "distinct [''x'']" "\<forall>f \<in> set [''x'']. [''x'' \<mapsto> ''b a b''] f \<noteq> None" by simp_all
  from mr_job_matches_sequential [OF sorts_by_key_sort_key sorts_by_key_sort_key wc.order_free_reducef this(2,1) _ this(3) j]
  show ?thesis using j by auto
qed

end
