(* ===== verification/MapReduce_Live.thy ===== *)
theory MapReduce_Live
  imports MapReduce_Job
begin

text \<open>
  Progress of the jobs of src/src/mr: the coordinator hands a task out again ten seconds after the last time, so
  whatever workers have crashed, one more worker can bring the job to its end.
\<close>

section \<open>Handing out tasks\<close>

lemma run_opt_between:
  "exec a s = Some s1 \<Longrightarrow> run_opt exec acts s1 = Some s2 \<Longrightarrow> run_opt exec bs s2 = Some s3 \<Longrightarrow> run_opt exec (a # acts @ bs) s = Some s3"
  by (simp add: run_opt_append)

lemma fmupd_not_empty: "fmupd k v m \<noteq> fmempty"
  by (metis fmempty_lookup fmupd_lookup option.distinct(1))

lemma overdue_first: "fmlookup tasks k = Some t \<Longrightarrow> 10 * Second < now - t \<Longrightarrow> overdue now (k # ord) tasks = Some k"
  by (simp add: overdue_def)

text \<open>A loop over a task table may visit any task first.\<close>

lemma order_from:
  assumes "k |\<in>| fmdom tasks"
  obtains ord where "distinct (k # ord)" "set (k # ord) = fset (fmdom tasks)"
proof -
  obtain ord where "set ord = fset (fmdom tasks) - {k}" "distinct ord"
    using finite_distinct_list [of "fset (fmdom tasks) - {k}"] by auto
  with assms show ?thesis by (intro that [of ord]) auto
qed

text \<open>The actions of the worker with mapper \<open>m\<close> and reducer \<open>r\<close>.\<close>

fun by_worker :: "nat \<Rightarrow> nat \<Rightarrow> action \<Rightarrow> bool" where
  "by_worker m r (RunMapper i now mord) \<longleftrightarrow> i = m"
| "by_worker m r (RunReducer i now rord kord) \<longleftrightarrow> i = r"
| "by_worker m r _ \<longleftrightarrow> False"

definition late :: "int \<Rightarrow> ('k, int) fmap \<Rightarrow> 'k \<Rightarrow> bool" where
  "late now tasks k \<longleftrightarrow> (case fmlookup tasks k of None \<Rightarrow> False | Some lastTime \<Rightarrow> now - lastTime > 10 * Second)"

lemma overdue_cases:
  assumes "set ord = fset (fmdom tasks)"
  shows "case overdue now ord tasks of None \<Rightarrow> (\<forall>k. \<not> late now tasks k) | Some k \<Rightarrow> late now tasks k"
proof -
  have "k \<in> set ord" if "late now tasks k" for k using that assms by (auto simp: late_def fmdomI split: option.splits)
  moreover have "overdue now ord tasks = List.find (late now tasks) ord" unfolding overdue_def late_def ..
  ultimately show ?thesis by (auto simp: find_None_iff find_Some_iff split: option.splits)
qed

lemma not_late_empty: "\<not> late now fmempty k"
  by (simp add: late_def)

lemma fmdrop_idle: "k |\<notin>| fmdom m \<Longrightarrow> fmdrop k m = m"
  by (rule fmap_ext) (auto simp: fmdom_notD)

section \<open>One worker finishes a map task\<close>

lemma RunMapper_step:
  assumes "i < length (mappers j)" "clock j \<le> now"
    "mappers j ! i = M_idle \<longrightarrow> distinct mord \<and> set mord = fset (fmdom (mTasks (coord j)))"
    "MapTaskWoker srt mapf now mord (mappers j ! i) (coord j, files_of j) = (m, c, fs)"
  shows "job_step srt mapf reducef (RunMapper i now mord) j =
    Some (j\<lparr>coord := c, files_of := fs, mappers := (mappers j)[i := m], clock := now\<rparr>)"
  using assms by simp

lemma write_all:
  assumes "i < length (mappers j)" "mappers j ! i = M_write f X todo"
  shows "\<exists>acts fs. list_all (by_worker i r) acts \<and>
    run_opt (job_step srt mapf reducef) acts j = Some (j\<lparr>files_of := fs, mappers := (mappers j)[i := M_write f X []]\<rparr>)"
  using assms
proof (induction todo arbitrary: j)
  case Nil
  then have "j = j\<lparr>files_of := files_of j, mappers := (mappers j)[i := M_write f X []]\<rparr>"
    using list_update_id [of "mappers j" i] by simp
  then show ?case by (metis run_opt.simps(1) list.pred_inject(1))
next
  case (Cons e todo)
  obtain Y kvs where e: "e = (Y, kvs)" by fastforce
  let ?j = "j\<lparr>coord := coord j, files_of := (files_of j)\<lparr>inter := (inter (files_of j))(onname X (int Y) \<mapsto> kvs)\<rparr>,
      mappers := (mappers j)[i := M_write f X todo], clock := clock j\<rparr>"
  have step: "job_step srt mapf reducef (RunMapper i (clock j) []) j = Some ?j"
    using Cons.prems by (intro RunMapper_step) (simp_all add: MapTaskWoker_def e)
  obtain acts fs where "list_all (by_worker i r) acts"
    "run_opt (job_step srt mapf reducef) acts ?j = Some (?j\<lparr>files_of := fs, mappers := (mappers ?j)[i := M_write f X []]\<rparr>)"
    using Cons.IH [of ?j] Cons.prems by auto
  then have "list_all (by_worker i r) (RunMapper i (clock j) [] # acts)"
    "run_opt (job_step srt mapf reducef) (RunMapper i (clock j) [] # acts) j = Some (j\<lparr>files_of := fs, mappers := (mappers j)[i := M_write f X []]\<rparr>)"
    using step by (simp_all del: job_step.simps)
  then show ?case by blast
qed

lemma map_one:
  assumes g: "job_given srt p" and inv: "job_inv p j" and i: "i < length (mappers j)" "mappers j ! i = M_idle"
    and f: "f |\<in>| fmdom (mTasks (coord j))"
  shows "\<exists>acts j'. list_all (by_worker i r) acts \<and> run_opt (job_step srt (p_mapf p) (p_reducef p)) acts j = Some j' \<and>
    mTasks (coord j') = fmdrop f (mTasks (coord j)) \<and> i < length (mappers j') \<and> mappers j' ! i = M_idle \<and> reducers j' = reducers j"
proof -
  let ?c = "coord j" and ?step = "job_step srt (p_mapf p) (p_reducef p)"
  obtain t where t: "fmlookup (mTasks ?c) f = Some t" using f by (meson fmdomE)
  obtain ord where ord: "distinct (f # ord)" "set (f # ord) = fset (fmdom (mTasks ?c))" using order_from [OF f] .
  define now where "now = max (clock j) (t + 10 * Second + 1)"
  have od: "overdue now (f # ord) (mTasks ?c) = Some f" by (rule overdue_first [OF t], unfold now_def) linarith
  have ne: "mTasks ?c \<noteq> fmempty" using f by auto
  then have st: "GetCoordinatorStatus ?c = MapStatus" by (simp add: GetCoordinatorStatus_def)
  have ok: "coord_ok p ?c" "files_ok p (files_of j)" using inv by (simp_all add: job_inv_def world_ok_def)
  then have "f \<in> set (p_names p)" using f by (auto simp: coord_ok_def)
  then obtain content where content: "inputs (files_of j) f = Some content" using g ok(2) by (auto simp: job_given_def files_ok_def)
  obtain kvls where kvls: "kvlists srt (nReduce ?c) (p_mapf p f content) = Some kvls"
    using kvlists_Some g ok(1) unfolding job_given_def coord_ok_def by metis
  let ?c1 = "?c\<lparr>mTasks := fmupd f now (mTasks ?c)\<rparr>" and ?X = "mget 0 (fmlookup (mr_files ?c)) f"
  let ?j1 = "j\<lparr>coord := ?c1, files_of := files_of j, mappers := (mappers j)[i := M_write f ?X (enumerate 0 kvls)], clock := now\<rparr>"
  have s1: "?step (RunMapper i now (f # ord)) j = Some ?j1"
    using i st od content kvls ord by (intro RunMapper_step) (simp_all add: MapTaskWoker_def DispatchTask_def Let_def now_def)
  obtain acts fs where s2: "list_all (by_worker i r) acts"
    "run_opt ?step acts ?j1 = Some (?j1\<lparr>files_of := fs, mappers := (mappers ?j1)[i := M_write f ?X []]\<rparr>)"
    using write_all [of i ?j1] i by fastforce
  let ?j2 = "?j1\<lparr>files_of := fs, mappers := (mappers ?j1)[i := M_write f ?X []]\<rparr>"
  let ?c3 = "snd (DispatchTask now [] [] \<lparr>ReqType = MapFinishRequest, MapFinishedFileName = f, ReduceFinishedTaskId = 0\<rparr> ?c1)"
  let ?j3 = "?j2\<lparr>coord := ?c3, files_of := fs, mappers := (mappers ?j2)[i := M_idle], clock := now\<rparr>"
  have s3: "?step (RunMapper i now []) ?j2 = Some ?j3"
    using i by (intro RunMapper_step) (simp_all add: MapTaskWoker_def split: prod.splits)
  have "mTasks ?c1 \<noteq> fmempty" by (simp add: fmupd_not_empty)
  then have "GetCoordinatorStatus ?c1 = MapStatus" by (simp add: GetCoordinatorStatus_def)
  then have "mTasks ?c3 = fmdrop f (mTasks ?c)" using f by (simp add: DispatchTask_def Let_def fmdrop_fmupd_same)
  moreover have "run_opt ?step (RunMapper i now (f # ord) # acts @ [RunMapper i now []]) j = Some ?j3"
    by (rule run_opt_between [OF s1 s2(2)]) (simp only: run_opt.simps s3 bind.bind_lunit)
  moreover have "list_all (by_worker i r) (RunMapper i now (f # ord) # acts @ [RunMapper i now []])" using s2(1) by simp
  ultimately show ?thesis using i by fastforce
qed

lemma fmdrop_card: "f |\<in>| fmdom m \<Longrightarrow> card (fset (fmdom (fmdrop f m))) < card (fset (fmdom m))"
  by (rule psubset_card_mono) auto

lemma map_all:
  assumes g: "job_given srt p"
  shows "job_inv p j \<Longrightarrow> i < length (mappers j) \<Longrightarrow> mappers j ! i = M_idle \<Longrightarrow>
    \<exists>acts j'. list_all (by_worker i r) acts \<and> run_opt (job_step srt (p_mapf p) (p_reducef p)) acts j = Some j' \<and>
      mTasks (coord j') = fmempty \<and> reducers j' = reducers j"
proof (induction "card (fset (fmdom (mTasks (coord j))))" arbitrary: j rule: less_induct)
  case less
  show ?case
  proof (cases "mTasks (coord j) = fmempty")
    case True
    then show ?thesis by (intro exI [of _ "[]"]) simp
  next
    case False
    then obtain f where f: "f |\<in>| fmdom (mTasks (coord j))" by (metis fmrestrict_fset_dom fmrestrict_fset_null all_not_fin_conv)
    obtain acts j1 where by1: "list_all (by_worker i r) acts" and
      j1: "run_opt (job_step srt (p_mapf p) (p_reducef p)) acts j = Some j1" "mTasks (coord j1) = fmdrop f (mTasks (coord j))"
      "i < length (mappers j1)" "mappers j1 ! i = M_idle" "reducers j1 = reducers j"
      using map_one [OF g less(2,3,4) f] by blast
    then obtain acts' j2 where "list_all (by_worker i r) acts'" "run_opt (job_step srt (p_mapf p) (p_reducef p)) acts' j1 = Some j2"
      "mTasks (coord j2) = fmempty" "reducers j2 = reducers j1"
      using less(1) [of j1] job_inv_run [OF g less(2) j1(1)] fmdrop_card [OF f] by metis
    then show ?thesis
      using run_opt_append [of _ acts acts' j] by1 j1 by (intro exI [of _ "acts @ acts'"] exI [of _ j2]) simp
  qed
qed

section \<open>One worker finishes a reduce task\<close>

lemma RunReducer_step:
  assumes "i < length (reducers j)" "clock j \<le> now"
    "reducers j ! i = R_idle \<longrightarrow> distinct rord \<and> set rord = fset (fmdom (rTasks (coord j)))"
    "ReduceTaskWorker reducef now rord kord (reducers j ! i) (coord j, files_of j) = (r, c, fs)"
    "case reducers j ! i of R_read Y n X result \<Rightarrow> X < n \<or> distinct kord \<and> set kord = fset (fmdom result) | _ \<Rightarrow> True"
  shows "job_step srt mapf reducef (RunReducer i now rord kord) j =
    Some (j\<lparr>coord := c, files_of := fs, reducers := (reducers j)[i := r], clock := now\<rparr>)"
  using assms by simp

lemma read_all:
  assumes "i < length (reducers j)" "reducers j ! i = R_read Y (int N) (int x) res" "x \<le> N" "\<forall>x < N. inter (files_of j) (onname (int x) Y) \<noteq> None"
  shows "\<exists>acts res'. list_all (by_worker m i) acts \<and>
    run_opt (job_step srt mapf reducef) acts j = Some (j\<lparr>reducers := (reducers j)[i := R_read Y (int N) (int N) res']\<rparr>)"
  using assms
proof (induction "N - x" arbitrary: j x res)
  case 0
  then have "j = j\<lparr>reducers := (reducers j)[i := R_read Y (int N) (int N) res]\<rparr>"
    using list_update_id [of "reducers j" i] by simp
  then show ?case by (metis run_opt.simps(1) list.pred_inject(1))
next
  case (Suc d)
  then have x: "x < N" "d = N - Suc x" by simp_all
  then obtain kvs where kvs: "inter (files_of j) (onname (int x) Y) = Some kvs" using Suc.prems by blast
  let ?j = "j\<lparr>coord := coord j, files_of := files_of j,
      reducers := (reducers j)[i := R_read Y (int N) (int x + 1) (fold addPair kvs res)], clock := clock j\<rparr>"
  have step: "job_step srt mapf reducef (RunReducer i (clock j) [] []) j = Some ?j"
    using Suc.prems x kvs by (intro RunReducer_step) (simp_all add: ReduceTaskWorker_def)
  obtain acts res' where "list_all (by_worker m i) acts"
    "run_opt (job_step srt mapf reducef) acts ?j = Some (?j\<lparr>reducers := (reducers ?j)[i := R_read Y (int N) (int N) res']\<rparr>)"
    using Suc.hyps(1) [of "Suc x" ?j "fold addPair kvs res"] Suc.prems x by (auto simp: add.commute)
  then have "list_all (by_worker m i) (RunReducer i (clock j) [] [] # acts)"
    "run_opt (job_step srt mapf reducef) (RunReducer i (clock j) [] [] # acts) j = Some (j\<lparr>reducers := (reducers j)[i := R_read Y (int N) (int N) res']\<rparr>)"
    using step by (simp_all del: job_step.simps)
  then show ?case by blast
qed

lemma reduce_one:
  assumes inv: "job_inv p j" and i: "i < length (reducers j)" "reducers j ! i = R_idle"
    and y: "Y |\<in>| fmdom (rTasks (coord j))" and mt: "mTasks (coord j) = fmempty"
  shows "\<exists>acts j'. list_all (by_worker m i) acts \<and> run_opt (job_step srt mapf (p_reducef p)) acts j = Some j' \<and>
    coord j' = (coord j)\<lparr>rTasks := fmdrop Y (rTasks (coord j))\<rparr> \<and> i < length (reducers j') \<and> reducers j' ! i = R_idle"
proof -
  let ?c = "coord j" and ?step = "job_step srt mapf (p_reducef p)" and ?N = "length (p_names p)"
  obtain t where t: "fmlookup (rTasks ?c) Y = Some t" using y by (meson fmdomE)
  obtain ord where ord: "distinct (Y # ord)" "set (Y # ord) = fset (fmdom (rTasks ?c))" using order_from [OF y] .
  define now where "now = max (clock j) (t + 10 * Second + 1)"
  have od: "overdue now (Y # ord) (rTasks ?c) = Some Y" by (rule overdue_first [OF t], unfold now_def) linarith
  have ok: "coord_ok p ?c" "progress_ok p ?c (files_of j)" using inv by (simp_all add: job_inv_def world_ok_def)
  have "rTasks ?c \<noteq> fmempty" using y by auto
  then have st: "GetCoordinatorStatus ?c = ReduceStatus" using mt by (simp add: GetCoordinatorStatus_def)
  obtain y' where y': "y' < nat (p_n p)" "Y = int y'" using ok(1) y by (auto simp: coord_ok_def)
  then have files: "\<forall>x < ?N. inter (files_of j) (onname (int x) Y) \<noteq> None" using ok(2) mt by (auto simp: progress_ok_def mapped_def)
  let ?c1 = "?c\<lparr>rTasks := fmupd Y now (rTasks ?c)\<rparr>"
  let ?j1 = "j\<lparr>coord := ?c1, files_of := files_of j, reducers := (reducers j)[i := R_read Y (int ?N) (int 0) fmempty], clock := now\<rparr>"
  have s1: "?step (RunReducer i now (Y # ord) []) j = Some ?j1"
    using i st od ok(1) ord by (intro RunReducer_step) (simp_all add: ReduceTaskWorker_def DispatchTask_def Let_def coord_ok_def now_def)
  obtain acts res where s2: "list_all (by_worker m i) acts" "run_opt ?step acts ?j1 = Some (?j1\<lparr>reducers := (reducers ?j1)[i := R_read Y (int ?N) (int ?N) res]\<rparr>)"
    using read_all [of i ?j1 Y ?N 0] i files by fastforce
  let ?j2 = "?j1\<lparr>reducers := (reducers ?j1)[i := R_read Y (int ?N) (int ?N) res]\<rparr>"
  obtain kord where kord: "set kord = fset (fmdom res)" "distinct kord" using finite_distinct_list finite_fset by metis
  obtain fs where w: "ReduceTaskWorker (p_reducef p) now [] kord (R_read Y (int ?N) (int ?N) res) (?c1, files_of j) = (R_finish Y, ?c1, fs)"
    by (simp add: ReduceTaskWorker_def)
  let ?j3 = "?j2\<lparr>coord := ?c1, files_of := fs, reducers := (reducers ?j2)[i := R_finish Y], clock := now\<rparr>"
  have s3: "?step (RunReducer i now [] kord) ?j2 = Some ?j3" using i kord w by (intro RunReducer_step) simp_all
  let ?c4 = "snd (DispatchTask now [] [] \<lparr>ReqType = ReduceFinishRequest, MapFinishedFileName = '''', ReduceFinishedTaskId = Y\<rparr> ?c1)"
  let ?j4 = "?j3\<lparr>coord := ?c4, files_of := fs, reducers := (reducers ?j3)[i := R_idle], clock := now\<rparr>"
  have s4: "?step (RunReducer i now [] []) ?j3 = Some ?j4"
    using i by (intro RunReducer_step) (simp_all add: ReduceTaskWorker_def split: prod.splits)
  have "rTasks ?c1 \<noteq> fmempty" by (simp add: fmupd_not_empty)
  then have "GetCoordinatorStatus ?c1 = ReduceStatus" using mt by (simp add: GetCoordinatorStatus_def)
  then have "?c4 = ?c\<lparr>rTasks := fmdrop Y (rTasks ?c)\<rparr>" using y by (simp add: DispatchTask_def Let_def fmdrop_fmupd_same)
  moreover have "run_opt ?step (RunReducer i now (Y # ord) [] # acts @ [RunReducer i now [] kord, RunReducer i now [] []]) j = Some ?j4"
    by (rule run_opt_between [OF s1 s2(2)]) (simp only: run_opt.simps s3 s4 bind.bind_lunit)
  moreover have "list_all (by_worker m i) (RunReducer i now (Y # ord) [] # acts @ [RunReducer i now [] kord, RunReducer i now [] []])"
    using s2(1) by simp
  ultimately show ?thesis using i by fastforce
qed

lemma reduce_all:
  assumes g: "job_given srt p"
  shows "job_inv p j \<Longrightarrow> i < length (reducers j) \<Longrightarrow> reducers j ! i = R_idle \<Longrightarrow> mTasks (coord j) = fmempty \<Longrightarrow>
    \<exists>acts j'. list_all (by_worker m i) acts \<and> run_opt (job_step srt (p_mapf p) (p_reducef p)) acts j = Some j' \<and> Done (coord j')"
proof (induction "card (fset (fmdom (rTasks (coord j))))" arbitrary: j rule: less_induct)
  case less
  show ?case
  proof (cases "rTasks (coord j) = fmempty")
    case True
    then have "Done (coord j)" using less.prems by (simp add: Done_def)
    then show ?thesis by (intro exI [of _ "[]"]) simp
  next
    case False
    then obtain Y where Y: "Y |\<in>| fmdom (rTasks (coord j))" by (metis fmrestrict_fset_dom fmrestrict_fset_null all_not_fin_conv)
    obtain acts j1 where by1: "list_all (by_worker m i) acts" and
      j1: "run_opt (job_step srt (p_mapf p) (p_reducef p)) acts j = Some j1" "i < length (reducers j1)" "reducers j1 ! i = R_idle"
      and c: "coord j1 = (coord j)\<lparr>rTasks := fmdrop Y (rTasks (coord j))\<rparr>"
      using reduce_one [OF less(2,3,4) Y less(5)] by blast
    have "card (fset (fmdom (rTasks (coord j1)))) < card (fset (fmdom (rTasks (coord j))))" "mTasks (coord j1) = fmempty"
      using fmdrop_card [OF Y] less.prems unfolding c by simp_all
    then obtain acts' j2 where "list_all (by_worker m i) acts'"
      "run_opt (job_step srt (p_mapf p) (p_reducef p)) acts' j1 = Some j2" "Done (coord j2)"
      using less(1) [OF _ job_inv_run [OF g less(2) j1(1)] j1(2,3)] by blast
    then show ?thesis
      using run_opt_append [of _ acts acts' j] by1 j1 by (intro exI [of _ "acts @ acts'"] exI [of _ j2]) simp
  qed
qed

lemma job_can_finish:
  assumes g: "job_given srt p" and inv: "job_inv p j"
  shows "\<exists>acts j'. list_all (by_worker (length (mappers j)) (length (reducers j))) acts \<and>
    run_opt (job_step srt (p_mapf p) (p_reducef p)) (StartWorker # acts) j = Some j' \<and> Done (coord j')"
proof -
  let ?step = "job_step srt (p_mapf p) (p_reducef p)" and ?by = "by_worker (length (mappers j)) (length (reducers j))"
  let ?j1 = "j\<lparr>mappers := mappers j @ [M_idle], reducers := reducers j @ [R_idle]\<rparr>"
  have s1: "?step StartWorker j = Some ?j1" by simp
  have inv1: "job_inv p ?j1" by (rule job_inv_step [OF g inv s1])
  obtain acts2 j2 where s2: "run_opt ?step acts2 ?j1 = Some j2" "mTasks (coord j2) = fmempty" "reducers j2 = reducers j @ [R_idle]" "list_all ?by acts2"
    using map_all [OF g inv1, of "length (mappers j)" "length (reducers j)"] by auto
  obtain acts3 j3 where s3: "run_opt ?step acts3 j2 = Some j3" "Done (coord j3)" "list_all ?by acts3"
    using reduce_all [OF g job_inv_run [OF g inv1 s2(1)], of "length (reducers j)" "length (mappers j)"] s2(2,3) by auto
  have "run_opt ?step (StartWorker # acts2 @ acts3) j = Some j3" by (rule run_opt_between [where exec = ?step, OF s1 s2(1) s3(1)])
  moreover have "list_all ?by (acts2 @ acts3)" using s2(4) s3(3) by simp
  ultimately show ?thesis using s3(2) by blast
qed

section \<open>Properties\<close>

text \<open>
  C17: Crashed workers never stop a job for good. From every state a job can reach, whatever workers crashed
  on the way and whatever tasks they held, the job can be brought to its end by one newly started worker alone: there is
  a continuation of the run, time going forward, in which only the mapper and the reducer of the new worker act.
\<close>

theorem mr_job_can_finish:
  assumes "sorts_by_key srt" "order_free reducef" "distinct names" "names \<noteq> []" "0 < n" "\<forall>f \<in> set names. input f \<noteq> None"
    and "run_opt (job_step srt mapf reducef) acts (new_job now names n input) = Some j"
  shows "\<exists>acts' j'. list_all (by_worker (length (mappers j)) (length (reducers j))) acts' \<and>
    run_opt (job_step srt mapf reducef) (StartWorker # acts') j = Some j' \<and> Done (coord j')"
proof -
  let ?p = "\<lparr>p_mapf = mapf, p_reducef = reducef, p_names = names, p_n = n, p_input = input\<rparr>"
  have g: "job_given srt ?p" using assms by (simp add: job_given_def)
  have "job_inv ?p j" using job_inv_run [OF g job_inv_init [OF g]] assms(7) by simp
  from job_can_finish [OF g this] show ?thesis by simp
qed

lemma crashed_run:
  "\<exists>j. run_opt (job_step (sort_key kv_Key) (wc_Map IsAB) wc_Reduce) (take 5 wc_acts) (new_job 0 [''x''] 2 [''x'' \<mapsto> ''b a b'']) = Some j"
proof -
  have "case run_opt (job_step (sort_key kv_Key) (wc_Map IsAB) wc_Reduce) (take 5 wc_acts) (new_job 0 [''x''] 2 [''x'' \<mapsto> ''b a b'']) of
      None \<Rightarrow> False | Some j \<Rightarrow> True" by code_simp
  then show ?thesis by (auto split: option.splits)
qed

theorem mr_job_can_finish_witness:
  "\<exists>j acts' j'. run_opt (job_step (sort_key kv_Key) (wc_Map IsAB) wc_Reduce) (take 5 wc_acts) (new_job 0 [''x''] 2 [''x'' \<mapsto> ''b a b'']) = Some j \<and>
    run_opt (job_step (sort_key kv_Key) (wc_Map IsAB) wc_Reduce) (StartWorker # acts') j = Some j' \<and> Done (coord j')"
proof -
  obtain j where j: "run_opt (job_step (sort_key kv_Key) (wc_Map IsAB) wc_Reduce) (take 5 wc_acts) (new_job 0 [''x''] 2 [''x'' \<mapsto> ''b a b'']) = Some j"
    using crashed_run by blast
  have "[''x''] \<noteq> []" "distinct [''x'']" "\<forall>f \<in> set [''x'']. [''x'' \<mapsto> ''b a b''] f \<noteq> None" by simp_all
  from mr_job_can_finish [OF sorts_by_key_sort_key wc.order_free_reducef this(2,1) _ this(3) j] show ?thesis using j by auto
qed

text \<open>
  C23: What a request to the coordinator does. During the map (reduce) phase a request for a map (reduce) task is given one exactly when
  some task has not been handed out for more than ten seconds; it is such a task, its time becomes the current one, and without
  one nothing changes. A finished map task leaves the table, and with the last of them the reduce tasks appear; a finished reduce
  task leaves its table; reports that come twice or late change nothing.
\<close>

theorem DispatchTask_effect:
  assumes "set mord = fset (fmdom (mTasks c))" "set rord = fset (fmdom (rTasks c))" "DispatchTask now mord rord args c = (reply, c')"
  shows "case ReqType args of
      MapRequest \<Rightarrow> (ReplyCode reply = NewTask \<longleftrightarrow> (\<exists>f. late now (mTasks c) f)) \<and>
        (if ReplyCode reply = NewTask then late now (mTasks c) (MapFileName reply) \<and> c' = c\<lparr>mTasks := fmupd (MapFileName reply) now (mTasks c)\<rparr> else c' = c)
    | ReduceRequest \<Rightarrow> (ReplyCode reply = NewTask \<longleftrightarrow> mTasks c = fmempty \<and> (\<exists>Y. late now (rTasks c) Y)) \<and>
        (if ReplyCode reply = NewTask then late now (rTasks c) (ReduceTaskId reply) \<and> c' = c\<lparr>rTasks := fmupd (ReduceTaskId reply) now (rTasks c)\<rparr> else c' = c)
    | MapFinishRequest \<Rightarrow> mTasks c' = fmdrop (MapFinishedFileName args) (mTasks c) \<and>
        fset (fmdom (rTasks c')) = fset (fmdom (rTasks c)) \<union> (if mTasks c \<noteq> fmempty \<and> mTasks c' = fmempty then int ` {..<nat (nReduce c)} else {})
    | ReduceFinishRequest \<Rightarrow> c' = c\<lparr>rTasks := if mTasks c = fmempty then fmdrop (ReduceFinishedTaskId args) (rTasks c) else rTasks c\<rparr>"
proof (cases "ReqType args")
  case MapRequest
  then show ?thesis using overdue_cases [OF assms(1), of now] assms(3)
    by (auto simp: DispatchTask_def Let_def GetCoordinatorStatus_def not_late_empty split: if_splits option.splits)
next
  case ReduceRequest
  then show ?thesis using overdue_cases [OF assms(2), of now] assms(3)
    by (auto simp: DispatchTask_def Let_def GetCoordinatorStatus_def not_late_empty split: if_splits option.splits)
next
  case MapFinishRequest
  then show ?thesis using assms(3)
    by (auto simp: DispatchTask_def Let_def GetCoordinatorStatus_def newReduceTasks_dom fmdrop_idle split: if_splits)
next
  case ReduceFinishRequest
  then show ?thesis using assms(3)
    by (auto simp: DispatchTask_def Let_def GetCoordinatorStatus_def fmdrop_idle split: if_splits)
qed

theorem DispatchTask_effect_witness:
  "let c = MakeCoordinator 0 [''x'', ''y''] 3;
       (reply, c') = DispatchTask (11 * Second) [''y'', ''x''] [] \<lparr>ReqType = MapRequest, MapFinishedFileName = '''', ReduceFinishedTaskId = 0\<rparr> c
   in ReplyCode reply = NewTask \<and> late (11 * Second) (mTasks c) (MapFileName reply) \<and>
      c' = c\<lparr>mTasks := fmupd (MapFileName reply) (11 * Second) (mTasks c)\<rparr>"
proof -
  let ?c = "MakeCoordinator 0 [''x'', ''y''] 3"
  have c: "?c = \<lparr>nfile = 2, nReduce = 3, mr_files = fmupd ''y'' 1 (fmupd ''x'' 0 fmempty),
      mTasks = fmupd ''y'' (- Hour) (fmupd ''x'' (- Hour) fmempty), rTasks = fmempty\<rparr>"
    by (simp add: MakeCoordinator_def)
  have m: "set [''y'', ''x''] = fset (fmdom (mTasks ?c))" and r: "set [] = fset (fmdom (rTasks ?c))" unfolding c by auto
  have "late (11 * Second) (mTasks ?c) ''x''" unfolding c by (simp add: late_def Hour_def Second_def)
  then show ?thesis
    using DispatchTask_effect [OF m r, of "11 * Second" "\<lparr>ReqType = MapRequest, MapFinishedFileName = '''', ReduceFinishedTaskId = 0\<rparr>"]
    by (auto simp: Let_def split: prod.splits if_splits)
qed

end
