(* ===== verification/Labrpc.thy ===== *)
theory Labrpc
  imports Storage Service "HOL-Library.Word"
begin

text \<open>
  The simulated network of src/src/labrpc/labrpc.go: services and servers, the network with its switches, and
  the life of a call from \<open>Call\<close> through \<open>processReq\<close> to the reply.

  \<^item> Messages are gob streams (theory \<open>Storage\<close>); \<open>'v\<close> are the values in them. The length of an encoded message is the parameter \<open>size_of\<close>.
  \<^item> The objects behind the services have a state \<open>'w\<close>, which the handlers share. A handler is a \<open>prog\<close>: it returns, or does one step on
    that state and goes on, so that handlers of different calls interleave.
  \<^item> \<open>reflect\<close>: a method is its name with the facts \<open>MakeService\<close> asks for and the function itself; the type of the arguments
    is represented by its zero value, into which the arguments are decoded.
  \<^item> Servers are compared as pointers: a pointer is a position in the list of all servers made, and \<open>nil\<close> is \<open>None\<close>.
  \<^item> A call is cut where it uses a channel, takes the lock of the network or runs the handler; durations do not matter, since the next part
    of any call may run at any time, and the random numbers drawn are arguments.
  \<^item> \<open>None\<close> is a panic or a \<open>log.Fatalf\<close>, which end the process, or a part of a call that cannot run yet.
\<close>

section \<open>Services and servers\<close>

datatype name = NameInt int | NameString string

datatype ('v, 'w) prog = Return 'v | Step "'w \<Rightarrow> 'w \<times> ('v, 'w) prog"

record 'v reqMsg =
  endname :: name
  svcMeth :: string
  argsType :: 'v
  args :: "'v list"

record 'v replyMsg =
  ok :: bool
  reply :: "'v list"

record ('v, 'w) Method =
  PkgPath :: string
  NumIn :: int
  In2_is_Ptr :: bool
  NumOut :: int
  Func :: "'v \<Rightarrow> ('v, 'w) prog"

record ('v, 'w) Service =
  svc_name :: string
  svc_methods :: "string \<rightharpoonup> ('v \<Rightarrow> ('v, 'w) prog)"

definition MakeService :: "string \<Rightarrow> (string \<times> ('v, 'w) Method) list \<Rightarrow> ('v, 'w) Service" where
  "MakeService typeName ms =
     fold (\<lambda>(mname, m) svc.
         if PkgPath m \<noteq> '''' \<or> NumIn m \<noteq> 3 \<or> \<not> In2_is_Ptr m \<or> NumOut m \<noteq> 0 then svc
         else svc\<lparr>svc_methods := (svc_methods svc)(mname \<mapsto> Func m)\<rparr>) ms
       \<lparr>svc_name = typeName, svc_methods = Map.empty\<rparr>"

definition Service_dispatch :: "string \<Rightarrow> 'v reqMsg \<Rightarrow> ('v, 'w) Service \<Rightarrow> ('v, 'w) prog option" where
  "Service_dispatch methname req svc = do {
     function \<leftarrow> svc_methods svc methname;
     Some (function (case Decode Some (args req) of None \<Rightarrow> argsType req | Some (v, _) \<Rightarrow> v))
   }"

record ('v, 'w) Server =
  services :: "string \<rightharpoonup> ('v, 'w) Service"
  srv_count :: int

definition MakeServer :: "('v, 'w) Server" where
  "MakeServer = \<lparr>services = Map.empty, srv_count = 0\<rparr>"

definition AddService :: "('v, 'w) Service \<Rightarrow> ('v, 'w) Server \<Rightarrow> ('v, 'w) Server" where
  "AddService svc rs = rs\<lparr>services := (services rs)(svc_name svc \<mapsto> svc)\<rparr>"

text \<open>\<open>strings.LastIndex\<close> for a single character.\<close>

definition LastIndex :: "string \<Rightarrow> char \<Rightarrow> int" where
  "LastIndex s c = (if c \<in> set s then len s - 1 - len (takeWhile (\<lambda>x. x \<noteq> c) (rev s)) else -1)"

definition Server_dispatch :: "'v reqMsg \<Rightarrow> ('v, 'w) Server \<Rightarrow> (('v, 'w) prog \<times> ('v, 'w) Server) option" where
  "Server_dispatch req rs = (
     let rs = rs\<lparr>srv_count := srv_count rs + 1\<rparr>;
         dot = LastIndex (svcMeth req) (CHR ''.'')
     in do {
       serviceName \<leftarrow> go_slice (svcMeth req) 0 dot;
       methodName \<leftarrow> go_from (svcMeth req) (dot + 1);
       service \<leftarrow> services rs serviceName;
       p \<leftarrow> Service_dispatch methodName req service;
       Some (p, rs)
     })"

definition Server_GetCount :: "('v, 'w) Server \<Rightarrow> int" where
  "Server_GetCount rs = srv_count rs"

section \<open>The network\<close>

record Network =
  reliable :: bool
  longDelays :: bool
  longReordering :: bool
  ends :: "name set"
  enabled :: "name \<rightharpoonup> bool"
  servers :: "name \<rightharpoonup> nat option"
  connections :: "name \<rightharpoonup> name option"
  rn_done :: bool
  rn_count :: "32 word"
  rn_bytes :: "64 word"

definition MakeNetwork :: Network where
  "MakeNetwork = \<lparr>reliable = True, longDelays = False, longReordering = False, ends = {}, enabled = Map.empty, servers = Map.empty,
     connections = Map.empty, rn_done = False, rn_count = 0, rn_bytes = 0\<rparr>"

text \<open>The goroutine that \<open>MakeNetwork\<close> starts counts a request before it hands it on.\<close>

definition countReq :: "int \<Rightarrow> Network \<Rightarrow> Network" where
  "countReq n rn = rn\<lparr>rn_count := rn_count rn + 1, rn_bytes := rn_bytes rn + word_of_int n\<rparr>"

text \<open>Closing a closed channel panics.\<close>

definition Cleanup :: "Network \<Rightarrow> Network option" where
  "Cleanup rn = (if rn_done rn then None else Some (rn\<lparr>rn_done := True\<rparr>))"

definition Reliable :: "bool \<Rightarrow> Network \<Rightarrow> Network" where
  "Reliable yes rn = rn\<lparr>reliable := yes\<rparr>"

definition LongReordering :: "bool \<Rightarrow> Network \<Rightarrow> Network" where
  "LongReordering yes rn = rn\<lparr>longReordering := yes\<rparr>"

definition LongDelays :: "bool \<Rightarrow> Network \<Rightarrow> Network" where
  "LongDelays yes rn = rn\<lparr>longDelays := yes\<rparr>"

definition readEndnameInfo :: "name \<Rightarrow> Network \<Rightarrow> bool \<times> name option \<times> nat option \<times> bool \<times> bool" where
  "readEndnameInfo e rn = (
     let servername = mget None (connections rn) e
     in (mget False (enabled rn) e, servername,
         case servername of None \<Rightarrow> None | Some sn \<Rightarrow> mget None (servers rn) sn,
         reliable rn, longReordering rn))"

definition isServerDead :: "name \<Rightarrow> name \<Rightarrow> nat \<Rightarrow> Network \<Rightarrow> bool" where
  "isServerDead e servername server rn \<longleftrightarrow>
     mget False (enabled rn) e = False \<or> mget None (servers rn) servername \<noteq> Some server"

definition MakeEnd :: "name \<Rightarrow> Network \<Rightarrow> Network option" where
  "MakeEnd e rn =
     (if e \<in> ends rn then None
      else Some (rn\<lparr>ends := insert e (ends rn), enabled := (enabled rn)(e \<mapsto> False), connections := (connections rn)(e \<mapsto> None)\<rparr>))"

definition AddServer :: "name \<Rightarrow> nat \<Rightarrow> Network \<Rightarrow> Network" where
  "AddServer servername rs rn = rn\<lparr>servers := (servers rn)(servername \<mapsto> Some rs)\<rparr>"

definition DeleteServer :: "name \<Rightarrow> Network \<Rightarrow> Network" where
  "DeleteServer servername rn = rn\<lparr>servers := (servers rn)(servername \<mapsto> None)\<rparr>"

definition Connect :: "name \<Rightarrow> name \<Rightarrow> Network \<Rightarrow> Network" where
  "Connect e servername rn = rn\<lparr>connections := (connections rn)(e \<mapsto> Some servername)\<rparr>"

definition Enable :: "name \<Rightarrow> bool \<Rightarrow> Network \<Rightarrow> Network" where
  "Enable e yes rn = rn\<lparr>enabled := (enabled rn)(e \<mapsto> yes)\<rparr>"

definition GetCount :: "('v, 'w) Server list \<Rightarrow> name \<Rightarrow> Network \<Rightarrow> int option" where
  "GetCount srvs servername rn = map_option (\<lambda>a. Server_GetCount (srvs ! a)) (mget None (servers rn) servername)"

definition GetTotalCount :: "Network \<Rightarrow> int" where
  "GetTotalCount rn = sint (rn_count rn)"

definition GetTotalBytes :: "Network \<Rightarrow> int" where
  "GetTotalBytes rn = sint (rn_bytes rn)"

section \<open>The life of a call\<close>

text \<open>
  \<open>C_send\<close>: at the \<open>select\<close> of \<open>Call\<close>. \<open>P_start\<close>: before \<open>processReq\<close>. \<open>P_wait\<close>: in its loop, with the handler in a goroutine of its own.
  \<open>P_check\<close>: after the loop, with the reply if one came. \<open>P_reply\<close>: sending the answer to \<open>Call\<close>. \<open>C_returned\<close>: \<open>Call\<close> has returned
  false (\<open>None\<close>) or true with the value it decoded into its argument.
\<close>

datatype 'v phase =
    C_send
  | P_start
  | P_wait name nat bool bool
  | P_check name nat bool bool "'v replyMsg option"
  | P_reply "'v replyMsg"
  | C_returned "'v option"

text \<open>The goroutine that runs the handler: not started, before \<open>dispatch\<close>, running, or sending the reply to \<open>processReq\<close>.\<close>

datatype ('v, 'w) goroutine = H_none | H_start nat | H_run "('v, 'w) prog" | H_reply "'v replyMsg"

record ('v, 'w) call =
  req :: "'v reqMsg"
  phase :: "'v phase"
  handler :: "('v, 'w) goroutine"

definition Call_begin :: "name \<Rightarrow> string \<Rightarrow> 'v \<Rightarrow> 'v \<Rightarrow> ('v, 'w) call" where
  "Call_begin e meth zero v =
     \<lparr>req = \<lparr>endname = e, svcMeth = meth, argsType = zero, args = Encode v []\<rparr>, phase = C_send, handler = H_none\<rparr>"

definition Call_end :: "'v replyMsg \<Rightarrow> ('v, 'w) call \<Rightarrow> ('v, 'w) call option" where
  "Call_end rep c =
     (if ok rep then do { (v, _) \<leftarrow> Decode Some (reply rep); Some (c\<lparr>phase := C_returned (Some v)\<rparr>) }
      else Some (c\<lparr>phase := C_returned None\<rparr>))"

definition Timeout :: "'v replyMsg" where
  "Timeout = \<lparr>ok = False, reply = []\<rparr>"

text \<open>Up to the start of the handler; \<open>r\<close> is the random number that may drop the request.\<close>

definition processReq_start :: "int \<Rightarrow> Network \<Rightarrow> ('v, 'w) call \<Rightarrow> ('v, 'w) call" where
  "processReq_start r rn c = (
     case readEndnameInfo (endname (req c)) rn of
       (True, Some servername, Some server, rel, longreordering) \<Rightarrow>
         if \<not> rel \<and> r mod 1000 < 100 then c\<lparr>phase := P_reply Timeout\<rparr>
         else c\<lparr>phase := P_wait servername server rel longreordering, handler := H_start server\<rparr>
     | _ \<Rightarrow> c\<lparr>phase := P_reply Timeout\<rparr>)"

text \<open>After the loop; \<open>r\<close> is the random number that may drop the reply. A delayed reply is one that is sent later.\<close>

definition processReq_end :: "int \<Rightarrow> Network \<Rightarrow> ('v, 'w) call \<Rightarrow> ('v, 'w) call option" where
  "processReq_end r rn c = (
     case phase c of
       P_check servername server rel longreordering rep \<Rightarrow>
         Some (case rep of
             None \<Rightarrow> c\<lparr>phase := P_reply Timeout\<rparr>
           | Some rp \<Rightarrow>
               if isServerDead (endname (req c)) servername server rn then c\<lparr>phase := P_reply Timeout\<rparr>
               else if \<not> rel \<and> r mod 1000 < 100 then c\<lparr>phase := P_reply Timeout\<rparr>
               else c\<lparr>phase := P_reply rp\<rparr>)
     | _ \<Rightarrow> None)"

section \<open>Runs\<close>

record ('v, 'w) sim =
  net :: Network
  serving :: bool
  srvs :: "('v, 'w) Server list"
  objs :: 'w
  calls :: "('v, 'w) call list"

definition start :: "'w \<Rightarrow> ('v, 'w) sim" where
  "start w = \<lparr>net = MakeNetwork, serving = True, srvs = [], objs = w, calls = []\<rparr>"

definition with_call :: "nat \<Rightarrow> (('v, 'w) call \<Rightarrow> ('v, 'w) call option) \<Rightarrow> ('v, 'w) sim \<Rightarrow> ('v, 'w) sim option" where
  "with_call i f s = (if i < length (calls s) then map_option (\<lambda>c. s\<lparr>calls := (calls s)[i := c]\<rparr>) (f (calls s ! i)) else None)"

text \<open>
  What can happen next: the code of the tests changes the network or makes a call, or one call does its next part.
\<close>

datatype ('v, 'w) event =
    E_Reliable bool | E_LongReordering bool | E_LongDelays bool
  | E_MakeEnd name | E_MakeServer | E_AddService nat "('v, 'w) Service" | E_AddServer name nat | E_DeleteServer name
  | E_Connect name name | E_Enable name bool | E_Cleanup
  | E_Call name string 'v 'v
  | E_Accept nat | E_LoopEnd | E_Abandon nat
  | E_Process nat int | E_Dispatch nat | E_Handle nat | E_TakeReply nat | E_Tick nat | E_Check nat int | E_Deliver nat

fun net_event :: "('v, 'w) event \<Rightarrow> Network \<Rightarrow> Network option" where
  "net_event (E_Reliable yes) rn = Some (Reliable yes rn)"
| "net_event (E_LongReordering yes) rn = Some (LongReordering yes rn)"
| "net_event (E_LongDelays yes) rn = Some (LongDelays yes rn)"
| "net_event (E_MakeEnd e) rn = MakeEnd e rn"
| "net_event (E_AddServer sn a) rn = Some (AddServer sn a rn)"
| "net_event (E_DeleteServer sn) rn = Some (DeleteServer sn rn)"
| "net_event (E_Connect e sn) rn = Some (Connect e sn rn)"
| "net_event (E_Enable e yes) rn = Some (Enable e yes rn)"
| "net_event E_Cleanup rn = Cleanup rn"
| "net_event _ rn = None"

fun sim_step :: "('v list \<Rightarrow> int) \<Rightarrow> ('v, 'w) event \<Rightarrow> ('v, 'w) sim \<Rightarrow> ('v, 'w) sim option" where
  "sim_step size_of E_MakeServer s = Some (s\<lparr>srvs := srvs s @ [MakeServer]\<rparr>)"
| "sim_step size_of (E_AddService a svc) s =
     (if a < length (srvs s) then Some (s\<lparr>srvs := (srvs s)[a := AddService svc (srvs s ! a)]\<rparr>) else None)"
| "sim_step size_of (E_AddServer sn a) s =
     (if a < length (srvs s) then Some (s\<lparr>net := AddServer sn a (net s)\<rparr>) else None)"
| "sim_step size_of (E_Call e meth zero v) s =
     (if e \<in> ends (net s) then Some (s\<lparr>calls := calls s @ [Call_begin e meth zero v]\<rparr>) else None)"
| "sim_step size_of (E_Accept i) s =
     (if serving s then
        map_option (\<lambda>s. s\<lparr>net := countReq (size_of (args (req (calls s ! i)))) (net s)\<rparr>)
          (with_call i (\<lambda>c. if phase c = C_send then Some (c\<lparr>phase := P_start\<rparr>) else None) s)
      else None)"
| "sim_step size_of E_LoopEnd s = (if rn_done (net s) then Some (s\<lparr>serving := False\<rparr>) else None)"
| "sim_step size_of (E_Abandon i) s =
     (if rn_done (net s) then with_call i (\<lambda>c. if phase c = C_send then Some (c\<lparr>phase := C_returned None\<rparr>) else None) s else None)"
| "sim_step size_of (E_Process i r) s =
     with_call i (\<lambda>c. if phase c = P_start then Some (processReq_start r (net s) c) else None) s"
| "sim_step size_of (E_Dispatch i) s =
     (if i < length (calls s) then
        case handler (calls s ! i) of
          H_start a \<Rightarrow> do {
            rs \<leftarrow> go_nth (srvs s) (int a);
            (p, rs) \<leftarrow> Server_dispatch (req (calls s ! i)) rs;
            with_call i (\<lambda>c. Some (c\<lparr>handler := H_run p\<rparr>)) (s\<lparr>srvs := (srvs s)[a := rs]\<rparr>)
          }
        | _ \<Rightarrow> None
      else None)"
| "sim_step size_of (E_Handle i) s =
     (if i < length (calls s) then
        case handler (calls s ! i) of
          H_run (Return v) \<Rightarrow> with_call i (\<lambda>c. Some (c\<lparr>handler := H_reply \<lparr>ok = True, reply = Encode v []\<rparr>\<rparr>)) s
        | H_run (Step f) \<Rightarrow> (let (w, p) = f (objs s) in with_call i (\<lambda>c. Some (c\<lparr>handler := H_run p\<rparr>)) (s\<lparr>objs := w\<rparr>))
        | _ \<Rightarrow> None
      else None)"
| "sim_step size_of (E_TakeReply i) s =
     with_call i (\<lambda>c. case (phase c, handler c) of
         (P_wait sn a rel lr, H_reply rep) \<Rightarrow> Some (c\<lparr>phase := P_check sn a rel lr (Some rep)\<rparr>) | _ \<Rightarrow> None) s"
| "sim_step size_of (E_Tick i) s =
     with_call i (\<lambda>c. case phase c of
         P_wait sn a rel lr \<Rightarrow> Some (if isServerDead (endname (req c)) sn a (net s) then c\<lparr>phase := P_check sn a rel lr None\<rparr> else c) | _ \<Rightarrow> None) s"
| "sim_step size_of (E_Check i r) s = with_call i (processReq_end r (net s)) s"
| "sim_step size_of (E_Deliver i) s =
     (if i < length (calls s) then
        case phase (calls s ! i) of
          P_reply rep \<Rightarrow> with_call i (Call_end rep)
            (if ok rep then s\<lparr>net := (net s)\<lparr>rn_bytes := rn_bytes (net s) + word_of_int (size_of (reply rep))\<rparr>\<rparr> else s)
        | _ \<Rightarrow> None
      else None)"
| "sim_step size_of ev s = map_option (\<lambda>rn. s\<lparr>net := rn\<rparr>) (net_event ev (net s))"

end
