(* ===== verification/Labrpc_Correct.thy ===== *)
theory Labrpc_Correct
  imports Labrpc
begin

text \<open>
  What the clients of src/src/labrpc may rely on: a request reaches its handler at most once, a call that reports success carries the
  reply of that one execution by a server that had not been removed or replaced, and on a reliable network a call over an
  enabled connection does not fail.
\<close>

section \<open>One call\<close>

text \<open>The next part of one call, given the network.\<close>

inductive call_trans :: "('v, 'w) event \<Rightarrow> Network \<Rightarrow> ('v, 'w) call \<Rightarrow> ('v, 'w) call \<Rightarrow> bool" where
  accept: "phase c = C_send \<Longrightarrow> call_trans (E_Accept i) rn c (c\<lparr>phase := P_start\<rparr>)"
| abandon: "rn_done rn \<Longrightarrow> phase c = C_send \<Longrightarrow> call_trans (E_Abandon i) rn c (c\<lparr>phase := C_returned None\<rparr>)"
| process: "phase c = P_start \<Longrightarrow> call_trans (E_Process i r) rn c (processReq_start r rn c)"
| dispatch: "handler c = H_start a \<Longrightarrow> call_trans (E_Dispatch i) rn c (c\<lparr>handler := H_run p\<rparr>)"
| handle_step: "handler c = H_run q \<Longrightarrow> call_trans (E_Handle i) rn c (c\<lparr>handler := H_run p\<rparr>)"
| handle_return: "handler c = H_run (Return v) \<Longrightarrow> call_trans (E_Handle i) rn c (c\<lparr>handler := H_reply \<lparr>ok = True, reply = [v]\<rparr>\<rparr>)"
| take_reply: "phase c = P_wait sn a rel lr \<Longrightarrow> handler c = H_reply rep \<Longrightarrow>
    call_trans (E_TakeReply i) rn c (c\<lparr>phase := P_check sn a rel lr (Some rep)\<rparr>)"
| tick_dead: "phase c = P_wait sn a rel lr \<Longrightarrow> isServerDead (endname (req c)) sn a rn \<Longrightarrow>
    call_trans (E_Tick i) rn c (c\<lparr>phase := P_check sn a rel lr None\<rparr>)"
| tick_alive: "phase c = P_wait sn a rel lr \<Longrightarrow> call_trans (E_Tick i) rn c c"
| check: "processReq_end r rn c = Some c' \<Longrightarrow> call_trans (E_Check i r) rn c c'"
| deliver: "phase c = P_reply rep \<Longrightarrow> Call_end rep c = Some c' \<Longrightarrow> call_trans (E_Deliver i) rn c c'"

fun event_index :: "('v, 'w) event \<Rightarrow> nat option" where
  "event_index (E_Accept i) = Some i"
| "event_index (E_Abandon i) = Some i"
| "event_index (E_Process i r) = Some i"
| "event_index (E_Dispatch i) = Some i"
| "event_index (E_Handle i) = Some i"
| "event_index (E_TakeReply i) = Some i"
| "event_index (E_Tick i) = Some i"
| "event_index (E_Check i r) = Some i"
| "event_index (E_Deliver i) = Some i"
| "event_index _ = None"

fun is_dispatch :: "nat \<Rightarrow> ('v, 'w) event \<Rightarrow> bool" where
  "is_dispatch i (E_Dispatch j) \<longleftrightarrow> i = j"
| "is_dispatch i _ \<longleftrightarrow> False"

lemma with_call_Some:
  "with_call i f s = Some s' \<longleftrightarrow> i < length (calls s) \<and> (\<exists>c'. f (calls s ! i) = Some c' \<and> s' = s\<lparr>calls := (calls s)[i := c']\<rparr>)"
  by (auto simp: with_call_def)

lemma sim_step_own:
  assumes "sim_step size_of ev s = Some s'" "event_index ev = Some i"
  shows "i < length (calls s) \<and> (\<exists>c'. calls s' = (calls s)[i := c'] \<and> call_trans ev (net s) (calls s ! i) c')"
  using assms
  by (cases ev)
    (auto simp: with_call_Some Encode_def bind_eq_Some_conv intro: call_trans.intros
      split: if_splits goroutine.splits prog.splits phase.splits prod.splits,
     metis call_trans.tick_alive list_update_id)

lemma sim_step_other:
  assumes "sim_step size_of ev s = Some s'" "event_index ev = None"
  shows "calls s' = calls s \<or> (\<exists>e m z v. ev = E_Call e m z v \<and> calls s' = calls s @ [Call_begin e m z v])"
  using assms by (cases ev) (auto split: if_splits)

section \<open>At most once\<close>

definition dispatched :: "nat \<Rightarrow> ('v, 'w) event list \<Rightarrow> nat" where
  "dispatched i evs = length (filter (is_dispatch i) evs)"

text \<open>Somewhere in the run the reply of call \<open>i\<close> was checked, and its connection and server were in place then.\<close>

definition checked_alive :: "('v list \<Rightarrow> int) \<Rightarrow> ('v, 'w) sim \<Rightarrow> ('v, 'w) event list \<Rightarrow> nat \<Rightarrow> bool" where
  "checked_alive size_of s0 evs i \<longleftrightarrow> (\<exists>pre r post s c sn a rel lr rep. evs = pre @ E_Check i r # post \<and> run_opt (sim_step size_of) pre s0 = Some s \<and>
     i < length (calls s) \<and> c = calls s ! i \<and> phase c = P_check sn a rel lr rep \<and> \<not> isServerDead (endname (req c)) sn a (net s))"

definition call_ok :: "bool \<Rightarrow> nat \<Rightarrow> ('v, 'w) call \<Rightarrow> bool" where
  "call_ok alive d c \<longleftrightarrow>
     (case handler c of H_none \<Rightarrow> d = 0 | H_start _ \<Rightarrow> d = 0 | H_run _ \<Rightarrow> d = 1 | H_reply rep \<Rightarrow> d = 1 \<and> ok rep \<and> (\<exists>v. reply rep = [v])) \<and>
     (case phase c of
        C_send \<Rightarrow> handler c = H_none
      | P_start \<Rightarrow> handler c = H_none
      | P_check sn a rel lr (Some rep) \<Rightarrow> handler c = H_reply rep
      | P_reply rep \<Rightarrow> ok rep \<longrightarrow> handler c = H_reply rep \<and> alive
      | C_returned (Some v) \<Rightarrow> handler c = H_reply \<lparr>ok = True, reply = [v]\<rparr> \<and> alive
      | _ \<Rightarrow> True)"

lemma checked_alive_append: "checked_alive size_of s0 evs i \<Longrightarrow> checked_alive size_of s0 (evs @ [ev]) i"
  unfolding checked_alive_def by (metis append.assoc append_Cons)

lemma call_ok_mono: "call_ok alive d c \<Longrightarrow> (alive \<Longrightarrow> alive') \<Longrightarrow> call_ok alive' d c"
  unfolding call_ok_def by (auto split: phase.splits option.splits)

lemma call_ok_begin: "call_ok alive 0 (Call_begin e m z v)"
  by (simp add: call_ok_def Call_begin_def)

lemma call_ok_trans:
  assumes "call_trans ev rn c c'" "call_ok alive d c"
    "alive \<Longrightarrow> alive'" "\<And>i r sn a rel lr rep. ev = E_Check i r \<Longrightarrow> phase c = P_check sn a rel lr rep \<Longrightarrow> \<not> isServerDead (endname (req c)) sn a rn \<Longrightarrow> alive'"
  shows "call_ok alive' (d + (case ev of E_Dispatch _ \<Rightarrow> 1 | _ \<Rightarrow> 0)) c'"
  using assms
proof (cases rule: call_trans.cases)
  case (process i r)
  then show ?thesis using assms(2)
    by (auto simp: call_ok_def processReq_start_def Timeout_def split: prod.splits bool.splits option.splits)
next
  case (check r i)
  then show ?thesis using assms(2,3,4)
    by (auto simp: call_ok_def processReq_end_def Timeout_def split: phase.splits option.splits if_splits goroutine.splits)
next
  case (deliver rep i)
  then show ?thesis using assms(2,3)
    by (auto simp: call_ok_def Call_end_def Decode_def bind_eq_Some_conv split: if_splits goroutine.splits)
qed (auto simp: call_ok_def split: goroutine.splits phase.splits option.splits)

definition sim_inv :: "('v list \<Rightarrow> int) \<Rightarrow> ('v, 'w) sim \<Rightarrow> ('v, 'w) event list \<Rightarrow> ('v, 'w) sim \<Rightarrow> bool" where
  "sim_inv size_of s0 evs s \<longleftrightarrow> (\<forall>i < length (calls s). call_ok (checked_alive size_of s0 evs i) (dispatched i evs) (calls s ! i)) \<and>
     (\<forall>i \<ge> length (calls s). dispatched i evs = 0)"

lemma dispatched_append: "dispatched i (evs @ [ev]) = dispatched i evs + (if is_dispatch i ev then 1 else 0)"
  by (simp add: dispatched_def)

lemma is_dispatch_index: "is_dispatch i ev \<Longrightarrow> event_index ev = Some i"
  by (cases ev) simp_all

lemma sim_inv_step:
  assumes inv: "sim_inv size_of s0 evs s" and run: "run_opt (sim_step size_of) evs s0 = Some s" and step: "sim_step size_of ev s = Some s'"
  shows "sim_inv size_of s0 (evs @ [ev]) s'"
proof (cases "event_index ev")
  case None
  then have d: "dispatched i (evs @ [ev]) = dispatched i evs" for i using is_dispatch_index [of i ev] by (auto simp: dispatched_append)
  have old: "call_ok (checked_alive size_of s0 (evs @ [ev]) i) (dispatched i (evs @ [ev])) (calls s ! i)" if "i < length (calls s)" for i
    using inv that call_ok_mono [OF _ checked_alive_append] by (fastforce simp: sim_inv_def d)
  from sim_step_other [OF step None] show ?thesis
  proof
    assume "calls s' = calls s"
    then show ?thesis using old inv by (simp add: sim_inv_def d)
  next
    assume "\<exists>e m z v. ev = E_Call e m z v \<and> calls s' = calls s @ [Call_begin e m z v]"
    then show ?thesis using old inv by (auto simp: sim_inv_def d nth_append less_Suc_eq call_ok_begin)
  qed
next
  case (Some i)
  obtain c' where i: "i < length (calls s)" and c': "calls s' = (calls s)[i := c']" and tr: "call_trans ev (net s) (calls s ! i) c'"
    using sim_step_own [OF step Some] by blast
  have other: "dispatched l (evs @ [ev]) = dispatched l evs" if "l \<noteq> i" for l
    using is_dispatch_index [of l ev] that Some by (auto simp: dispatched_append)
  have own: "dispatched i (evs @ [ev]) = dispatched i evs + (case ev of E_Dispatch _ \<Rightarrow> 1 | _ \<Rightarrow> 0)"
    using Some by (cases ev) (simp_all add: dispatched_append)
  have "call_ok (checked_alive size_of s0 (evs @ [ev]) i) (dispatched i (evs @ [ev])) c'"
    unfolding own
  proof (rule call_ok_trans [OF tr])
    show "call_ok (checked_alive size_of s0 evs i) (dispatched i evs) (calls s ! i)" using inv i by (simp add: sim_inv_def)
    show "checked_alive size_of s0 evs i \<Longrightarrow> checked_alive size_of s0 (evs @ [ev]) i" by (rule checked_alive_append)
    fix k r sn a rel lr rep
    assume "ev = E_Check k r" "phase (calls s ! i) = P_check sn a rel lr rep" "\<not> isServerDead (endname (req (calls s ! i))) sn a (net s)"
    then show "checked_alive size_of s0 (evs @ [ev]) i" unfolding checked_alive_def using Some run i by (auto intro!: exI [of _ evs])
  qed
  moreover have "call_ok (checked_alive size_of s0 (evs @ [ev]) l) (dispatched l (evs @ [ev])) (calls s ! l)" if "l \<noteq> i" "l < length (calls s)" for l
    unfolding other [OF that(1)] using inv that(2) call_ok_mono [OF _ checked_alive_append] by (fastforce simp: sim_inv_def)
  ultimately show ?thesis using inv i other unfolding sim_inv_def c' by (simp add: nth_list_update)
qed

lemma sim_inv_run: "run_opt (sim_step size_of) evs (start w) = Some s \<Longrightarrow> sim_inv size_of (start w) evs s"
proof (induction evs arbitrary: s rule: rev_induct)
  case Nil
  then show ?case by (auto simp: sim_inv_def start_def dispatched_def)
next
  case (snoc ev evs)
  then obtain s1 where "run_opt (sim_step size_of) evs (start w) = Some s1" "sim_step size_of ev s1 = Some s"
    by (auto simp: run_opt_append bind_eq_Some_conv)
  then show ?case using sim_inv_step snoc.IH by blast
qed

text \<open>
  C26: A request reaches its handler at most once, whatever the network does. A call that returns true has had
  its request handled exactly once, the value it returns is the reply of that handler, and after the handler had replied the connection was still
  enabled and the server still the one the request was sent to, neither deleted nor replaced.
\<close>

theorem rpc_at_most_once:
  assumes "run_opt (sim_step size_of) evs (start w) = Some s" "i < length (calls s)"
  shows "dispatched i evs \<le> 1 \<and>
    (\<forall>v. phase (calls s ! i) = C_returned (Some v) \<longrightarrow>
       dispatched i evs = 1 \<and> handler (calls s ! i) = H_reply \<lparr>ok = True, reply = [v]\<rparr> \<and> checked_alive size_of (start w) evs i)"
proof -
  have "call_ok (checked_alive size_of (start w) evs i) (dispatched i evs) (calls s ! i)"
    using sim_inv_run [OF assms(1)] assms(2) by (simp add: sim_inv_def)
  then show ?thesis unfolding call_ok_def by (auto split: goroutine.splits)
qed

section \<open>A reliable network\<close>

definition steady :: "name \<Rightarrow> name \<Rightarrow> nat \<Rightarrow> Network \<Rightarrow> bool" where
  "steady e sn a rn \<longleftrightarrow> reliable rn \<and> enabled rn e = Some True \<and> connections rn e = Some (Some sn) \<and> servers rn sn = Some (Some a) \<and>
     e \<in> ends rn \<and> \<not> rn_done rn"

fun quiet :: "name \<Rightarrow> name \<Rightarrow> ('v, 'w) event \<Rightarrow> bool" where
  "quiet e sn (E_Reliable yes) \<longleftrightarrow> yes"
| "quiet e sn (E_AddServer sn' a) \<longleftrightarrow> sn' \<noteq> sn"
| "quiet e sn (E_DeleteServer sn') \<longleftrightarrow> sn' \<noteq> sn"
| "quiet e sn (E_Connect e' sn') \<longleftrightarrow> e' \<noteq> e"
| "quiet e sn (E_Enable e' yes) \<longleftrightarrow> e' \<noteq> e \<or> yes"
| "quiet e sn E_Cleanup \<longleftrightarrow> False"
| "quiet e sn _ \<longleftrightarrow> True"

lemma with_call_net: "with_call i f s = Some s' \<Longrightarrow> net s' = net s"
  by (auto simp: with_call_Some)

lemma steady_step:
  assumes "steady e sn a (net s)" "quiet e sn ev" "sim_step size_of ev s = Some s'"
  shows "steady e sn a (net s')"
  using assms
  by (cases ev)
    (auto simp: steady_def countReq_def Reliable_def LongReordering_def LongDelays_def MakeEnd_def AddServer_def DeleteServer_def Connect_def Enable_def
      bind_eq_Some_conv dest!: with_call_net split: if_splits goroutine.splits prog.splits phase.splits prod.splits)

definition steady_call :: "name \<Rightarrow> name \<Rightarrow> nat \<Rightarrow> ('v, 'w) call \<Rightarrow> bool" where
  "steady_call e sn a c \<longleftrightarrow> endname (req c) = e \<and> (\<forall>rep. handler c = H_reply rep \<longrightarrow> ok rep) \<and>
     (case phase c of
        P_wait sn' a' rel lr \<Rightarrow> sn' = sn \<and> a' = a \<and> rel
      | P_check sn' a' rel lr rep \<Rightarrow> sn' = sn \<and> a' = a \<and> rel \<and> (case rep of None \<Rightarrow> False | Some rp \<Rightarrow> ok rp)
      | P_reply rep \<Rightarrow> ok rep
      | C_returned r \<Rightarrow> r \<noteq> None
      | _ \<Rightarrow> True)"

lemma steady_alive: "steady e sn a rn \<Longrightarrow> \<not> isServerDead e sn a rn"
  by (simp add: steady_def isServerDead_def mget_def)

lemma steady_call_trans:
  assumes "call_trans ev rn c c'" "steady_call e sn a c" "steady e sn a rn"
  shows "steady_call e sn a c'"
  using assms
proof (cases rule: call_trans.cases)
  case (process i r)
  have "readEndnameInfo e rn = (True, Some sn, Some a, True, longReordering rn)"
    using assms(3) by (simp add: readEndnameInfo_def steady_def mget_def)
  then show ?thesis using process assms(2) by (simp add: steady_call_def processReq_start_def)
next
  case (check r i)
  then show ?thesis using assms(2) steady_alive [OF assms(3)]
    by (auto simp: steady_call_def processReq_end_def split: phase.splits option.splits if_splits)
next
  case (deliver rep i)
  then show ?thesis using assms(2)
    by (auto simp: steady_call_def Call_end_def bind_eq_Some_conv split: if_splits)
qed (auto simp: steady_call_def steady_alive steady_def)

lemma steady_call_step:
  assumes "sim_step size_of ev s = Some s'" "i < length (calls s)" "steady_call e sn a (calls s ! i)" "steady e sn a (net s)"
  shows "i < length (calls s') \<and> steady_call e sn a (calls s' ! i)"
proof (cases "event_index ev")
  case None
  from sim_step_other [OF assms(1) None] show ?thesis using assms(2,3) by (auto simp: nth_append)
next
  case (Some l)
  then show ?thesis
    using sim_step_own [OF assms(1) Some] assms(2,3) steady_call_trans [OF _ assms(3,4)] by (cases "l = i") auto
qed

lemma steady_call_run:
  "run_opt (sim_step size_of) evs s = Some s' \<Longrightarrow> list_all (quiet e sn) evs \<Longrightarrow> i < length (calls s) \<Longrightarrow> steady_call e sn a (calls s ! i) \<Longrightarrow>
   steady e sn a (net s) \<Longrightarrow> i < length (calls s') \<and> steady_call e sn a (calls s' ! i)"
proof (induction evs arbitrary: s)
  case (Cons ev evs)
  then obtain s1 where s1: "sim_step size_of ev s = Some s1" "run_opt (sim_step size_of) evs s1 = Some s'" by (auto simp: bind_eq_Some_conv)
  have "steady e sn a (net s1)" using steady_step [OF Cons.prems(5) _ s1(1)] Cons.prems(2) by simp
  then show ?case using Cons.IH [OF s1(2)] steady_call_step [OF s1(1) Cons.prems(3,4,5)] Cons.prems(2) by simp
qed simp

text \<open>A handler that comes to its end when no other handler interferes.\<close>

inductive runs_to :: "('v, 'w) prog \<Rightarrow> 'w \<Rightarrow> 'v \<Rightarrow> 'w \<Rightarrow> bool" where
  return: "runs_to (Return v) w v w"
| step: "f w = (w1, p) \<Longrightarrow> runs_to p w1 v w' \<Longrightarrow> runs_to (Step f) w v w'"

lemma handler_runs:
  assumes "runs_to p (objs s) v w" "i < length (calls s)" "handler (calls s ! i) = H_run p"
  shows "\<exists>n. run_opt (sim_step size_of) (replicate n (E_Handle i)) s =
    Some (s\<lparr>objs := w, calls := (calls s)[i := (calls s ! i)\<lparr>handler := H_reply \<lparr>ok = True, reply = [v]\<rparr>\<rparr>]\<rparr>)"
  using assms
proof (induction p "objs s" v w arbitrary: s rule: runs_to.induct)
  case (return v)
  then show ?case by (intro exI [of _ 1]) (simp add: with_call_def Encode_def)
next
  case (step f w1 p v w')
  let ?s = "s\<lparr>objs := w1, calls := (calls s)[i := (calls s ! i)\<lparr>handler := H_run p\<rparr>]\<rparr>"
  obtain n where "run_opt (sim_step size_of) (replicate n (E_Handle i)) ?s =
      Some (?s\<lparr>objs := w', calls := (calls ?s)[i := (calls ?s ! i)\<lparr>handler := H_reply \<lparr>ok = True, reply = [v]\<rparr>\<rparr>]\<rparr>)"
    using step.hyps(3) [of ?s] step.prems by auto
  moreover have "sim_step size_of (E_Handle i) s = Some ?s" using step by (simp add: with_call_def)
  ultimately show ?case using step.prems by (intro exI [of _ "Suc n"]) simp
qed

lemma run_opt_prefixes: "run_opt exec xs s = Some s1 \<Longrightarrow> run_opt exec ys s1 = Some s2 \<Longrightarrow> run_opt exec (xs @ ys @ zs) s = run_opt exec zs s2"
  by (simp add: run_opt_append)

lemma call_returns:
  assumes st: "steady e sn a (net s)" "serving s" "a < length (srvs s)"
    and disp: "Server_dispatch \<lparr>endname = e, svcMeth = meth, argsType = z, args = [x]\<rparr> (srvs s ! a) = Some (p, rs)" "runs_to p (objs s) v w"
  shows "\<exists>evs s'. list_all (quiet e sn) evs \<and> run_opt (sim_step size_of) (E_Call e meth z x # evs) s = Some s' \<and>
    phase (calls s' ! length (calls s)) = C_returned (Some v) \<and> objs s' = w"
proof -
  let ?i = "length (calls s)" and ?rq = "\<lparr>endname = e, svcMeth = meth, argsType = z, args = [x]\<rparr>"
  let ?S = "\<lambda>rn srv ph h. s\<lparr>net := rn, srvs := srv, calls := calls s @ [\<lparr>req = ?rq, phase = ph, handler = h\<rparr>]\<rparr>"
  let ?S' = "\<lambda>rn srv w ph h. s\<lparr>net := rn, srvs := srv, objs := w, calls := calls s @ [\<lparr>req = ?rq, phase = ph, handler = h\<rparr>]\<rparr>"
  define rn where "rn = countReq (size_of [x]) (net s)"
  define lr where "lr = longReordering rn"
  have rn: "steady e sn a rn" using st(1) by (simp add: rn_def countReq_def steady_def)
  then have info: "readEndnameInfo e rn = (True, Some sn, Some a, True, lr)" by (simp add: readEndnameInfo_def steady_def lr_def mget_def)
  let ?srv = "(srvs s)[a := rs]" and ?rep = "\<lparr>ok = True, reply = [v]\<rparr>"
  have r1: "run_opt (sim_step size_of) [E_Call e meth z x, E_Accept ?i, E_Process ?i 0, E_Dispatch ?i] s = Some (?S rn ?srv (P_wait sn a True lr) (H_run p))"
    using st disp(1) info
    by (simp add: steady_def with_call_def Call_begin_def Encode_def processReq_start_def go_nth_def in_range_def len_def rn_def)
  obtain n where r2: "run_opt (sim_step size_of) (replicate n (E_Handle ?i)) (?S rn ?srv (P_wait sn a True lr) (H_run p)) =
      Some (?S' rn ?srv w (P_wait sn a True lr) (H_reply ?rep))"
    using handler_runs [of p "?S rn ?srv (P_wait sn a True lr) (H_run p)" v w ?i size_of] disp(2) by auto
  have r3: "\<exists>s'. run_opt (sim_step size_of) [E_TakeReply ?i, E_Check ?i 0, E_Deliver ?i] (?S' rn ?srv w (P_wait sn a True lr) (H_reply ?rep)) = Some s' \<and>
      phase (calls s' ! ?i) = C_returned (Some v) \<and> objs s' = w"
    using steady_alive [OF rn] by (simp add: with_call_def processReq_end_def Call_end_def)
  let ?evs = "[E_Accept ?i, E_Process ?i 0, E_Dispatch ?i] @ replicate n (E_Handle ?i) @ [E_TakeReply ?i, E_Check ?i 0, E_Deliver ?i]"
  have "E_Call e meth z x # ?evs = [E_Call e meth z x, E_Accept ?i, E_Process ?i 0, E_Dispatch ?i] @ replicate n (E_Handle ?i) @ [E_TakeReply ?i, E_Check ?i 0, E_Deliver ?i]"
    by simp
  then have "run_opt (sim_step size_of) (E_Call e meth z x # ?evs) s =
      run_opt (sim_step size_of) [E_TakeReply ?i, E_Check ?i 0, E_Deliver ?i] (?S' rn ?srv w (P_wait sn a True lr) (H_reply ?rep))"
    using run_opt_prefixes [OF r1 r2] by (rule ssubst)
  moreover have "list_all (quiet e sn) ?evs" by (simp add: list_all_iff)
  ultimately show ?thesis using r3 by metis
qed

text \<open>
  C28: On a reliable network a call over an enabled end that is connected to a server returns true with what the handler
  returns: such a run exists when the handler comes to its end, and no run of the network makes the call return false, as
  long as the network stays reliable, the end enabled and connected, and the server in place.
\<close>

theorem reliable_rpc_returns:
  assumes "steady e sn a (net s)" "serving s" "a < length (srvs s)"
    and "Server_dispatch \<lparr>endname = e, svcMeth = meth, argsType = z, args = [x]\<rparr> (srvs s ! a) = Some (p, rs)" "runs_to p (objs s) v w"
  shows "(\<exists>evs s'. list_all (quiet e sn) evs \<and> run_opt (sim_step size_of) (E_Call e meth z x # evs) s = Some s' \<and>
      phase (calls s' ! length (calls s)) = C_returned (Some v) \<and> objs s' = w) \<and>
    (\<forall>evs s' r. list_all (quiet e sn) evs \<longrightarrow> run_opt (sim_step size_of) (E_Call e meth z x # evs) s = Some s' \<longrightarrow>
      phase (calls s' ! length (calls s)) = C_returned r \<longrightarrow> r \<noteq> None)"
proof (intro conjI allI impI)
  fix evs s' r
  assume q: "list_all (quiet e sn) evs" and r: "run_opt (sim_step size_of) (E_Call e meth z x # evs) s = Some s'"
    and ph: "phase (calls s' ! length (calls s)) = C_returned r"
  let ?s = "s\<lparr>calls := calls s @ [Call_begin e meth z x]\<rparr>"
  have "run_opt (sim_step size_of) evs ?s = Some s'" using r assms(1) by (simp add: steady_def)
  moreover have "steady_call e sn a (calls ?s ! length (calls s))" by (simp add: steady_call_def Call_begin_def)
  ultimately show "r \<noteq> None" using steady_call_run [of size_of evs ?s s' e sn "length (calls s)" a] q assms(1) ph by (auto simp: steady_call_def)
qed (rule call_returns [OF assms])

subsection \<open>An example\<close>

text \<open>A server with a counter, connected to an end; one call over it, with a crash of the server during another.\<close>

definition Counter :: "(int, int) Service" where
  "Counter = MakeService ''Counter'' [(''Add'', \<lparr>PkgPath = '''', NumIn = 3, In2_is_Ptr = True, NumOut = 0,
     Func = (\<lambda>x. Step (\<lambda>w. (w + x, Return (w + x))))\<rparr>)]"

definition wiring :: "(int, int) event list" where
  "wiring = [E_MakeServer, E_AddService 0 Counter, E_MakeEnd (NameInt 1), E_AddServer (NameInt 7) 0, E_Connect (NameInt 1) (NameInt 7), E_Enable (NameInt 1) True]"

definition traffic :: "(int, int) event list" where
  "traffic = wiring @ [E_Call (NameInt 1) ''Counter.Add'' 0 5, E_Call (NameInt 1) ''Counter.Add'' 0 3, E_Accept 1, E_Accept 0, E_Process 0 0, E_Process 1 0,
     E_Dispatch 1, E_Handle 1, E_Dispatch 0, E_Handle 0, E_Handle 0, E_Handle 1, E_TakeReply 0, E_Check 0 0, E_Deliver 0,
     E_DeleteServer (NameInt 7), E_TakeReply 1, E_Check 1 0, E_Deliver 1]"

lemma traffic_returns:
  "map_option (\<lambda>s. map phase (calls s)) (run_opt (sim_step len) traffic (start 0)) = Some [C_returned (Some 8), C_returned None]"
  by code_simp

theorem rpc_at_most_once_witness:
  "\<exists>s. run_opt (sim_step len) traffic (start 0) = Some s \<and> phase (calls s ! 0) = C_returned (Some 8) \<and> phase (calls s ! 1) = C_returned None \<and>
    dispatched 0 traffic = 1 \<and> dispatched 1 traffic \<le> 1 \<and> handler (calls s ! 0) = H_reply \<lparr>ok = True, reply = [8]\<rparr> \<and> checked_alive len (start 0) traffic 0"
proof -
  obtain s where s: "run_opt (sim_step len) traffic (start 0) = Some s" and ph: "map phase (calls s) = [C_returned (Some 8), C_returned None]"
    using traffic_returns by auto
  then obtain c0 c1 where c: "calls s = [c0, c1]" and "phase c0 = C_returned (Some 8)" "phase c1 = C_returned None" by auto
  then have l: "length (calls s) = 2" and "phase (calls s ! 0) = C_returned (Some 8)" "phase (calls s ! 1) = C_returned None" by simp_all
  then show ?thesis using rpc_at_most_once [OF s, of 0] rpc_at_most_once [OF s, of 1] s l by auto
qed

lemma wiring_ready:
  "\<exists>s. run_opt (sim_step len) wiring (start 0) = Some s \<and> steady (NameInt 1) (NameInt 7) 0 (net s) \<and> serving s \<and> calls s = [] \<and> objs s = 0 \<and>
     srvs s = [AddService Counter MakeServer]"
  by (simp add: wiring_def start_def MakeNetwork_def steady_def MakeEnd_def AddServer_def Connect_def Enable_def)

lemma Counter_dispatch:
  "Server_dispatch \<lparr>endname = NameInt 1, svcMeth = ''Counter.Add'', argsType = 0, args = [5]\<rparr> (AddService Counter MakeServer) =
     Some (Step (\<lambda>w. (w + 5, Return (w + 5))), (AddService Counter MakeServer)\<lparr>srv_count := 1\<rparr>)"
  by (simp add: Server_dispatch_def Service_dispatch_def AddService_def MakeServer_def Counter_def MakeService_def LastIndex_def go_slice_def go_from_def len_def)

theorem reliable_rpc_returns_witness:
  "\<exists>s evs s'. run_opt (sim_step len) wiring (start 0) = Some s \<and> list_all (quiet (NameInt 1) (NameInt 7)) evs \<and>
    run_opt (sim_step len) (E_Call (NameInt 1) ''Counter.Add'' 0 5 # evs) s = Some s' \<and> phase (calls s' ! 0) = C_returned (Some 5) \<and> objs s' = 5"
proof -
  obtain s where s: "run_opt (sim_step len) wiring (start 0) = Some s" "steady (NameInt 1) (NameInt 7) 0 (net s)" "serving s" "calls s = []" "objs s = 0"
    "srvs s = [AddService Counter MakeServer]"
    using wiring_ready by blast
  have "runs_to (Step (\<lambda>w. (w + 5, Return (w + 5)))) (objs s) 5 (5 :: int)" using s(5) by (auto intro!: runs_to.intros)
  from reliable_rpc_returns [OF s(2,3) _ _ this, of "''Counter.Add''" 0 5 _ len] Counter_dispatch show ?thesis using s(1,4,6) by auto
qed

end
