(* ===== verification/Spec2Isabelle.thy ===== *)
theory Spec2Isabelle
  imports Raft_Election KVRaft_Correct ShardCtrler_Correct ShardKV_Migrate Kv_Local MapReduce_Live Labrpc_Correct
begin

text \<open>
  A verification development for the Go packages of src/src: a replicated log (Raft), three services on top of it (a key/value store, a shard
  controller, a sharded key/value store), a linearizability checker (porcupine) with the key/value model the tests give it, a MapReduce library, and
  the simulated network over which the servers talk.

  \<^bold>\<open>The parts and how they interact.\<close> A server of a service owns a Raft peer (raft.go). It hands commands to the peer with \<open>Start\<close>, and gets
  committed commands and snapshots back through a channel, in the order of the log. The peers of a cluster call each other's \<open>RequestVote\<close>,
  \<open>AppendEntries\<close> and \<open>InstallSnapshot\<close> over labrpc, and keep what must survive a crash in a \<open>Persister\<close> as a gob stream. Clerks retry a request over
  labrpc until a leader answers; servers recognise a repeated request by its client and number. A group of the sharded store asks the shard
  controller for configurations and moves shards to and from other groups. The tests record the operations of clerks and let porcupine decide
  whether the history is linearizable. MapReduce is separate: one coordinator process, any number of workers, and files.

  \<^bold>\<open>Conventions.\<close> Go's \<open>int\<close> is HOL \<open>int\<close> where values only count up; hashes, counters of the network and the words of bit sets have their
  width. An index or slice expression out of range, a nil dereference and \<open>log.Fatalf\<close> are \<open>None\<close>. A map is a partial function (in MapReduce a
  finite map), and where the code ranges over one, the order is an argument, constrained by \<open>range_order\<close> only; an unstable sort is an argument
  constrained by what a sort promises; clocks, random numbers and outcomes of calls are arguments. Code under a mutex is one
  definition; a handler or goroutine that releases the mutex, waits, or calls out is cut there into several. Fields carry a prefix for their struct where names
  would clash.

  \<^bold>\<open>Theories.\<close>

  \<^item> \<open>Prelude\<close>: slices, maps, \<open>range\<close> and the facts on lists and options that the others share. \<open>Storage\<close>: labgob streams (labgob/labgob.go) and
    the persister (raft/persister.go), with the locale \<open>codec\<close> for a state written to a stream and read back. \<open>Service\<close>: running a log, and the locales
    \<open>dedup\<close> and \<open>at_most_once\<close> for services that skip completed requests.
  \<^item> \<open>Raft\<close>: every operation of raft/raft.go on the record \<open>Raft\<close>, in the order of the source. \<open>Raft_Log\<close>: the log, merging of entries and the answer to a conflict.
    \<open>Raft_Inv\<close>: the invariant of a peer. \<open>Raft_Leader\<close>: what a leader sends and when it commits. \<open>Raft_Persist\<close>: the saved state (interprets \<open>codec\<close>).
    \<open>Raft_Steps\<close>: the runs of a peer, with one rule per operation, the requests and replies that the peers of the group exchange, and crashes: the
    invariant, which covers the requests sent and so discharges what is assumed of those received; where an index can leave the log; recovery. \<open>Raft_Votes\<close>: the abstract
    election protocol and the locale \<open>quorum\<close>. \<open>Raft_Election\<close>: a cluster of peers refines it, hence one leader per term without
    restarts; after a restart a peer forgets its vote with the next heartbeat.
  \<^item> \<open>KVRaft\<close>: kvraft/common.go, server.go, client.go. \<open>KVRaft_Correct\<close>: each request takes effect once, replicas agree, snapshots and restarts restore the
    state, replies reflect the log, and when a clerk returns.
  \<^item> \<open>ShardCtrler\<close>: shardctrler/common.go, server.go, client.go. \<open>ShardCtrler_Rebalance\<close>: rebalancing ends and balances. \<open>ShardCtrler_Correct\<close>: Join, Leave, Move
    and Query, agreement of replicas whatever the orders of maps, the panics, how evenly Join and Leave spread the shards, and when a Leave strands them.
  \<^item> \<open>ShardKV\<close>: shardkv/common.go, server.go, client.go. \<open>ShardKV_Correct\<close>: one server: it stores only its own keys, requests take effect at most once
    across migrations, replicas agree, restart. \<open>ShardKV_Migrate\<close>: a shard arrives at the new group as it left the old one.
  \<^item> \<open>Porcupine_Bitset\<close>, \<open>Porcupine\<close>: porcupine/bitset.go, model.go, checker.go, porcupine.go, with the linked list as an explicit store; the locale \<open>bit_sets\<close> is what the
    search needs of bit sets. \<open>Porcupine_Links\<close>: lifting and unlifting. \<open>Porcupine_Search\<close>, \<open>Porcupine_Correct\<close>: the search of one partition
    terminates and decides linearizability. \<open>Porcupine_Parallel\<close>: all partitions, timeouts and partial linearizations. \<open>Kv_Model\<close>: models/kv.go.
    \<open>Kv_Local\<close>: checking key by key is checking the whole store.
  \<^item> \<open>MapReduce\<close>: mr/coordinator.go, rpc.go, worker.go, main/mrsequential.go and the applications of mrapps. \<open>MapReduce_Correct\<close>: file names, buckets and the
    lines of the sequential version. \<open>MapReduce_Job\<close>: the invariant of a job with crashing workers, and that a finished job has
    written the output of the sequential version, for every application that meets the locale \<open>application\<close>, which those of mrapps do. \<open>MapReduce_Live\<close>: tasks are handed out again and one more worker can always finish the job.
  \<^item> \<open>Labrpc\<close>: labrpc/labrpc.go. \<open>Labrpc_Correct\<close>: at-most-once delivery, and reliable calls return.

  \<^bold>\<open>Bounds and fuel.\<close> Most loops are structural recursions or have a termination proof. The search of the checker polls a kill flag in
  every iteration; the list of polled values bounds it, and \<open>enough n = n * Suc n ^ (n div 2)\<close> iterations are proved to be enough for
  n entries: every state of the search is entered once, and there are at most that many. Retry loops of clerks run over a list of outcomes of calls, and it is proved
  which lists let them return. \<open>rebalanceLoop\<close> is a recursion with a measure, the distance between its two indices.

  \<^bold>\<open>Assumptions.\<close> \<open>encoding/gob\<close> and \<open>encoding/json\<close> read back what they wrote. \<open>sort.Sort\<close> leaves a sorted permutation, in no particular order among equal elements. A file
  that is renamed appears complete. The network of the election theorem delivers a request at most once, which \<open>Labrpc_Correct\<close> proves of labrpc.

  \<^bold>\<open>Not modelled.\<close> porcupine/visualization.go (writes an HTML page); the config.go files of the tests, which start and crash servers and compare results;
  the util.go files (debug output); the programs of main other than mrsequential.go (command lines, and packages that are not in the
  repository); mrapps/jobcount.go, mtiming.go and rtiming.go (count processes through files and signals); in labgob the warnings about
  field names and non-default values; socket set-up and the example call in mr. Durations of sleeps and timers: what they guard may happen at any
  time. Log matching and leader completeness across a whole Raft cluster are not proved: a restarted peer may vote twice in a term, and
  \<open>InstallSnapshot\<close> keeps entries behind the snapshot without comparing terms, so they do not hold of the code as it is. For the same reason no
  bound relates \<open>CommitIndex\<close> to the log of a follower.
\<close>

end
